(* ===== verification/Prelude.thy ===== *)
theory Prelude
  imports Main "HOL-Library.Char_ord" "HOL-Library.List_Lexorder"
begin

text \<open>
  Shared ground of the development: the types that stand for Go's basic data, the
  collections of rewrite rules the component theories extend, and the generic lemmas on
  lists, options and integers they share.

  A Go \<^verbatim>\<open>string\<close> and a Go \<^verbatim>\<open>[]byte\<close> are both a list of bytes here, the type
  \<^typ>\<open>string\<close> of lists of 8-bit characters; \<^const>\<open>length\<close> therefore counts bytes, as
  \<^verbatim>\<open>len\<close> does. The byte-wise lexicographic order of Go strings is the order that
  \<^verbatim>\<open>List_Lexorder\<close> puts on lists of characters. A Go \<^verbatim>\<open>map\<close> that is only
  looked up is a partial function; one whose keys are enumerated is an association list.
  A \<^verbatim>\<open>time.Duration\<close> is a signed 64-bit count of nanoseconds: an \<^typ>\<open>int\<close> with the
  wrap-around written out by \<open>wrap64\<close> where the code computes with values it has not
  bounded.
\<close>

section \<open>Types and constants\<close>

type_synonym bytes = string
type_synonym duration = int
type_synonym 'a result = "string + 'a"

named_theorems go_simps "equations of the modelled library functions"
named_theorems eval_simps "definitions to unfold when a closed term is evaluated"

definition wrap64 :: "int \<Rightarrow> int" where
  "wrap64 x = (x + 2 ^ 63) mod 2 ^ 64 - 2 ^ 63"

definition second :: duration where
  "second = 1000000000"

definition minute :: duration where
  "minute = 60 * second"

definition hour :: duration where
  "hour = 60 * minute"

text \<open>
  \<^verbatim>\<open>rand.N(n)\<close> of \<^verbatim>\<open>math/rand/v2\<close> panics when \<open>n\<close> is not positive and
  otherwise returns some value in \<open>[0, n)\<close>. The first argument is the entropy drawn: every
  value of the range is the result for some entropy.
\<close>

definition rand_N :: "nat \<Rightarrow> int \<Rightarrow> int option" where
  "rand_N e n = (if n \<le> 0 then None else Some (int e mod n))"

text \<open>Go's integer division truncates towards zero.\<close>

definition go_div :: "int \<Rightarrow> int \<Rightarrow> int" where
  "go_div a b = sgn a * sgn b * (\<bar>a\<bar> div \<bar>b\<bar>)"

text \<open>
  A channel that is only ever closed, as the program uses them to signal an event once. Closing
  it a second time is a run-time panic.
\<close>

datatype channel = Open | Closed | PanickedOnClose

fun close_chan :: "channel \<Rightarrow> channel" where
  "close_chan Open = Closed"
| "close_chan _ = PanickedOnClose"

text \<open>A call through an interface returns a value, returns an error, or panics.\<close>

datatype ('e, 'a) call = Returns 'a | Fails 'e | Panics

section \<open>Integers\<close>

lemma go_div_pos [simp]: "0 \<le> a \<Longrightarrow> 0 < b \<Longrightarrow> go_div a b = a div b"
  by (cases "a = 0") (simp_all add: go_div_def)

lemma wrap64_id [simp]:
  assumes "- (2 ^ 63) \<le> x" and "x < 2 ^ 63"
  shows "wrap64 x = x"
  using assms by (simp add: wrap64_def)

lemma rand_N_pos [simp]: "0 < n \<Longrightarrow> rand_N e n = Some (int e mod n)"
  by (simp add: rand_N_def)

lemma rand_N_bounds: "rand_N e n = Some r \<Longrightarrow> 0 \<le> r \<and> r < n"
  by (auto simp: rand_N_def split: if_splits)

section \<open>Lists\<close>

lemma takeWhile_append_stop:
  "\<not> P x \<Longrightarrow> takeWhile P (xs @ x # ys) = takeWhile P xs"
  by (induction xs) auto

lemma distinct_snoc [simp]: "distinct (xs @ [x]) \<longleftrightarrow> distinct xs \<and> x \<notin> set xs"
  by auto

end
