(* ===== verification/Go_Strings.thy ===== *)
theory Go_Strings
  imports Prelude
begin

text \<open>
  The parts of Go's \<^verbatim>\<open>strings\<close>, \<^verbatim>\<open>strconv\<close> and \<^verbatim>\<open>unicode/utf8\<close> packages
  that the program uses, on byte strings. Byte indices that are \<open>-1\<close> when nothing is found
  are options here. \<^verbatim>\<open>strings.TrimSpace\<close> and \<^verbatim>\<open>strings.ToValidUTF8\<close> work on
  decoded runes, so the decoder of \<^verbatim>\<open>unicode/utf8\<close> is modelled with its table of accepted
  second bytes.
\<close>

section \<open>Bytes\<close>

abbreviation byte_of :: "char \<Rightarrow> nat" where
  "byte_of c \<equiv> of_char c"

abbreviation chr_of :: "nat \<Rightarrow> char" where
  "chr_of n \<equiv> char_of n"

definition is_digit :: "char \<Rightarrow> bool" where
  "is_digit c \<longleftrightarrow> 48 \<le> byte_of c \<and> byte_of c \<le> 57"

definition is_lower :: "char \<Rightarrow> bool" where
  "is_lower c \<longleftrightarrow> 97 \<le> byte_of c \<and> byte_of c \<le> 122"

definition is_upper :: "char \<Rightarrow> bool" where
  "is_upper c \<longleftrightarrow> 65 \<le> byte_of c \<and> byte_of c \<le> 90"

text \<open>The digits \<open>0-9\<close> are the bytes 48 to 57, \<open>A-Z\<close> 65 to 90, \<open>a-z\<close> 97 to 122.\<close>

declare is_digit_def [eval_simps] is_lower_def [eval_simps] is_upper_def [eval_simps]

section \<open>Searching and cutting\<close>

definition HasPrefix :: "string \<Rightarrow> string \<Rightarrow> bool" where
  "HasPrefix s p \<longleftrightarrow> take (length p) s = p"

definition HasSuffix :: "string \<Rightarrow> string \<Rightarrow> bool" where
  "HasSuffix s p \<longleftrightarrow> length p \<le> length s \<and> drop (length s - length p) s = p"

definition CutPrefix :: "string \<Rightarrow> string \<Rightarrow> string \<times> bool" where
  "CutPrefix s p = (if HasPrefix s p then (drop (length p) s, True) else (s, False))"

definition TrimPrefix :: "string \<Rightarrow> string \<Rightarrow> string" where
  "TrimPrefix s p = (if HasPrefix s p then drop (length p) s else s)"

definition TrimSuffix :: "string \<Rightarrow> string \<Rightarrow> string" where
  "TrimSuffix s p = (if HasSuffix s p then take (length s - length p) s else s)"

fun IndexByte :: "string \<Rightarrow> char \<Rightarrow> nat option" where
  "IndexByte [] c = None"
| "IndexByte (x # xs) c = (if x = c then Some 0 else map_option Suc (IndexByte xs c))"

fun LastIndexByte :: "string \<Rightarrow> char \<Rightarrow> nat option" where
  "LastIndexByte [] c = None"
| "LastIndexByte (x # xs) c =
     (case LastIndexByte xs c of Some i \<Rightarrow> Some (Suc i)
      | None \<Rightarrow> if x = c then Some 0 else None)"

text \<open>\<^verbatim>\<open>strings.Split\<close> and \<^verbatim>\<open>strings.SplitSeq\<close> with a one-byte separator.\<close>

fun Split :: "string \<Rightarrow> char \<Rightarrow> string list" where
  "Split [] c = [[]]"
| "Split (x # xs) c =
     (if x = c then [] # Split xs c
      else case Split xs c of [] \<Rightarrow> [[x]] | p # ps \<Rightarrow> (x # p) # ps)"

fun Join :: "string list \<Rightarrow> string \<Rightarrow> string" where
  "Join [] sep = []"
| "Join [s] sep = s"
| "Join (s # ss) sep = s @ sep @ Join ss sep"

text \<open>\<^verbatim>\<open>strings.Cut(s, sep)\<close> with a one-byte separator: before, after, found.\<close>

definition Cut :: "string \<Rightarrow> char \<Rightarrow> string \<times> string \<times> bool" where
  "Cut s c = (case IndexByte s c of
      Some i \<Rightarrow> (take i s, drop (Suc i) s, True)
    | None \<Rightarrow> (s, [], False))"

definition lower_ascii :: "char \<Rightarrow> char" where
  "lower_ascii c = (if is_upper c then chr_of (byte_of c + 32) else c)"

text \<open>\<^verbatim>\<open>ascii.EqualFold\<close> of \<^verbatim>\<open>net/http\<close>.\<close>

definition EqualFold_ascii :: "string \<Rightarrow> string \<Rightarrow> bool" where
  "EqualFold_ascii s t \<longleftrightarrow> map lower_ascii s = map lower_ascii t"

section \<open>Numbers\<close>

fun digits_value :: "nat \<Rightarrow> nat \<Rightarrow> string \<Rightarrow> nat option" where
  "digits_value base acc [] = Some acc"
| "digits_value base acc (c # cs) =
     (if is_digit c \<and> byte_of c - 48 < base
      then digits_value base (acc * base + (byte_of c - 48)) cs else None)"

text \<open>
  \<^verbatim>\<open>strconv.ParseUint(s, base, bits)\<close> for the bases 8 and 10 the program passes: an empty
  string, a character that is no digit of the base and a value of \<open>2 ^ bits\<close> or more are
  errors.
\<close>

definition ParseUint :: "string \<Rightarrow> nat \<Rightarrow> nat \<Rightarrow> nat option" where
  "ParseUint s base bits =
     (if s = [] then None
      else case digits_value base 0 s of
        None \<Rightarrow> None
      | Some n \<Rightarrow> if n < 2 ^ bits then Some n else None)"

fun Itoa :: "nat \<Rightarrow> string" where
  "Itoa n = (if n < 10 then [chr_of (48 + n)] else Itoa (n div 10) @ [chr_of (48 + n mod 10)])"

declare Itoa.simps [simp del]

section \<open>UTF-8\<close>

definition RuneError :: nat where
  "RuneError = 0xFFFD"

definition is_cont :: "char \<Rightarrow> bool" where
  "is_cont c \<longleftrightarrow> 0x80 \<le> byte_of c \<and> byte_of c < 0xC0"

definition RuneStart :: "char \<Rightarrow> bool" where
  "RuneStart c \<longleftrightarrow> \<not> is_cont c"

text \<open>Length of the encoding a first byte announces, with the range of its second byte.\<close>

definition first_byte :: "nat \<Rightarrow> (nat \<times> nat \<times> nat) option" where
  "first_byte b =
     (if b < 0xC2 then None
      else if b < 0xE0 then Some (2, 0x80, 0xBF)
      else if b = 0xE0 then Some (3, 0xA0, 0xBF)
      else if b = 0xED then Some (3, 0x80, 0x9F)
      else if b < 0xF0 then Some (3, 0x80, 0xBF)
      else if b = 0xF0 then Some (4, 0x90, 0xBF)
      else if b < 0xF4 then Some (4, 0x80, 0xBF)
      else if b = 0xF4 then Some (4, 0x80, 0x8F)
      else None)"

definition DecodeRune :: "string \<Rightarrow> nat \<times> nat" where
  "DecodeRune s = (case s of
      [] \<Rightarrow> (RuneError, 0)
    | c # cs \<Rightarrow>
      let b = byte_of c in
      if b < 0x80 then (b, 1)
      else case first_byte b of
        None \<Rightarrow> (RuneError, 1)
      | Some (n, lo, hi) \<Rightarrow>
        (case take (n - 1) cs of
           [c1] \<Rightarrow>
             if n = 2 \<and> lo \<le> byte_of c1 \<and> byte_of c1 \<le> hi
             then (b mod 32 * 64 + byte_of c1 mod 64, 2) else (RuneError, 1)
         | [c1, c2] \<Rightarrow>
             if n = 3 \<and> lo \<le> byte_of c1 \<and> byte_of c1 \<le> hi \<and> is_cont c2
             then (b mod 16 * 4096 + byte_of c1 mod 64 * 64 + byte_of c2 mod 64, 3)
             else (RuneError, 1)
         | [c1, c2, c3] \<Rightarrow>
             if n = 4 \<and> lo \<le> byte_of c1 \<and> byte_of c1 \<le> hi \<and> is_cont c2 \<and> is_cont c3
             then (b mod 8 * 262144 + byte_of c1 mod 64 * 4096
                   + byte_of c2 mod 64 * 64 + byte_of c3 mod 64, 4)
             else (RuneError, 1)
         | _ \<Rightarrow> (RuneError, 1)))"

definition DecodeLastRune :: "string \<Rightarrow> nat \<times> nat" where
  "DecodeLastRune s =
     (if s = [] then (RuneError, 0)
      else if byte_of (last s) < 0x80 then (byte_of (last s), 1)
      else case find (\<lambda>k. k \<le> length s \<and> RuneStart (s ! (length s - k))) [2, 3, 4] of
        None \<Rightarrow> (RuneError, 1)
      | Some k \<Rightarrow>
        let (r, n) = DecodeRune (drop (length s - k) s)
        in if n = k then (r, n) else (RuneError, 1))"

lemma DecodeRune_ascii [simp]:
  "byte_of c < 0x80 \<Longrightarrow> DecodeRune (c # cs) = (byte_of c, 1)"
  by (simp add: DecodeRune_def)

lemma DecodeRune_size_le: "snd (DecodeRune s) \<le> length s"
  by (auto simp: DecodeRune_def Let_def split: list.splits option.splits prod.splits if_splits
      dest!: arg_cong [where f = length])

lemma DecodeRune_size_pos [simp]: "s \<noteq> [] \<Longrightarrow> 0 < snd (DecodeRune s)"
  by (auto simp: DecodeRune_def Let_def split: list.splits option.splits prod.splits)

lemma DecodeLastRune_ascii [simp]:
  "byte_of c < 0x80 \<Longrightarrow> DecodeLastRune (cs @ [c]) = (byte_of c, 1)"
  by (simp add: DecodeLastRune_def)

lemma DecodeLastRune_size_pos [simp]: "s \<noteq> [] \<Longrightarrow> 0 < snd (DecodeLastRune s)"
  by (auto simp: DecodeLastRune_def Let_def split: option.splits prod.splits if_splits)

section \<open>White space and invalid encodings\<close>

text \<open>\<^verbatim>\<open>unicode.IsSpace\<close>.\<close>

definition IsSpace :: "nat \<Rightarrow> bool" where
  "IsSpace r \<longleftrightarrow> 9 \<le> r \<and> r \<le> 13 \<or> r = 32 \<or> r = 0x85 \<or> r = 0xA0 \<or> r = 0x1680
     \<or> 0x2000 \<le> r \<and> r \<le> 0x200A \<or> r = 0x2028 \<or> r = 0x2029 \<or> r = 0x202F
     \<or> r = 0x205F \<or> r = 0x3000"

function TrimLeftSpace :: "string \<Rightarrow> string" where
  "TrimLeftSpace s =
     (if s \<noteq> [] \<and> IsSpace (fst (DecodeRune s))
      then TrimLeftSpace (drop (snd (DecodeRune s)) s) else s)"
  by pat_completeness auto
termination
  by (relation "measure length") auto

function TrimRightSpace :: "string \<Rightarrow> string" where
  "TrimRightSpace s =
     (if s \<noteq> [] \<and> IsSpace (fst (DecodeLastRune s))
      then TrimRightSpace (take (length s - snd (DecodeLastRune s)) s) else s)"
  by pat_completeness auto
termination
proof (relation "measure length", goal_cases)
  case (2 s)
  then have "0 < snd (DecodeLastRune s)" by simp
  with 2 show ?case by (cases s) auto
qed simp

declare TrimLeftSpace.simps [simp del] TrimRightSpace.simps [simp del]

definition TrimSpace :: "string \<Rightarrow> string" where
  "TrimSpace s = TrimRightSpace (TrimLeftSpace s)"

text \<open>\<^verbatim>\<open>strings.ToValidUTF8(s, "")\<close>: bytes that do not decode are dropped.\<close>

function ToValidUTF8 :: "string \<Rightarrow> string" where
  "ToValidUTF8 s =
     (if s = [] then []
      else let (r, n) = DecodeRune s
        in (if r = RuneError \<and> n = 1 then [] else take n s) @ ToValidUTF8 (drop n s))"
  by pat_completeness auto
termination
proof (relation "measure length", goal_cases)
  case (2 s x r n)
  then have "n = snd (DecodeRune s)" by (metis snd_conv)
  with 2 show ?case by simp
qed auto

declare ToValidUTF8.simps [simp del]

text \<open>A visible character: ASCII and no white space.\<close>

definition visible :: "char \<Rightarrow> bool" where
  "visible c \<longleftrightarrow> 33 \<le> byte_of c \<and> byte_of c < 0x7F"

lemma visible_not_space: "visible c \<Longrightarrow> byte_of c < 0x80 \<and> \<not> IsSpace (byte_of c)"
  by (auto simp: visible_def IsSpace_def)

lemma TrimLeftSpace_visible [simp]: "visible c \<Longrightarrow> TrimLeftSpace (c # cs) = c # cs"
  using visible_not_space [of c] by (subst TrimLeftSpace.simps) simp

lemma TrimLeftSpace_Nil [simp]: "TrimLeftSpace [] = []"
  by (subst TrimLeftSpace.simps) simp

lemma TrimRightSpace_visible [simp]: "visible c \<Longrightarrow> TrimRightSpace (cs @ [c]) = cs @ [c]"
  using visible_not_space [of c] by (subst TrimRightSpace.simps) simp

lemma TrimRightSpace_Nil [simp]: "TrimRightSpace [] = []"
  by (subst TrimRightSpace.simps) simp

lemma TrimRightSpace_newline [simp]: "TrimRightSpace (s @ [CHR 0x0A]) = TrimRightSpace s"
  by (subst TrimRightSpace.simps) (simp add: IsSpace_def)

lemma TrimSpace_visible [simp]:
  assumes "s \<noteq> [] \<Longrightarrow> visible (hd s) \<and> visible (last s)"
  shows "TrimSpace s = s"
proof (cases "s = []")
  case True
  then show ?thesis by (simp add: TrimSpace_def)
next
  case False
  with assms have "TrimLeftSpace s = s" by (cases s) auto
  moreover from False assms have "TrimRightSpace s = s"
    by (metis TrimRightSpace_visible append_butlast_last_id)
  ultimately show ?thesis by (simp add: TrimSpace_def)
qed

lemma TrimSpace_newline:
  assumes "s \<noteq> []" and "visible (hd s)" and "visible (last s)"
  shows "TrimSpace (s @ [CHR 0x0A]) = s"
proof -
  from assms obtain c cs where s: "s = c # cs" by (cases s) auto
  with assms have "TrimLeftSpace (s @ [CHR 0x0A]) = s @ [CHR 0x0A]" by simp
  then have "TrimSpace (s @ [CHR 0x0A]) = TrimRightSpace s" by (simp add: TrimSpace_def)
  also have "\<dots> = s"
    using assms by (metis TrimRightSpace_visible append_butlast_last_id)
  finally show ?thesis .
qed

lemma first_byte_lo: "first_byte b = Some (n, lo, hi) \<Longrightarrow> 0x80 \<le> lo"
  by (auto simp: first_byte_def split: if_splits)

lemma DecodeRune_high:
  assumes "0x80 \<le> byte_of b" and "c \<in> set (take (snd (DecodeRune (b # bs))) (b # bs))"
  shows "0x80 \<le> byte_of c"
proof (cases "first_byte (byte_of b)")
  case None
  with assms show ?thesis by (simp add: DecodeRune_def Let_def)
next
  case (Some t)
  obtain n lo hi where t: "t = (n, lo, hi)" by (cases t)
  with Some have lo: "0x80 \<le> lo" using first_byte_lo by blast
  from assms(1) have "\<not> byte_of b < 0x80" by simp
  note d = DecodeRune_def Let_def Some t this
  let ?n = "snd (DecodeRune (b # bs))"
  have "?n = 1
      \<or> (\<exists>c1. ?n = 2 \<and> take 1 bs = [c1] \<and> lo \<le> byte_of c1)
      \<or> (\<exists>c1 c2. ?n = 3 \<and> take 2 bs = [c1, c2] \<and> lo \<le> byte_of c1 \<and> is_cont c2)
      \<or> (\<exists>c1 c2 c3. ?n = 4 \<and> take 3 bs = [c1, c2, c3] \<and> lo \<le> byte_of c1 \<and> is_cont c2 \<and> is_cont c3)"
    by (auto simp: d split: list.split)
  then show ?thesis
    using assms lo by (auto simp: is_cont_def take_Cons')
qed

lemma DecodeRune_space_invisible:
  assumes "IsSpace (fst (DecodeRune s))" and "c \<in> set (take (snd (DecodeRune s)) s)"
  shows "\<not> visible c"
proof (cases s)
  case (Cons b bs)
  show ?thesis
  proof (cases "byte_of b < 0x80")
    case True
    with assms Cons show ?thesis by (auto dest: visible_not_space)
  next
    case False
    with assms(2) Cons have "0x80 \<le> byte_of c" using DecodeRune_high [of b c bs] by simp
    then show ?thesis by (auto simp: visible_def)
  qed
qed (use assms in simp)

lemma TrimLeftSpace_keeps_visible: "c \<in> set s \<Longrightarrow> visible c \<Longrightarrow> c \<in> set (TrimLeftSpace s)"
proof (induction s rule: TrimLeftSpace.induct)
  case (1 s)
  show ?case
  proof (cases "s \<noteq> [] \<and> IsSpace (fst (DecodeRune s))")
    case True
    let ?n = "snd (DecodeRune s)"
    have "c \<in> set (take ?n s) \<or> c \<in> set (drop ?n s)"
      using "1.prems" by (metis Un_iff append_take_drop_id set_append)
    with True "1.prems" have "c \<in> set (drop ?n s)" using DecodeRune_space_invisible by blast
    with "1.IH" True "1.prems" show ?thesis by (subst TrimLeftSpace.simps) simp
  next
    case False
    with "1.prems" show ?thesis by (subst TrimLeftSpace.simps) auto
  qed
qed

lemma DecodeLastRune_space_invisible:
  assumes "IsSpace (fst (DecodeLastRune s))"
    and "c \<in> set (drop (length s - snd (DecodeLastRune s)) s)"
  shows "\<not> visible c"
proof (cases "s = [] \<or> byte_of (last s) < 0x80")
  case True
  then show ?thesis
  proof
    assume *: "byte_of (last s) < 0x80"
    show ?thesis
    proof (cases s rule: rev_cases)
      case (snoc ys y)
      with * assms show ?thesis by (auto dest: visible_not_space)
    qed (use assms in simp)
  qed (use assms in simp)
next
  case False
  have err: "\<not> IsSpace RuneError" by (simp add: IsSpace_def RuneError_def)
  from False assms(1) obtain k where k: "k \<le> length s"
    "DecodeLastRune s = DecodeRune (drop (length s - k) s)"
    "snd (DecodeRune (drop (length s - k) s)) = k"
    by (auto simp: DecodeLastRune_def Let_def err split: option.splits prod.splits if_splits)
  let ?t = "drop (length s - k) s"
  have "c \<in> set (take (snd (DecodeRune ?t)) ?t)"
    using assms(2) k by simp
  with assms(1) k show ?thesis using DecodeRune_space_invisible [of ?t c] by simp
qed

lemma TrimRightSpace_keeps_visible: "c \<in> set s \<Longrightarrow> visible c \<Longrightarrow> c \<in> set (TrimRightSpace s)"
proof (induction s rule: TrimRightSpace.induct)
  case (1 s)
  show ?case
  proof (cases "s \<noteq> [] \<and> IsSpace (fst (DecodeLastRune s))")
    case True
    let ?n = "length s - snd (DecodeLastRune s)"
    have "c \<in> set (take ?n s) \<or> c \<in> set (drop ?n s)"
      using "1.prems" by (metis Un_iff append_take_drop_id set_append)
    with True "1.prems" have "c \<in> set (take ?n s)" using DecodeLastRune_space_invisible by blast
    with "1.IH" True "1.prems" show ?thesis by (subst TrimRightSpace.simps) simp
  next
    case False
    with "1.prems" show ?thesis by (subst TrimRightSpace.simps) auto
  qed
qed

lemma TrimSpace_not_blank: "c \<in> set s \<Longrightarrow> visible c \<Longrightarrow> TrimSpace s \<noteq> []"
  unfolding TrimSpace_def
  using TrimLeftSpace_keeps_visible TrimRightSpace_keeps_visible by fastforce

lemma ToValidUTF8_Nil [simp]: "ToValidUTF8 [] = []"
  by (subst ToValidUTF8.simps) simp

lemma ToValidUTF8_length: "length (ToValidUTF8 s) \<le> length s"
proof (induction s rule: ToValidUTF8.induct)
  case (1 s)
  show ?case
  proof (cases "s = []")
    case False
    obtain r n where d: "DecodeRune s = (r, n)" by force
    from "1.IH" [OF False _ refl] d have "length (ToValidUTF8 (drop n s)) \<le> length s - n"
      by simp
    then show ?thesis
      using False d DecodeRune_size_le [of s] by (subst ToValidUTF8.simps) auto
  qed simp
qed

lemma ToValidUTF8_set: "set (ToValidUTF8 s) \<subseteq> set s"
proof (induction s rule: ToValidUTF8.induct)
  case (1 s)
  show ?case
  proof (cases "s = []")
    case False
    obtain r n where d: "DecodeRune s = (r, n)" by force
    from "1.IH" [OF False _ refl] d have "set (ToValidUTF8 (drop n s)) \<subseteq> set (drop n s)"
      by simp
    then show ?thesis
      using False d set_take_subset [of n s] set_drop_subset [of n s]
      by (subst ToValidUTF8.simps) auto
  qed simp
qed

section \<open>Laws of the cutting functions\<close>

lemma IndexByte_None [simp]: "IndexByte s c = None \<longleftrightarrow> c \<notin> set s"
  by (induction s) auto

lemma IndexByte_append:
  "IndexByte (xs @ c # ys) c = Some (length xs)" if "c \<notin> set xs"
  using that by (induction xs) auto

lemma IndexByte_Some: "IndexByte s c = Some i \<Longrightarrow> i < length s \<and> c \<notin> set (take i s) \<and> s ! i = c"
proof (induction s arbitrary: i)
  case (Cons x xs)
  then show ?case by (cases "x = c") auto
qed simp

lemma LastIndexByte_None [simp]: "LastIndexByte s c = None \<longleftrightarrow> c \<notin> set s"
  by (induction s) (auto split: option.splits)

lemma LastIndexByte_append:
  "LastIndexByte (xs @ c # ys) c = Some (length xs)" if "c \<notin> set ys"
  using that by (induction xs) (auto split: option.splits simp flip: LastIndexByte_None)

lemma LastIndexByte_Some:
  "LastIndexByte s c = Some i \<Longrightarrow> s = take i s @ c # drop (Suc i) s \<and> c \<notin> set (drop (Suc i) s)"
  by (induction s arbitrary: i) (auto split: option.splits if_splits)

lemma LastIndexByte_less: "LastIndexByte s c = Some i \<Longrightarrow> i < length s"
  by (induction s arbitrary: i) (auto split: option.splits if_splits)

lemma Cut_append: "c \<notin> set xs \<Longrightarrow> Cut (xs @ c # ys) c = (xs, ys, True)"
  by (simp add: Cut_def IndexByte_append)

lemma Split_not_Nil [simp]: "Split s c \<noteq> []"
  by (cases s) (auto split: list.splits)

lemma Split_absent: "c \<notin> set s \<Longrightarrow> Split s c = [s]"
  by (induction s) auto

lemma Split_append: "c \<notin> set xs \<Longrightarrow> Split (xs @ c # ys) c = xs # Split ys c"
  by (induction xs) auto

lemma Split_append_sep: "Split (xs @ c # ys) c = Split xs c @ Split ys c"
  by (induction xs) (auto split: list.splits)

lemma HasPrefix_append [simp]: "HasPrefix (p @ s) p"
  by (simp add: HasPrefix_def)

lemma HasPrefix_iff: "HasPrefix s p \<longleftrightarrow> (\<exists>t. s = p @ t)"
  unfolding HasPrefix_def by (metis append_eq_conv_conj append_take_drop_id)

section \<open>Decimal numbers\<close>

lemma Itoa_not_Nil [simp]: "Itoa n \<noteq> []"
  by (subst Itoa.simps) simp

lemma digit_char [simp]:
  "n < 10 \<Longrightarrow> byte_of (chr_of (48 + n)) = 48 + n"
  "n < 10 \<Longrightarrow> is_digit (chr_of (48 + n))"
  by (simp_all add: is_digit_def)

lemma Itoa_digits: "list_all is_digit (Itoa n)"
proof (induction n rule: Itoa.induct)
  case (1 n)
  then show ?case by (subst Itoa.simps) auto
qed

lemma digits_value_append:
  "digits_value base acc (xs @ ys) =
     (case digits_value base acc xs of None \<Rightarrow> None | Some v \<Rightarrow> digits_value base v ys)"
  by (induction xs arbitrary: acc) auto

lemma digits_value_Itoa [simp]: "digits_value 10 0 (Itoa n) = Some n"
proof (induction n rule: Itoa.induct)
  case (1 n)
  show ?case
  proof (cases "n < 10")
    case True
    then show ?thesis by (subst Itoa.simps) simp
  next
    case False
    with 1 show ?thesis by (subst Itoa.simps) (simp add: digits_value_append)
  qed
qed

lemma ParseUint_Itoa: "n < 2 ^ b \<Longrightarrow> ParseUint (Itoa n) 10 b = Some n"
  by (simp add: ParseUint_def)

lemma ParseUint_bound: "ParseUint s base b = Some n \<Longrightarrow> n < 2 ^ b"
  by (auto simp: ParseUint_def split: if_splits option.splits)

lemma Itoa_inj: "Itoa m = Itoa n \<Longrightarrow> m = n"
  by (metis digits_value_Itoa option.inject)

end
