(* ===== verification/Go_Netip.thy ===== *)
theory Go_Netip
  imports Go_Strings "HOL-Library.Word"
begin

unbundle bit_operations_syntax

text \<open>
  \<^verbatim>\<open>net/netip\<close>: addresses, address-and-port strings and prefixes. An address is the zero
  \<^verbatim>\<open>Addr\<close>, an IPv4 address or an IPv6 address with its zone; the parsers follow the
  package's loops, error by error, and return \<^const>\<open>None\<close> for every parse error. The lemmas
  give the numerical meaning of \<^verbatim>\<open>Prefix.Contains\<close> and of \<^verbatim>\<open>Prefix.Masked\<close>.
\<close>

section \<open>Addresses\<close>

datatype Addr = ZeroAddr | Addr4 "32 word" | Addr6 "128 word" string

definition IsValid :: "Addr \<Rightarrow> bool" where
  "IsValid a \<longleftrightarrow> a \<noteq> ZeroAddr"

fun BitLen :: "Addr \<Rightarrow> nat" where
  "BitLen ZeroAddr = 0"
| "BitLen (Addr4 x) = 32"
| "BitLen (Addr6 x z) = 128"

fun Is4 :: "Addr \<Rightarrow> bool" where
  "Is4 (Addr4 x) = True"
| "Is4 _ = False"

fun Is6 :: "Addr \<Rightarrow> bool" where
  "Is6 (Addr6 x z) = True"
| "Is6 _ = False"

fun Is4In6 :: "Addr \<Rightarrow> bool" where
  "Is4In6 (Addr6 x z) = (drop_bit 32 x = 0xFFFF)"
| "Is4In6 _ = False"

fun Zone :: "Addr \<Rightarrow> string" where
  "Zone (Addr6 x z) = z"
| "Zone _ = []"

fun WithZone :: "Addr \<Rightarrow> string \<Rightarrow> Addr" where
  "WithZone (Addr6 x z) z' = Addr6 x z'"
| "WithZone a _ = a"

fun Unmap :: "Addr \<Rightarrow> Addr" where
  "Unmap (Addr6 x z) = (if drop_bit 32 x = 0xFFFF then Addr4 (ucast x) else Addr6 x z)"
| "Unmap a = a"

definition IsUnspecified :: "Addr \<Rightarrow> bool" where
  "IsUnspecified a \<longleftrightarrow> a = Addr4 0 \<or> a = Addr6 0 []"

section \<open>Parsing\<close>

text \<open>
  The loop of \<^verbatim>\<open>parseIPv4Fields\<close>. \<open>fresh\<close> holds at the start of the text and after a
  dot, \<open>n\<close> counts the digits of the current octet.
\<close>

fun v4_fields :: "string \<Rightarrow> bool \<Rightarrow> nat \<Rightarrow> nat \<Rightarrow> nat list \<Rightarrow> nat list option" where
  "v4_fields [] fresh v n fs = (if length fs < 3 then None else Some (fs @ [v]))"
| "v4_fields (c # cs) fresh v n fs =
     (if is_digit c then
        (if n = 1 \<and> v = 0 then None
         else let v' = v * 10 + (byte_of c - 48)
           in if 255 < v' then None else v4_fields cs False v' (Suc n) fs)
      else if c = CHR ''.'' then
        (if fresh \<or> cs = [] then None
         else if length fs = 3 then None
         else v4_fields cs True 0 0 (fs @ [v]))
      else None)"

definition be_value :: "nat list \<Rightarrow> int" where
  "be_value bs = foldl (\<lambda>acc b. acc * 256 + int b) 0 bs"

definition parseIPv4 :: "string \<Rightarrow> Addr option" where
  "parseIPv4 s = map_option (\<lambda>fs. Addr4 (word_of_int (be_value fs))) (v4_fields s True 0 0 [])"

definition hex_value :: "char \<Rightarrow> nat option" where
  "hex_value c =
     (if is_digit c then Some (byte_of c - 48)
      else if 97 \<le> byte_of c \<and> byte_of c \<le> 102 then Some (byte_of c - 87)
      else if 65 \<le> byte_of c \<and> byte_of c \<le> 70 then Some (byte_of c - 55)
      else None)"

text \<open>
  The hexadecimal digits at the start of the text: their value and their number, or
  \<^const>\<open>None\<close> for more than four.
\<close>

fun hex_group :: "string \<Rightarrow> nat \<Rightarrow> nat \<Rightarrow> (nat \<times> nat) option" where
  "hex_group [] acc off = Some (acc, off)"
| "hex_group (c # cs) acc off =
     (case hex_value c of
        None \<Rightarrow> Some (acc, off)
      | Some d \<Rightarrow>
        if 3 < off then None
        else if 0xFFFF < acc * 16 + d then None
        else hex_group cs (acc * 16 + d) (Suc off))"

text \<open>
  The main loop of \<^verbatim>\<open>parseIPv6\<close>: \<open>n\<close> groups may still follow, \<open>ip\<close> holds the
  bytes read so far, \<open>e\<close> the position of the ellipsis. The result is the text left over, the
  bytes and the ellipsis.
\<close>

fun v6_loop :: "nat \<Rightarrow> string \<Rightarrow> nat list \<Rightarrow> nat option \<Rightarrow>
    (string \<times> nat list \<times> nat option) option" where
  "v6_loop 0 s ip e = Some (s, ip, e)"
| "v6_loop (Suc n) s ip e =
     (case hex_group s 0 0 of
        None \<Rightarrow> None
      | Some (acc, off) \<Rightarrow>
        if off = 0 then None
        else if off < length s \<and> s ! off = CHR ''.'' then
          (if e = None \<and> length ip \<noteq> 12 then None
           else if 16 < length ip + 4 then None
           else case v4_fields s True 0 0 [] of
               None \<Rightarrow> None
             | Some fs \<Rightarrow> Some ([], ip @ fs, e))
        else
          (let ip' = ip @ [acc div 256, acc mod 256]
           in case drop off s of
               [] \<Rightarrow> Some ([], ip', e)
             | c # s2 \<Rightarrow>
               if c \<noteq> CHR '':'' \<or> s2 = [] then None
               else if hd s2 = CHR '':'' then
                 (if e \<noteq> None then None
                  else if tl s2 = [] then Some ([], ip', Some (length ip'))
                  else v6_loop n (tl s2) ip' (Some (length ip')))
               else v6_loop n s2 ip' e))"

definition v6_finish :: "string \<times> nat list \<times> nat option \<Rightarrow> nat list option" where
  "v6_finish r = (case r of (s, ip, e) \<Rightarrow>
     if s \<noteq> [] then None
     else if length ip < 16 then
       (case e of
          None \<Rightarrow> None
        | Some k \<Rightarrow> Some (take k ip @ replicate (16 - length ip) 0 @ drop k ip))
     else if e \<noteq> None then None
     else Some ip)"

definition parseIPv6_body :: "string \<Rightarrow> string \<Rightarrow> Addr option" where
  "parseIPv6_body s zone =
     (if 2 \<le> length s \<and> take 2 s = ''::'' then
        (if drop 2 s = [] then Some (Addr6 0 zone)
         else map_option (\<lambda>ip. Addr6 (word_of_int (be_value ip)) zone)
           (Option.bind (v6_loop 8 (drop 2 s) [] (Some 0)) v6_finish))
      else map_option (\<lambda>ip. Addr6 (word_of_int (be_value ip)) zone)
        (Option.bind (v6_loop 8 s [] None) v6_finish))"

definition parseIPv6 :: "string \<Rightarrow> Addr option" where
  "parseIPv6 s = (case IndexByte s (CHR ''%'') of
      None \<Rightarrow> parseIPv6_body s []
    | Some i \<Rightarrow> if drop (Suc i) s = [] then None
        else parseIPv6_body (take i s) (drop (Suc i) s))"

fun first_separator :: "string \<Rightarrow> char option" where
  "first_separator [] = None"
| "first_separator (c # cs) =
     (if c = CHR ''.'' \<or> c = CHR '':'' \<or> c = CHR ''%'' then Some c else first_separator cs)"

definition ParseAddr :: "string \<Rightarrow> Addr option" where
  "ParseAddr s =
     (if first_separator s = Some (CHR ''.'') then parseIPv4 s
      else if first_separator s = Some (CHR '':'') then parseIPv6 s
      else None)"

text \<open>\<^verbatim>\<open>ParseAddrPort\<close>; the program only uses the address of the result.\<close>

definition ParseAddrPort :: "string \<Rightarrow> (Addr \<times> nat) option" where
  "ParseAddrPort s = (case LastIndexByte s (CHR '':'') of
      None \<Rightarrow> None
    | Some i \<Rightarrow>
      let ip = take i s; port = drop (Suc i) s in
      if ip = [] \<or> port = [] then None
      else if hd ip = CHR ''['' \<and> (length ip < 2 \<or> last ip \<noteq> CHR '']'') then None
      else
        let v6 = (hd ip = CHR ''[''); ip' = (if v6 then butlast (tl ip) else ip) in
        case ParseUint port 10 16 of
          None \<Rightarrow> None
        | Some p \<Rightarrow>
          (case ParseAddr ip' of
             None \<Rightarrow> None
           | Some a \<Rightarrow> if v6 \<and> Is4 a \<or> \<not> v6 \<and> Is6 a then None else Some (a, p)))"

section \<open>Prefixes\<close>

datatype Prefix = Prefix (Prefix_Addr: Addr) (Prefix_Bits: nat)

definition Prefix_IsValid :: "Prefix \<Rightarrow> bool" where
  "Prefix_IsValid p \<longleftrightarrow> IsValid (Prefix_Addr p) \<and> Prefix_Bits p \<le> BitLen (Prefix_Addr p)"

fun Contains :: "Prefix \<Rightarrow> Addr \<Rightarrow> bool" where
  "Contains (Prefix (Addr4 x) b) (Addr4 y) = (b \<le> 32 \<and> drop_bit (32 - b) (x XOR y) = 0)"
| "Contains (Prefix (Addr6 x zx) b) (Addr6 y z) =
     (b \<le> 128 \<and> z = [] \<and> (x XOR y) AND NOT (mask (128 - b)) = 0)"
| "Contains _ _ = False"

fun Masked :: "Prefix \<Rightarrow> Prefix" where
  "Masked (Prefix (Addr4 x) b) = Prefix (Addr4 (x AND NOT (mask (32 - b)))) b"
| "Masked (Prefix (Addr6 x z) b) = Prefix (Addr6 (x AND NOT (mask (128 - b))) []) b"
| "Masked p = p"

text \<open>\<^verbatim>\<open>netip.ParsePrefix\<close>: no zone, and a prefix length without sign or leading zero.\<close>

definition netip_ParsePrefix :: "string \<Rightarrow> Prefix option" where
  "netip_ParsePrefix s = (case LastIndexByte s (CHR ''/'') of
      None \<Rightarrow> None
    | Some i \<Rightarrow>
      (case ParseAddr (take i s) of
         None \<Rightarrow> None
       | Some a \<Rightarrow>
         let bitsStr = drop (Suc i) s in
         if Zone a \<noteq> [] then None
         else if 1 < length bitsStr \<and> \<not> (49 \<le> byte_of (hd bitsStr) \<and> byte_of (hd bitsStr) \<le> 57) then None
         else case ParseUint bitsStr 10 63 of
             None \<Rightarrow> None
           | Some b \<Rightarrow> if BitLen a < b then None else Some (Prefix a b)))"

lemma v6_loop_numeral [eval_simps]: "v6_loop (numeral k) = v6_loop (Suc (pred_numeral k))"
  by (simp add: numeral_eq_Suc)

lemmas netip_eval [eval_simps] =
  ParseAddr_def ParseAddrPort_def parseIPv4_def parseIPv6_def parseIPv6_body_def v6_finish_def
  be_value_def hex_value_def netip_ParsePrefix_def ParseUint_def

section \<open>Meaning\<close>

lemma xor_zero_iff: "x XOR y = 0 \<longleftrightarrow> x = y" for x y :: "'a::len word"
  by (metis xor.assoc xor.left_neutral xor_self_eq)

lemma drop_bit_xor_zero:
  "drop_bit n (x XOR y) = 0 \<longleftrightarrow> unat x div 2 ^ n = unat y div 2 ^ n" for x y :: "'a::len word"
proof -
  have "drop_bit n (x XOR y) = 0 \<longleftrightarrow> drop_bit n x = drop_bit n y"
    by (simp add: xor_zero_iff)
  also have "\<dots> \<longleftrightarrow> unat (drop_bit n x) = unat (drop_bit n y)"
    by (simp add: word_unat_eq_iff)
  finally show ?thesis
    by (simp add: unsigned_drop_bit_eq drop_bit_eq_div [where ?'a = nat]
        take_bit_nat_eq_self unsigned_less del: drop_bit_xor)
qed

lemma and_not_mask_zero: "x AND NOT (mask n) = 0 \<longleftrightarrow> drop_bit n x = 0" for x :: "'a::len word"
proof
  assume *: "x AND NOT (mask n) = 0"
  show "drop_bit n x = 0"
  proof (rule bit_word_eqI)
    fix m
    have "\<not> bit (x AND NOT (mask n)) (n + m)" by (simp add: *)
    then show "bit (drop_bit n x) m = bit 0 m"
      using bit_imp_le_length [of x "n + m"] by (auto simp: bit_simps)
  qed
next
  assume "drop_bit n x = 0"
  moreover have "x AND NOT (mask n) = push_bit n (drop_bit n x)"
    by (rule bit_word_eqI) (auto simp: bit_simps)
  ultimately show "x AND NOT (mask n) = 0" by simp
qed

text \<open>
  A network contains an address exactly when both are of the same family, the address has no
  zone, and they agree in the leading bits.
\<close>

definition leading :: "nat \<Rightarrow> 'a::len word \<Rightarrow> nat" where
  "leading b x = unat x div 2 ^ (LENGTH('a) - b)"

lemma Contains_Addr4: "Contains (Prefix (Addr4 x) b) (Addr4 y) \<longleftrightarrow> b \<le> 32 \<and> leading b x = leading b y"
  by (simp add: leading_def drop_bit_xor_zero del: drop_bit_xor)

lemma Contains_Addr6:
  "Contains (Prefix (Addr6 x zx) b) (Addr6 y z) \<longleftrightarrow> b \<le> 128 \<and> z = [] \<and> leading b x = leading b y"
  by (simp add: leading_def and_not_mask_zero drop_bit_xor_zero del: drop_bit_xor)

lemma Contains_zone: "Contains p a \<Longrightarrow> Zone a = []"
  by (cases "(p, a)" rule: Contains.cases) auto

lemma Contains_valid: "Contains p a \<Longrightarrow> Prefix_IsValid p \<and> IsValid a"
  by (cases "(p, a)" rule: Contains.cases) (auto simp: Prefix_IsValid_def IsValid_def)

lemma Contains_zero [simp]: "\<not> Contains p ZeroAddr"
  by (cases "(p, ZeroAddr)" rule: Contains.cases) auto

lemma Masked_Contains: "Contains (Masked p) a = Contains p a"
proof (cases "(p, a)" rule: Contains.cases)
  case (1 x b y)
  have "drop_bit (32 - b) (x AND NOT (mask (32 - b))) = drop_bit (32 - b) x"
    by (rule bit_word_eqI) (auto simp: bit_simps dest: bit_imp_le_length)
  with 1 show ?thesis by (simp add: drop_bit_xor)
next
  case (2 x zx b y z)
  have "((x AND NOT (mask (128 - b))) XOR y) AND NOT (mask (128 - b))
      = (x XOR y) AND NOT (mask (128 - b))"
    by (rule bit_word_eqI) (auto simp: bit_simps)
  with 2 show ?thesis by simp
qed auto

lemma Unmap_Zone_Is4: "Is4In6 a \<Longrightarrow> Is4 (Unmap a)"
  by (cases a) auto

lemma Unmap_not_4In6 [simp]: "\<not> Is4In6 (Unmap a)"
  by (cases a) auto

lemma WithZone_4In6 [simp]: "Is4In6 (WithZone a z) = Is4In6 a"
  by (cases a) auto

lemma Zone_WithZone_Nil [simp]: "Zone (WithZone a []) = []"
  by (cases a) auto

lemma Unmap_WithZone_idem [simp]:
  "WithZone (Unmap (WithZone (Unmap a) [])) [] = WithZone (Unmap a) []"
  by (cases a) auto

lemma netip_ParsePrefix_valid: "netip_ParsePrefix s = Some p \<Longrightarrow> Prefix_Bits p \<le> BitLen (Prefix_Addr p) \<and> Zone (Prefix_Addr p) = []"
  by (auto simp: netip_ParsePrefix_def Let_def split: option.splits if_splits)

lemma and_not_mask_push: "x AND NOT (mask n) = push_bit n (drop_bit n x)" for x :: "'a::len word"
  by (rule bit_word_eqI) (auto simp: bit_simps)

lemma and_not_mask_eq:
  "(x XOR y) AND NOT (mask n) = 0 \<Longrightarrow> x AND NOT (mask n) = y AND NOT (mask n)" for x y :: "'a::len word"
  by (simp add: and_not_mask_zero and_not_mask_push xor_zero_iff)

text \<open>The network of an address it contains is the network itself, with the host bits cleared.\<close>

lemma Contains_Masked: "Contains p a \<Longrightarrow> Masked (Prefix a (Prefix_Bits p)) = Masked p"
proof (cases "(p, a)" rule: Contains.cases)
  case (1 x b y)
  assume "Contains p a"
  with 1 have "(x XOR y) AND NOT (mask (32 - b)) = 0" by (simp only: and_not_mask_zero Contains.simps prod.inject)
  from and_not_mask_eq [OF this] 1 show ?thesis by simp
next
  case (2 x zx b y z)
  assume "Contains p a"
  with 2 have "(x XOR y) AND NOT (mask (128 - b)) = 0" by (simp only: Contains.simps prod.inject)
  from and_not_mask_eq [OF this] 2 show ?thesis by simp
qed simp_all

lemma Contains_self: "Contains p a \<Longrightarrow> Zone (Prefix_Addr p) = [] \<Longrightarrow> Contains p (Prefix_Addr p)"
  by (cases "(p, a)" rule: Contains.cases) simp_all

end
