(* ===== verification/Exposure.thy ===== *)
theory Exposure
  imports Go_Netip
begin

text \<open>
  \<^verbatim>\<open>gateway/internal/exposure\<close>: references to Secrets and their order, exposures with
  their allow-list, the set of Secrets a configuration needs, name validation and strict CIDR
  parsing.

  The checks of \<^verbatim>\<open>k8s.io/apimachinery/pkg/util/validation\<close> are a parameter, the record
  \<open>k8s_validation\<close>; each returns the list of problems, empty when the value is valid. The
  locale \<open>k8s_names\<close> states what the Kubernetes documentation says of the values they accept:
  RFC 1123 subdomains and labels, and keys of ConfigMaps and Secrets.
\<close>

section \<open>Secret references\<close>

datatype SecretRef = SecretRef (Namespace: string) (Name: string)

definition SecretRef_String :: "SecretRef \<Rightarrow> string" where
  "SecretRef_String r = Namespace r @ ''/'' @ Name r"

text \<open>\<^verbatim>\<open>cmp.Compare\<close> on strings and \<^verbatim>\<open>cmp.Or\<close> on two integers.\<close>

definition cmp_Compare :: "string \<Rightarrow> string \<Rightarrow> int" where
  "cmp_Compare a b = (if a < b then -1 else if b < a then 1 else 0)"

definition cmp_Or :: "int \<Rightarrow> int \<Rightarrow> int" where
  "cmp_Or a b = (if a \<noteq> 0 then a else b)"

definition Compare :: "SecretRef \<Rightarrow> SecretRef \<Rightarrow> int" where
  "Compare r x = cmp_Or (cmp_Compare (Namespace r) (Namespace x)) (cmp_Compare (Name r) (Name x))"

instantiation SecretRef :: linorder
begin

definition less_eq_SecretRef :: "SecretRef \<Rightarrow> SecretRef \<Rightarrow> bool" where
  "less_eq_SecretRef a b \<longleftrightarrow> Compare a b \<le> 0"

definition less_SecretRef :: "SecretRef \<Rightarrow> SecretRef \<Rightarrow> bool" where
  "less_SecretRef a b \<longleftrightarrow> Compare a b < 0"

instance
proof
  fix x y z :: SecretRef
  show "x < y \<longleftrightarrow> x \<le> y \<and> \<not> y \<le> x"
    by (auto simp: less_eq_SecretRef_def less_SecretRef_def Compare_def cmp_Compare_def cmp_Or_def)
  show "x \<le> x"
    by (simp add: less_eq_SecretRef_def Compare_def cmp_Compare_def cmp_Or_def)
  show "x \<le> z" if "x \<le> y" "y \<le> z"
    using that
    by (auto simp: less_eq_SecretRef_def Compare_def cmp_Compare_def cmp_Or_def split: if_splits)
  show "x = y" if "x \<le> y" "y \<le> x"
    using that
    by (auto simp: less_eq_SecretRef_def Compare_def cmp_Compare_def cmp_Or_def split: if_splits
        intro: SecretRef.expand)
  show "x \<le> y \<or> y \<le> x"
    by (auto simp: less_eq_SecretRef_def Compare_def cmp_Compare_def cmp_Or_def)
qed

end

section \<open>Exposures\<close>

datatype Auth = Auth (Auth_SecretRef: SecretRef)

record Exposure =
  exp_Name :: string
  exp_Source :: SecretRef
  exp_AllowedCIDRs :: "Prefix list"
  exp_Auth :: Auth
  exp_Keys :: "string list"

definition AllowsClient :: "Exposure \<Rightarrow> Addr \<Rightarrow> bool" where
  "AllowsClient e addr = list_ex (\<lambda>p. Contains p (WithZone (Unmap addr) [])) (exp_AllowedCIDRs e)"

text \<open>The loop of \<^verbatim>\<open>ReferencedSecrets\<close>; \<^verbatim>\<open>seen\<close> holds exactly the elements of \<^verbatim>\<open>refs\<close>.\<close>

definition add_ref :: "SecretRef \<Rightarrow> SecretRef list \<Rightarrow> SecretRef list" where
  "add_ref ref refs = (if ref \<in> set refs then refs else refs @ [ref])"

fun collect_refs :: "Exposure list \<Rightarrow> SecretRef list \<Rightarrow> SecretRef list" where
  "collect_refs [] refs = refs"
| "collect_refs (e # es) refs =
     collect_refs es (add_ref (Auth_SecretRef (exp_Auth e)) (add_ref (exp_Source e) refs))"

definition ReferencedSecrets :: "Exposure list \<Rightarrow> SecretRef list" where
  "ReferencedSecrets es = sort (collect_refs es [])"

section \<open>Validation\<close>

record k8s_validation =
  IsDNS1123Subdomain :: "string \<Rightarrow> string list"
  IsDNS1123Label :: "string \<Rightarrow> string list"
  IsConfigMapKey :: "string \<Rightarrow> string list"

definition validationErr :: "string list \<Rightarrow> string option" where
  "validationErr problems = (if problems = [] then None else Some (Join problems ''; ''))"

definition ValidateName :: "k8s_validation \<Rightarrow> string \<Rightarrow> string option" where
  "ValidateName V name = validationErr (IsDNS1123Subdomain V name)"

definition ValidateSecretName :: "k8s_validation \<Rightarrow> string \<Rightarrow> string option" where
  "ValidateSecretName V name = validationErr (IsDNS1123Subdomain V name)"

definition ValidateNamespace :: "k8s_validation \<Rightarrow> string \<Rightarrow> string option" where
  "ValidateNamespace V namespace = validationErr (IsDNS1123Label V namespace)"

definition ValidateKey :: "k8s_validation \<Rightarrow> string \<Rightarrow> string option" where
  "ValidateKey V key = validationErr (IsConfigMapKey V key)"

definition label_char :: "char \<Rightarrow> bool" where
  "label_char c \<longleftrightarrow> is_lower c \<or> is_digit c \<or> c = CHR ''-''"

definition subdomain_char :: "char \<Rightarrow> bool" where
  "subdomain_char c \<longleftrightarrow> label_char c \<or> c = CHR ''.''"

definition key_char :: "char \<Rightarrow> bool" where
  "key_char c \<longleftrightarrow> subdomain_char c \<or> is_upper c \<or> c = CHR ''_''"

section \<open>Strict CIDR parsing\<close>

datatype prefix_error =
    InvalidCIDR string
  | NotIPv4Notation string
  | HostBitsSet string Prefix

definition ParsePrefix :: "string \<Rightarrow> prefix_error + Prefix" where
  "ParsePrefix s = (case netip_ParsePrefix s of
      None \<Rightarrow> Inl (InvalidCIDR s)
    | Some p \<Rightarrow>
      if Is4In6 (Prefix_Addr p) then Inl (NotIPv4Notation s)
      else if Masked p \<noteq> p then Inl (HostBitsSet s (Masked p))
      else Inr p)"

section \<open>Laws\<close>

lemma SecretRef_le_iff:
  "a \<le> b \<longleftrightarrow> Namespace a < Namespace b \<or> Namespace a = Namespace b \<and> Name a \<le> Name b"
  by (auto simp: less_eq_SecretRef_def Compare_def cmp_Compare_def cmp_Or_def)

lemma set_add_ref [simp]: "set (add_ref r refs) = insert r (set refs)"
  by (auto simp: add_ref_def)

lemma distinct_add_ref [simp]: "distinct (add_ref r refs) = distinct refs"
  by (auto simp: add_ref_def)

lemma set_collect_refs:
  "set (collect_refs es refs) =
     set refs \<union> exp_Source ` set es \<union> (Auth_SecretRef \<circ> exp_Auth) ` set es"
  by (induction es arbitrary: refs) auto

lemma distinct_collect_refs: "distinct refs \<Longrightarrow> distinct (collect_refs es refs)"
  by (induction es arbitrary: refs) auto

lemma validationErr_None [simp]: "validationErr ps = None \<longleftrightarrow> ps = []"
  by (simp add: validationErr_def)

locale k8s_names =
  fixes V :: k8s_validation
  assumes subdomain: "IsDNS1123Subdomain V s = [] \<Longrightarrow> s \<noteq> [] \<and> length s \<le> 253 \<and> list_all subdomain_char s"
    and label: "IsDNS1123Label V s = [] \<Longrightarrow> s \<noteq> [] \<and> length s \<le> 63 \<and> list_all label_char s"
    and config_key: "IsConfigMapKey V s = [] \<Longrightarrow> s \<noteq> [] \<and> list_all key_char s"
begin

lemma valid_name_chars: "ValidateName V s = None \<Longrightarrow> c \<in> set s \<Longrightarrow> subdomain_char c"
  using subdomain [of s] by (auto simp: ValidateName_def list_all_iff)

lemma valid_name_nonempty: "ValidateName V s = None \<Longrightarrow> s \<noteq> []"
  using subdomain [of s] by (auto simp: ValidateName_def)

lemma valid_key_chars: "ValidateKey V s = None \<Longrightarrow> c \<in> set s \<Longrightarrow> key_char c"
  using config_key [of s] by (auto simp: ValidateKey_def list_all_iff)

lemma valid_key_nonempty: "ValidateKey V s = None \<Longrightarrow> s \<noteq> []"
  using config_key [of s] by (auto simp: ValidateKey_def)

end

lemma key_char_visible: "key_char c \<Longrightarrow> visible c"
  by (auto simp: key_char_def subdomain_char_def label_char_def visible_def is_lower_def
      is_upper_def is_digit_def)

lemma key_char_plain:
  "key_char c \<Longrightarrow> c \<noteq> CHR 0x22 \<and> c \<noteq> CHR 0x5C \<and> c \<noteq> CHR ''/'' \<and> c \<noteq> CHR ''%''"
  by (auto simp: key_char_def subdomain_char_def label_char_def is_lower_def is_upper_def
      is_digit_def)

lemma subdomain_char_plain:
  "subdomain_char c \<Longrightarrow> c \<noteq> CHR ''/'' \<and> c \<noteq> CHR ''%'' \<and> c \<noteq> CHR ''_'' \<and> c \<noteq> CHR ''?''"
  by (auto simp: subdomain_char_def label_char_def is_lower_def is_digit_def)

section \<open>Properties\<close>

text \<open>Checks by alphabet alone, for examples.\<close>

definition ex_V :: k8s_validation where
  "ex_V = \<lparr>IsDNS1123Subdomain = (\<lambda>s. if list_all subdomain_char s \<and> s \<noteq> [] then [] else [''invalid'']),
     IsDNS1123Label = (\<lambda>s. if list_all label_char s \<and> s \<noteq> [] then [] else [''invalid'']),
     IsConfigMapKey = (\<lambda>s. if list_all key_char s \<and> s \<noteq> [] then [] else [''invalid''])\<rparr>"

text \<open>
  \<^verbatim>\<open>ReferencedSecrets\<close> returns exactly the source and the authentication Secrets of the
  exposures, each once, ordered by namespace and then name.
\<close>

theorem ReferencedSecrets_spec:
  "set (ReferencedSecrets es) =
     exp_Source ` set es \<union> (Auth_SecretRef \<circ> exp_Auth) ` set es
   \<and> sorted (ReferencedSecrets es) \<and> distinct (ReferencedSecrets es)"
  by (simp add: ReferencedSecrets_def set_collect_refs distinct_collect_refs)

text \<open>
  Strict CIDR parsing. An accepted text denotes a network in its canonical form: the network
  contains its own address, and two accepted networks of the same length that share an address
  are the same value. So no host bits are set, and an IPv4 network cannot hide behind IPv6
  notation, which no unmapped client address would ever match.
\<close>

theorem ParsePrefix_canonical:
  assumes "ParsePrefix s = Inr p" and "ParsePrefix t = Inr q"
    and "Prefix_Bits p = Prefix_Bits q" and "Contains p a" and "Contains q a"
  shows "p = q \<and> \<not> Is4In6 (Prefix_Addr p) \<and> Contains p (Prefix_Addr p)"
proof -
  have p: "Masked p = p" "\<not> Is4In6 (Prefix_Addr p)" and q: "Masked q = q"
    using assms(1,2) by (auto simp: ParsePrefix_def split: option.splits if_splits)
  have "netip_ParsePrefix s = Some p"
    using assms(1) by (auto simp: ParsePrefix_def split: option.splits if_splits)
  then have "Contains p (Prefix_Addr p)"
    by (intro Contains_self [OF assms(4)]) (simp add: netip_ParsePrefix_valid)
  moreover have "Masked p = Masked q"
    using Contains_Masked [OF assms(4), symmetric, unfolded assms(3)] Contains_Masked [OF assms(5)]
    by (rule trans)
  then have "p = q" unfolding p(1) q .
  ultimately show ?thesis using p by simp
qed

theorem ParsePrefix_canonical_witness:
  "ParsePrefix ''10.0.0.0/8'' = Inr (Prefix (Addr4 0x0A000000) 8)
   \<and> \<not> Is4In6 (Prefix_Addr (Prefix (Addr4 0x0A000000) 8))"
proof -
  have e: "ParsePrefix ''10.0.0.0/8'' = Inr (Prefix (Addr4 0x0A000000) 8)"
    by (simp add: ParsePrefix_def eval_simps mask_eq_exp_minus_1)
  with ParsePrefix_canonical [OF e e refl, of "Addr4 0x0A010203"] show ?thesis by simp
qed

end
