(* ===== verification/Go_Parse.thy ===== *)
theory Go_Parse
  imports Go_Strings "HOL-Library.Log_Nat"
begin

text \<open>
  Two parsers of Go's standard library that the configuration uses: \<^verbatim>\<open>net.SplitHostPort\<close> and
  \<^verbatim>\<open>time.ParseDuration\<close>. Fractions of a duration go through \<^verbatim>\<open>float64\<close>: \<open>fl\<close> is
  rounding to the nearest float, ties to even, of a positive fraction, as a multiple of the fixed
  small unit \<open>1 / 2 ^ 200\<close>; no value that occurs here is subnormal or overflows.
\<close>

section \<open>Host and port\<close>

definition SplitHostPort :: "string \<Rightarrow> (string \<times> string) option" where
  "SplitHostPort hostport = (case LastIndexByte hostport (CHR '':'') of
      None \<Rightarrow> None
    | Some i \<Rightarrow>
      let bracketed = (hostport ! 0 = CHR ''['') in
      case (if bracketed then
              (case IndexByte hostport (CHR '']'') of
                 None \<Rightarrow> None
               | Some e \<Rightarrow> if e + 1 = length hostport then None
                   else if e + 1 = i then Some (take (e - 1) (drop 1 hostport), 1, e + 1) else None)
            else if CHR '':'' \<in> set (take i hostport) then None
            else Some (take i hostport, 0, 0)) of
        None \<Rightarrow> None
      | Some (host, j, k) \<Rightarrow>
        if CHR ''['' \<in> set (drop j hostport) \<or> CHR '']'' \<in> set (drop k hostport) then None
        else Some (host, drop (i + 1) hostport))"

section \<open>Durations\<close>

definition float_unit :: nat where
  "float_unit = 2 ^ 200"

definition half_even :: "nat \<Rightarrow> nat \<Rightarrow> nat" where
  "half_even a b = (let q = a div b; r = a mod b
     in if 2 * r < b then q else if b < 2 * r then q + 1 else q + q mod 2)"

definition fl :: "nat \<Rightarrow> nat \<Rightarrow> nat" where
  "fl a b = (if a = 0 then 0
     else let ulp = 2 ^ (floorlog 2 (a * float_unit div b) - 53)
          in half_even (a * float_unit) (b * ulp) * ulp)"

text \<open>\<^verbatim>\<open>uint64(float64(f) * (float64(unit) / scale))\<close>.\<close>

definition fraction_value :: "nat \<Rightarrow> nat \<Rightarrow> nat \<Rightarrow> nat" where
  "fraction_value f scale unit =
     fl (fl f 1 * fl unit scale) (float_unit * float_unit) div float_unit"

fun leadingInt :: "nat \<Rightarrow> string \<Rightarrow> (nat \<times> string) option" where
  "leadingInt x [] = Some (x, [])"
| "leadingInt x (c # cs) =
     (if \<not> is_digit c then Some (x, c # cs)
      else if 2 ^ 63 div 10 < x then None
      else let y = x * 10 + (byte_of c - 48)
           in if 2 ^ 63 < y then None else leadingInt y cs)"

fun leadingFraction :: "bool \<Rightarrow> nat \<Rightarrow> nat \<Rightarrow> string \<Rightarrow> nat \<times> nat \<times> string" where
  "leadingFraction overflow x scale [] = (x, scale, [])"
| "leadingFraction overflow x scale (c # cs) =
     (if \<not> is_digit c then (x, scale, c # cs)
      else if overflow \<or> (2 ^ 63 - 1) div 10 < x then leadingFraction True x scale cs
      else let y = x * 10 + (byte_of c - 48)
           in if 2 ^ 63 < y then leadingFraction True x scale cs
              else leadingFraction False y (scale * 10) cs)"

definition unitMap :: "string \<Rightarrow> nat option" where
  "unitMap u =
     (if u = ''ns'' then Some 1
      else if u = ''us'' \<or> u = [CHR 0xC2, CHR 0xB5, CHR ''s''] \<or> u = [CHR 0xCE, CHR 0xBC, CHR ''s''] then Some 1000
      else if u = ''ms'' then Some 1000000
      else if u = ''s'' then Some 1000000000
      else if u = ''m'' then Some 60000000000
      else if u = ''h'' then Some 3600000000000
      else None)"

definition unit_char :: "char \<Rightarrow> bool" where
  "unit_char c \<longleftrightarrow> c \<noteq> CHR ''.'' \<and> \<not> is_digit c"

text \<open>One term of a duration, such as \<^verbatim>\<open>1.5h\<close>: its value in nanoseconds and the rest.\<close>

definition duration_term :: "string \<Rightarrow> (nat \<times> string) option" where
  "duration_term s =
     (if \<not> (hd s = CHR ''.'' \<or> is_digit (hd s)) then None
      else case leadingInt 0 s of
          None \<Rightarrow> None
        | Some (v, s1) \<Rightarrow>
          let pre = (length s1 \<noteq> length s);
              dot = (s1 \<noteq> [] \<and> hd s1 = CHR ''.'') in
          case (if dot then leadingFraction False 0 1 (tl s1) else (0, 1, s1)) of (f, scale, s2) \<Rightarrow>
            let post = (dot \<and> length s2 \<noteq> length (tl s1));
                u = takeWhile unit_char s2;
                rest = dropWhile unit_char s2 in
            if \<not> pre \<and> \<not> post then None
            else if u = [] then None
            else case unitMap u of
                None \<Rightarrow> None
              | Some unit \<Rightarrow>
                if 2 ^ 63 div unit < v then None
                else let v' = v * unit + (if 0 < f then fraction_value f scale unit else 0)
                     in if 2 ^ 63 < v' then None else Some (v', rest))"

text \<open>The loop; every term is shorter than what is left, so the length of the text is enough fuel.\<close>

fun duration_terms :: "nat \<Rightarrow> nat \<Rightarrow> string \<Rightarrow> nat option" where
  "duration_terms n d [] = Some d"
| "duration_terms 0 d (c # cs) = None"
| "duration_terms (Suc n) d (c # cs) = (case duration_term (c # cs) of
      None \<Rightarrow> None
    | Some (v, rest) \<Rightarrow>
      let d' = (d + v) mod 2 ^ 64
      in if 2 ^ 63 < d' then None else duration_terms n d' rest)"

definition ParseDuration :: "string \<Rightarrow> duration option" where
  "ParseDuration s =
     (let signed = (s \<noteq> [] \<and> (hd s = CHR ''-'' \<or> hd s = CHR ''+''));
          neg = (signed \<and> hd s = CHR ''-'');
          t = (if signed then tl s else s) in
      if t = ''0'' then Some 0
      else if t = [] then None
      else case duration_terms (length t) 0 t of
          None \<Rightarrow> None
        | Some d \<Rightarrow> if neg then Some (- int d)
            else if 2 ^ 63 - 1 < d then None else Some (int d))"

section \<open>Laws\<close>

lemma leadingInt_length: "leadingInt x s = Some (v, rest) \<Longrightarrow> length rest \<le> length s"
  by (induction x s rule: leadingInt.induct) (auto simp: Let_def split: if_splits)

lemma leadingFraction_length:
  "leadingFraction ov x sc s = (f, sc', rest) \<Longrightarrow> length rest \<le> length s"
proof (induction s arbitrary: ov x sc)
  case (Cons c cs)
  then show ?case by (auto simp: Let_def split: if_splits intro: le_SucI)
qed simp

lemma duration_term_shorter:
  assumes "duration_term s = Some (v, rest)"
  shows "length rest < length s"
proof -
  obtain v0 s1 where l: "leadingInt 0 s = Some (v0, s1)"
    using assms by (auto simp: duration_term_def split: option.splits if_splits)
  define dot where "dot = (s1 \<noteq> [] \<and> hd s1 = CHR ''.'')"
  obtain f scale s2 where fr: "(if dot then leadingFraction False 0 1 (tl s1) else (0, 1, s1)) = (f, scale, s2)"
    by (metis prod_cases3)
  have len: "length s2 \<le> length s"
    using leadingInt_length [OF l] fr leadingFraction_length [of False 0 1 "tl s1" f scale s2]
    by (cases dot) (auto simp: dot_def)
  from assms have t: "takeWhile unit_char s2 \<noteq> []" "rest = dropWhile unit_char s2"
    by (auto simp: duration_term_def l fr [unfolded dot_def] Let_def split: option.splits if_splits)
  have "length s2 = length (takeWhile unit_char s2) + length rest"
    unfolding t(2) by (metis length_append takeWhile_dropWhile_id)
  with t(1) len show ?thesis by (cases "takeWhile unit_char s2") auto
qed

text \<open>The fuel is enough: more of it changes nothing.\<close>

lemma duration_terms_fuel:
  "length s \<le> n \<Longrightarrow> duration_terms (n + k) d s = duration_terms n d s"
proof (induction n arbitrary: d s)
  case 0
  then show ?case by (cases k) simp_all
next
  case (Suc n)
  show ?case
  proof (cases s)
    case (Cons c cs)
    have "length rest \<le> n" if "duration_term (c # cs) = Some (v, rest)" for v rest
      using duration_term_shorter [OF that] Suc.prems Cons by simp
    with Suc.IH show ?thesis unfolding Cons by (simp add: Let_def split: option.split)
  qed simp
qed

lemma duration_terms_bound:
  "duration_terms n a t = Some x \<Longrightarrow> a \<le> 2 ^ 63 \<Longrightarrow> x \<le> 2 ^ 63"
proof (induction n a t rule: duration_terms.induct)
  case (3 n d c cs)
  obtain v rest where t: "duration_term (c # cs) = Some (v, rest)"
    using "3.prems"(1) by (cases "duration_term (c # cs)") auto
  define d' where "d' = (d + v) mod 2 ^ 64"
  have "\<not> 2 ^ 63 < d'" "duration_terms n d' rest = Some x"
    using "3.prems"(1) unfolding duration_terms.simps t option.case prod.case Let_def d'_def [symmetric]
    by (metis option.distinct(1), metis option.distinct(1))
  then show ?case using "3.IH" [OF t refl d'_def] by linarith
qed simp_all

lemma ParseDuration_bounds:
  assumes "ParseDuration s = Some d"
  shows "- (2 ^ 63) \<le> d \<and> d < 2 ^ 63"
proof (cases "d = 0")
  case False
  then obtain n t x where x: "duration_terms n 0 t = Some x" and d: "d = - int x \<or> d = int x \<and> x \<le> 2 ^ 63 - 1"
    using assms by (auto simp: ParseDuration_def Let_def split: option.splits if_splits)
  from duration_terms_bound [OF x] d show ?thesis by auto
qed simp

lemma ParseDuration_examples:
  "ParseDuration ''5m'' = Some (5 * minute)" "ParseDuration ''1h30m'' = Some (90 * minute)"
  "ParseDuration ''10'' = None" "ParseDuration ''-90s'' = Some (- 90 * second)"
  by (simp_all add: ParseDuration_def duration_term_def unitMap_def unit_char_def
      minute_def second_def eval_simps Let_def)

end
