(* ===== verification/Gateway_Config.thy ===== *)
theory Gateway_Config
  imports Exposure Go_Parse
begin

text \<open>
  \<^verbatim>\<open>gateway/internal/config/config.go\<close>: validation of the configuration document and its
  conversion into the exposure model. The YAML decoder is a parameter: a decoder is the result of
  its first and of its second call on the input. A problem is the path it is reported for and what
  is wrong, with the arguments of the message; every validating function returns the problems it
  adds, in the order in which it adds them, with its value.
\<close>

section \<open>Data\<close>

definition DefaultListenAddress :: string where
  "DefaultListenAddress = '':8080''"

definition DefaultMetricsListenAddress :: string where
  "DefaultMetricsListenAddress = '':8081''"

definition DefaultReconcileInterval :: duration where
  "DefaultReconcileInterval = 5 * minute"

definition MinReconcileInterval :: duration where
  "MinReconcileInterval = 10 * second"

definition MaxReconcileInterval :: duration where
  "MaxReconcileInterval = 24 * hour"

record TLS =
  CertFile :: string
  KeyFile :: string

record Server_config =
  srv_ListenAddress :: string
  srv_TLS :: "TLS option"
  srv_TrustedProxies :: "Prefix list"

record Metrics_config =
  met_ListenAddress :: string
  met_TLS :: "TLS option"
  met_Auth :: "Auth option"

record Config =
  cfg_Server :: Server_config
  cfg_Metrics :: Metrics_config
  cfg_ReconcileInterval :: duration
  cfg_Exposures :: "Exposure list"

record secretRef =
  sr_Namespace :: string
  sr_Name :: string

record exposureSection =
  es_Name :: string
  es_SecretRef :: secretRef
  es_AllowedCIDRs :: "string list"
  es_Auth :: "secretRef option"
  es_Keys :: "string list"

record document =
  d_ListenAddress :: "string option"
  d_TLS :: "TLS option"
  d_TrustedProxies :: "string list"
  d_MetricsListenAddress :: "string option"
  d_MetricsTLS :: "TLS option"
  d_MetricsAuth :: "secretRef option"
  d_DefaultNamespace :: string
  d_ReconcileInterval :: "string option"
  d_Exposures :: "exposureSection list"

datatype listen_error = EmptyAddress | BadAddress string | BadPort string string

datatype interval_error = BadDuration string | OutOfRange duration

datatype problem_kind =
    InvalidNamespace string string
  | NamespaceNotSet
  | Required
  | InvalidName string string
  | CIDRRequired
  | BadCIDR prefix_error
  | DuplicateCIDR nat Prefix
  | KeyRequired
  | InvalidKey string string
  | DuplicateKey nat string
  | BadListenAddress listen_error
  | SamePort string string
  | BadInterval interval_error
  | NoExposures
  | DuplicateName string nat

type_synonym problem = "string \<times> problem_kind"

section \<open>Single values\<close>

definition validateListenAddress :: "string \<Rightarrow> listen_error option" where
  "validateListenAddress addr =
     (if addr = [] then Some EmptyAddress
      else case SplitHostPort addr of
          None \<Rightarrow> Some (BadAddress addr)
        | Some (host, port) \<Rightarrow> (case ParseUint port 10 16 of
            None \<Rightarrow> Some (BadPort port addr)
          | Some n \<Rightarrow> if n = 0 then Some (BadPort port addr) else None))"

definition isWildcardHost :: "string \<Rightarrow> bool" where
  "isWildcardHost host \<longleftrightarrow> host = [] \<or> (case ParseAddr host of None \<Rightarrow> False | Some ip \<Rightarrow> IsUnspecified ip)"

definition listenersConflict :: "string \<Rightarrow> string \<Rightarrow> bool" where
  "listenersConflict a b = (case (SplitHostPort a, SplitHostPort b) of
      (Some (hostA, portA), Some (hostB, portB)) \<Rightarrow>
        portA = portB \<and> (hostA = hostB \<or> isWildcardHost hostA \<or> isWildcardHost hostB)
    | _ \<Rightarrow> False)"

definition parseReconcileInterval :: "string \<Rightarrow> interval_error + duration" where
  "parseReconcileInterval s = (case ParseDuration s of
      None \<Rightarrow> Inl (BadDuration s)
    | Some d \<Rightarrow> if d < MinReconcileInterval \<or> MaxReconcileInterval < d then Inl (OutOfRange d) else Inr d)"

section \<open>The validator\<close>

definition index_path :: "string \<Rightarrow> nat \<Rightarrow> string" where
  "index_path path i = path @ ''['' @ Itoa i @ '']''"

definition v_listenAddress :: "string \<Rightarrow> string option \<Rightarrow> string \<Rightarrow> problem list \<times> string" where
  "v_listenAddress path value def = (case value of
      None \<Rightarrow> ([], def)
    | Some a \<Rightarrow> ((case validateListenAddress a of None \<Rightarrow> [] | Some e \<Rightarrow> [(path, BadListenAddress e)]), a))"

definition v_tls :: "string \<Rightarrow> TLS option \<Rightarrow> problem list \<times> TLS option" where
  "v_tls path t = (case t of
      None \<Rightarrow> ([], None)
    | Some x \<Rightarrow> ((if CertFile x = [] then [(path @ ''.certFile'', Required)] else [])
        @ (if KeyFile x = [] then [(path @ ''.keyFile'', Required)] else []),
        Some \<lparr>CertFile = CertFile x, KeyFile = KeyFile x\<rparr>))"

definition v_secretRef :: "k8s_validation \<Rightarrow> string \<Rightarrow> secretRef \<Rightarrow> string \<Rightarrow> problem list \<times> SecretRef" where
  "v_secretRef V path ref defaultNS =
     (let ps1 = (if sr_Name ref = [] then [(path @ ''.name'', Required)]
                 else case ValidateSecretName V (sr_Name ref) of
                     None \<Rightarrow> [] | Some e \<Rightarrow> [(path @ ''.name'', InvalidName (sr_Name ref) e)]);
          ns = (if sr_Namespace ref = [] then defaultNS else sr_Namespace ref);
          ps2 = (if sr_Namespace ref = [] then
                   (if defaultNS = [] then [(path @ ''.namespace'', NamespaceNotSet)] else [])
                 else case ValidateNamespace V (sr_Namespace ref) of
                     None \<Rightarrow> [] | Some e \<Rightarrow> [(path @ ''.namespace'', InvalidNamespace (sr_Namespace ref) e)])
      in (ps1 @ ps2, SecretRef ns (sr_Name ref)))"

text \<open>The loop of \<^verbatim>\<open>prefixes\<close>; \<open>seen\<close> maps a network to its first index.\<close>

fun prefixes_loop :: "string \<Rightarrow> nat \<Rightarrow> (Prefix \<rightharpoonup> nat) \<Rightarrow> string list \<Rightarrow> problem list \<times> Prefix list" where
  "prefixes_loop path i seen [] = ([], [])"
| "prefixes_loop path i seen (s # ss) = (case ParsePrefix s of
      Inl err \<Rightarrow> apfst ((#) (index_path path i, BadCIDR err)) (prefixes_loop path (Suc i) seen ss)
    | Inr p \<Rightarrow> (case seen p of
        Some j \<Rightarrow> apfst ((#) (index_path path i, DuplicateCIDR j p)) (prefixes_loop path (Suc i) seen ss)
      | None \<Rightarrow> apsnd ((#) p) (prefixes_loop path (Suc i) (seen(p \<mapsto> i)) ss)))"

definition v_prefixes :: "string \<Rightarrow> string list \<Rightarrow> bool \<Rightarrow> problem list \<times> Prefix list" where
  "v_prefixes path values required =
     (if required \<and> values = [] then ([(path, CIDRRequired)], [])
      else prefixes_loop path 0 Map.empty values)"

definition v_auth :: "k8s_validation \<Rightarrow> string \<Rightarrow> secretRef option \<Rightarrow> string \<Rightarrow> problem list \<times> Auth" where
  "v_auth V path a defaultNS = (case a of
      None \<Rightarrow> ([(path, Required)], Auth (SecretRef [] []))
    | Some ref \<Rightarrow> apsnd Auth (v_secretRef V (path @ ''.secretRef'') ref defaultNS))"

fun keys_loop :: "k8s_validation \<Rightarrow> string \<Rightarrow> nat \<Rightarrow> (string \<rightharpoonup> nat) \<Rightarrow> string list
    \<Rightarrow> problem list \<times> string list" where
  "keys_loop V path i seen [] = ([], [])"
| "keys_loop V path i seen (k # ks) = (case ValidateKey V k of
      Some err \<Rightarrow> apfst ((#) (index_path path i, InvalidKey k err)) (keys_loop V path (Suc i) seen ks)
    | None \<Rightarrow> (case seen k of
        Some j \<Rightarrow> apfst ((#) (index_path path i, DuplicateKey j k)) (keys_loop V path (Suc i) seen ks)
      | None \<Rightarrow> apsnd ((#) k) (keys_loop V path (Suc i) (seen(k \<mapsto> i)) ks)))"

definition v_keys :: "k8s_validation \<Rightarrow> string \<Rightarrow> string list \<Rightarrow> problem list \<times> string list" where
  "v_keys V path keys =
     (if keys = [] then ([(path, KeyRequired)], []) else keys_loop V path 0 Map.empty keys)"

definition exposure_resolve :: "k8s_validation \<Rightarrow> exposureSection \<Rightarrow> string \<Rightarrow> string \<Rightarrow> problem list \<times> Exposure" where
  "exposure_resolve V s path defaultNS =
     (case v_secretRef V (path @ ''.secretRef'') (es_SecretRef s) defaultNS of (p1, source) \<Rightarrow>
      case v_prefixes (path @ ''.allowedCidrs'') (es_AllowedCIDRs s) True of (p2, cidrs) \<Rightarrow>
      case v_auth V (path @ ''.auth'') (es_Auth s) defaultNS of (p3, auth) \<Rightarrow>
      case v_keys V (path @ ''.keys'') (es_Keys s) of (p4, keys) \<Rightarrow>
      let p5 = (if es_Name s = [] then [(path @ ''.name'', Required)]
                else case ValidateName V (es_Name s) of
                    None \<Rightarrow> [] | Some e \<Rightarrow> [(path @ ''.name'', InvalidName (es_Name s) e)])
      in (p1 @ p2 @ p3 @ p4 @ p5,
          \<lparr>exp_Name = es_Name s, exp_Source = source, exp_AllowedCIDRs = cidrs, exp_Auth = auth,
           exp_Keys = keys\<rparr>))"

fun exposures_loop :: "k8s_validation \<Rightarrow> string \<Rightarrow> nat \<Rightarrow> (string \<rightharpoonup> nat) \<Rightarrow> exposureSection list
    \<Rightarrow> problem list \<times> Exposure list" where
  "exposures_loop V defaultNS i firstUse [] = ([], [])"
| "exposures_loop V defaultNS i firstUse (s # ss) =
     (let path = index_path ''exposures'' i in
      case exposure_resolve V s path defaultNS of (ps, e) \<Rightarrow>
      let dup = (if exp_Name e = [] then None else firstUse (exp_Name e));
          ps' = (case dup of Some j \<Rightarrow> [(path, DuplicateName (exp_Name e) j)] | None \<Rightarrow> []);
          firstUse' = (if exp_Name e \<noteq> [] \<and> dup = None then firstUse(exp_Name e \<mapsto> i) else firstUse) in
      case exposures_loop V defaultNS (Suc i) firstUse' ss of (qs, es) \<Rightarrow> (ps @ ps' @ qs, e # es))"

definition resolve :: "k8s_validation \<Rightarrow> document \<Rightarrow> problem list + Config" where
  "resolve V d =
     (let defaultNS = d_DefaultNamespace d;
          p0 = (if defaultNS = [] then [] else case ValidateNamespace V defaultNS of
                  None \<Rightarrow> [] | Some e \<Rightarrow> [(''kubernetes.defaultNamespace'', InvalidNamespace defaultNS e)]) in
      case v_listenAddress ''server.listenAddress'' (d_ListenAddress d) DefaultListenAddress of (p1, addr) \<Rightarrow>
      case v_tls ''server.tls'' (d_TLS d) of (p2, stls) \<Rightarrow>
      case v_prefixes ''server.trustedProxies'' (d_TrustedProxies d) False of (p3, proxies) \<Rightarrow>
      case v_listenAddress ''metrics.listenAddress'' (d_MetricsListenAddress d) DefaultMetricsListenAddress of (p4, maddr) \<Rightarrow>
      case v_tls ''metrics.tls'' (d_MetricsTLS d) of (p5, mtls) \<Rightarrow>
      let p6 = (if listenersConflict addr maddr then [(''metrics.listenAddress'', SamePort maddr addr)] else []) in
      case (case d_MetricsAuth d of None \<Rightarrow> ([], None)
            | Some a \<Rightarrow> apsnd Some (v_auth V ''metrics.auth'' (Some a) defaultNS)) of (p7, mauth) \<Rightarrow>
      case (case d_ReconcileInterval d of None \<Rightarrow> ([], DefaultReconcileInterval)
            | Some s \<Rightarrow> (case parseReconcileInterval s of
                Inl e \<Rightarrow> ([(''kubernetes.reconcileInterval'', BadInterval e)], 0)
              | Inr i \<Rightarrow> ([], i))) of (p8, interval) \<Rightarrow>
      let p9 = (if d_Exposures d = [] then [(''exposures'', NoExposures)] else []) in
      case exposures_loop V defaultNS 0 Map.empty (d_Exposures d) of (p10, exposures) \<Rightarrow>
      let problems = p0 @ p1 @ p2 @ p3 @ p4 @ p5 @ p6 @ p7 @ p8 @ p9 @ p10 in
      if problems \<noteq> [] then Inl problems
      else Inr \<lparr>cfg_Server = \<lparr>srv_ListenAddress = addr, srv_TLS = stls, srv_TrustedProxies = proxies\<rparr>,
        cfg_Metrics = \<lparr>met_ListenAddress = maddr, met_TLS = mtls, met_Auth = mauth\<rparr>,
        cfg_ReconcileInterval = interval, cfg_Exposures = exposures\<rparr>)"

section \<open>Parsing and loading\<close>

datatype 'a decoded = Decoded 'a | EndOfInput | Malformed string

datatype config_error = Problems "problem list" | EmptyConfiguration | NotSingleDocument
  | MalformedYAML string | ReadError string

definition Parse :: "k8s_validation \<Rightarrow> (bytes \<Rightarrow> document decoded) \<Rightarrow> (bytes \<Rightarrow> unit decoded) \<Rightarrow> bytes
    \<Rightarrow> config_error + Config" where
  "Parse V first_doc second_doc data = (case first_doc data of
      EndOfInput \<Rightarrow> Inl EmptyConfiguration
    | Malformed e \<Rightarrow> Inl (MalformedYAML e)
    | Decoded doc \<Rightarrow> (case second_doc data of
        Malformed e \<Rightarrow> Inl (MalformedYAML e)
      | Decoded _ \<Rightarrow> Inl NotSingleDocument
      | EndOfInput \<Rightarrow> (case resolve V doc of Inl ps \<Rightarrow> Inl (Problems ps) | Inr cfg \<Rightarrow> Inr cfg)))"

definition Load :: "k8s_validation \<Rightarrow> (bytes \<Rightarrow> document decoded) \<Rightarrow> (bytes \<Rightarrow> unit decoded)
    \<Rightarrow> (string \<Rightarrow> string + bytes) \<Rightarrow> string \<Rightarrow> config_error + Config" where
  "Load V first_doc second_doc readFile path = (case readFile path of
      Inl e \<Rightarrow> Inl (ReadError e)
    | Inr data \<Rightarrow> Parse V first_doc second_doc data)"

section \<open>What a valid configuration is\<close>

definition ref_ok :: "k8s_validation \<Rightarrow> SecretRef \<Rightarrow> bool" where
  "ref_ok V ref \<longleftrightarrow> Name ref \<noteq> [] \<and> ValidateSecretName V (Name ref) = None
     \<and> Namespace ref \<noteq> [] \<and> ValidateNamespace V (Namespace ref) = None"

definition exposure_ok :: "k8s_validation \<Rightarrow> Exposure \<Rightarrow> bool" where
  "exposure_ok V e \<longleftrightarrow> exp_Name e \<noteq> [] \<and> ValidateName V (exp_Name e) = None
     \<and> ref_ok V (exp_Source e) \<and> ref_ok V (Auth_SecretRef (exp_Auth e))
     \<and> exp_AllowedCIDRs e \<noteq> [] \<and> distinct (exp_AllowedCIDRs e)
     \<and> exp_Keys e \<noteq> [] \<and> distinct (exp_Keys e) \<and> list_all (\<lambda>k. ValidateKey V k = None) (exp_Keys e)"

definition config_ok :: "k8s_validation \<Rightarrow> Config \<Rightarrow> bool" where
  "config_ok V cfg \<longleftrightarrow> cfg_Exposures cfg \<noteq> [] \<and> distinct (map exp_Name (cfg_Exposures cfg))
     \<and> list_all (exposure_ok V) (cfg_Exposures cfg)
     \<and> MinReconcileInterval \<le> cfg_ReconcileInterval cfg \<and> cfg_ReconcileInterval cfg \<le> MaxReconcileInterval
     \<and> validateListenAddress (srv_ListenAddress (cfg_Server cfg)) = None
     \<and> validateListenAddress (met_ListenAddress (cfg_Metrics cfg)) = None
     \<and> \<not> listenersConflict (srv_ListenAddress (cfg_Server cfg)) (met_ListenAddress (cfg_Metrics cfg))
     \<and> distinct (srv_TrustedProxies (cfg_Server cfg))
     \<and> pred_option (\<lambda>a. ref_ok V (Auth_SecretRef a)) (met_Auth (cfg_Metrics cfg))"

text \<open>The configuration says what the document says, nothing dropped and nothing changed.\<close>

text \<open>A Secret reference keeps its name and its namespace; without one it gets the default.\<close>

definition same_ref :: "string \<Rightarrow> secretRef \<Rightarrow> SecretRef \<Rightarrow> bool" where
  "same_ref ns ref r \<longleftrightarrow> Name r = sr_Name ref
     \<and> Namespace r = (if sr_Namespace ref = [] then ns else sr_Namespace ref)"

definition same_exposure :: "string \<Rightarrow> exposureSection \<Rightarrow> Exposure \<Rightarrow> bool" where
  "same_exposure ns s e \<longleftrightarrow> exp_Name e = es_Name s \<and> same_ref ns (es_SecretRef s) (exp_Source e)
     \<and> map Inr (exp_AllowedCIDRs e) = map ParsePrefix (es_AllowedCIDRs s) \<and> exp_Keys e = es_Keys s
     \<and> rel_option (same_ref ns) (es_Auth s) (Some (Auth_SecretRef (exp_Auth e)))"

definition given :: "'a \<Rightarrow> 'a option \<Rightarrow> 'a" where
  "given def x = (case x of None \<Rightarrow> def | Some a \<Rightarrow> a)"

definition tls_ok :: "TLS option \<Rightarrow> bool" where
  "tls_ok t = pred_option (\<lambda>x. CertFile x \<noteq> [] \<and> KeyFile x \<noteq> []) t"

definition same_config :: "document \<Rightarrow> Config \<Rightarrow> bool" where
  "same_config d cfg \<longleftrightarrow>
     list_all2 (same_exposure (d_DefaultNamespace d)) (d_Exposures d) (cfg_Exposures cfg)
     \<and> srv_ListenAddress (cfg_Server cfg) = given '':8080'' (d_ListenAddress d)
     \<and> met_ListenAddress (cfg_Metrics cfg) = given '':8081'' (d_MetricsListenAddress d)
     \<and> srv_TLS (cfg_Server cfg) = d_TLS d \<and> tls_ok (d_TLS d)
     \<and> met_TLS (cfg_Metrics cfg) = d_MetricsTLS d \<and> tls_ok (d_MetricsTLS d)
     \<and> map Inr (srv_TrustedProxies (cfg_Server cfg)) = map ParsePrefix (d_TrustedProxies d)
     \<and> rel_option (same_ref (d_DefaultNamespace d)) (d_MetricsAuth d)
         (map_option Auth_SecretRef (met_Auth (cfg_Metrics cfg)))
     \<and> Some (cfg_ReconcileInterval cfg) = given (Some (5 * minute)) (map_option ParseDuration (d_ReconcileInterval d))"

definition ns_ok :: "k8s_validation \<Rightarrow> string \<Rightarrow> bool" where
  "ns_ok V ns \<longleftrightarrow> ns = [] \<or> ValidateNamespace V ns = None"

lemma v_secretRef_ok:
  assumes "v_secretRef V path ref ns = ([], r)" and "ns_ok V ns"
  shows "ref_ok V r" and "same_ref ns ref r"
  using assms
  by (auto simp: v_secretRef_def same_ref_def ref_ok_def ns_ok_def Let_def split: if_splits option.splits)

lemma v_auth_ok:
  assumes "v_auth V path a ns = ([], x)" and "ns_ok V ns"
  shows "ref_ok V (Auth_SecretRef x)" and "rel_option (same_ref ns) a (Some (Auth_SecretRef x))"
proof -
  obtain ref where a: "a = Some ref" using assms(1) by (auto simp: v_auth_def split: option.splits)
  obtain ps r where r: "v_secretRef V (path @ ''.secretRef'') ref ns = (ps, r)" by fastforce
  from assms(1) a r have "ps = []" "x = Auth r" by (auto simp: v_auth_def)
  with v_secretRef_ok [of V _ ref ns r] r assms(2) a
  show "ref_ok V (Auth_SecretRef x)" "rel_option (same_ref ns) a (Some (Auth_SecretRef x))" by auto
qed

lemma prefixes_loop_ok:
  "prefixes_loop path i seen ss = ([], out) \<Longrightarrow>
    map Inr out = map ParsePrefix ss \<and> distinct out \<and> (\<forall>p \<in> set out. seen p = None)"
proof (induction ss arbitrary: i seen out)
  case (Cons s ss)
  from Cons.prems obtain p out' where p: "ParsePrefix s = Inr p" "seen p = None" "out = p # out'"
      "prefixes_loop path (Suc i) (seen(p \<mapsto> i)) ss = ([], out')"
    by (cases "prefixes_loop path (Suc i) (seen(case_sum undefined id (ParsePrefix s) \<mapsto> i)) ss")
      (auto simp: apfst_def apsnd_def map_prod_def split: sum.splits option.splits prod.splits)
  from Cons.IH [OF p(4)] have "map Inr out' = map ParsePrefix ss" "distinct out'"
    "\<forall>q \<in> set out'. (seen(p \<mapsto> i)) q = None" by auto
  with p show ?case by (auto split: if_splits)
qed simp

lemma keys_loop_ok:
  "keys_loop V path i seen ks = ([], out) \<Longrightarrow>
    out = ks \<and> distinct out \<and> list_all (\<lambda>k. ValidateKey V k = None) out \<and> (\<forall>k \<in> set out. seen k = None)"
proof (induction ks arbitrary: i seen out)
  case (Cons k ks)
  from Cons.prems obtain out' where p: "ValidateKey V k = None" "seen k = None" "out = k # out'"
      "keys_loop V path (Suc i) (seen(k \<mapsto> i)) ks = ([], out')"
    by (cases "keys_loop V path (Suc i) (seen(k \<mapsto> i)) ks")
      (auto simp: apfst_def apsnd_def map_prod_def split: option.splits prod.splits)
  from Cons.IH [OF p(4)] p show ?case by (auto split: if_splits)
qed simp

lemma exposure_resolve_ok:
  assumes "exposure_resolve V s path ns = ([], e)" and "ns_ok V ns"
  shows "exposure_ok V e" and "same_exposure ns s e"
proof -
  obtain p1 source where s1: "v_secretRef V (path @ ''.secretRef'') (es_SecretRef s) ns = (p1, source)" by fastforce
  obtain p2 cidrs where s2: "v_prefixes (path @ ''.allowedCidrs'') (es_AllowedCIDRs s) True = (p2, cidrs)" by fastforce
  obtain p3 auth where s3: "v_auth V (path @ ''.auth'') (es_Auth s) ns = (p3, auth)" by fastforce
  obtain p4 keys where s4: "v_keys V (path @ ''.keys'') (es_Keys s) = (p4, keys)" by fastforce
  from assms(1) have e: "p1 = []" "p2 = []" "p3 = []" "p4 = []" "es_Name s \<noteq> []" "ValidateName V (es_Name s) = None"
    "e = \<lparr>exp_Name = es_Name s, exp_Source = source, exp_AllowedCIDRs = cidrs, exp_Auth = auth, exp_Keys = keys\<rparr>"
    by (auto simp: exposure_resolve_def s1 s2 s3 s4 Let_def split: if_splits option.splits)
  note ref = v_secretRef_ok [OF s1 [unfolded e(1)] assms(2)]
  note auth = v_auth_ok [OF s3 [unfolded e(3)] assms(2)]
  have "es_AllowedCIDRs s \<noteq> []" and c: "prefixes_loop (path @ ''.allowedCidrs'') 0 Map.empty (es_AllowedCIDRs s) = ([], cidrs)"
    using s2 e(2) by (auto simp: v_prefixes_def split: if_splits)
  note cidrs = this(1) prefixes_loop_ok [OF c]
  have "es_Keys s \<noteq> []" and k: "keys_loop V (path @ ''.keys'') 0 Map.empty (es_Keys s) = ([], keys)"
    using s4 e(4) by (auto simp: v_keys_def split: if_splits)
  note keys = this(1) keys_loop_ok [OF k]
  show "exposure_ok V e" using e ref auth cidrs keys by (auto simp: exposure_ok_def)
  show "same_exposure ns s e" using e ref auth cidrs keys by (simp add: same_exposure_def)
qed

lemma exposures_loop_ok:
  assumes "exposures_loop V ns i firstUse ss = ([], es)" and "ns_ok V ns"
  shows "list_all (exposure_ok V) es \<and> list_all2 (same_exposure ns) ss es
    \<and> distinct (map exp_Name es) \<and> (\<forall>e \<in> set es. firstUse (exp_Name e) = None)"
  using assms(1)
proof (induction ss arbitrary: i firstUse es)
  case (Cons s ss)
  obtain ps e where e: "exposure_resolve V s (index_path ''exposures'' i) ns = (ps, e)" by fastforce
  define dup where "dup = (if exp_Name e = [] then None else firstUse (exp_Name e))"
  define use where "use = (if exp_Name e \<noteq> [] \<and> dup = None then firstUse(exp_Name e \<mapsto> i) else firstUse)"
  obtain qs es' where l: "exposures_loop V ns (Suc i) use ss = (qs, es')" by fastforce
  from Cons.prems have z: "ps = []" "dup = None" "qs = []" "es = e # es'"
    by (auto simp: e l [unfolded use_def dup_def] dup_def Let_def split: option.splits)
  note ok = exposure_resolve_ok [OF e [unfolded z(1)] assms(2)]
  note ih = Cons.IH [OF l [unfolded z(3)]]
  have n: "exp_Name e \<noteq> []" using ok(1) by (simp add: exposure_ok_def)
  with z(2) have "firstUse (exp_Name e) = None" "use = firstUse(exp_Name e \<mapsto> i)"
    by (simp_all add: dup_def use_def)
  with ih ok show ?case by (auto simp: z(4) split: if_splits)
qed simp

lemma v_listenAddress_ok:
  "v_listenAddress path value def = ([], a) \<Longrightarrow> validateListenAddress def = None \<Longrightarrow> validateListenAddress a = None"
  by (auto simp: v_listenAddress_def split: option.splits)

lemma default_addresses_ok:
  "validateListenAddress DefaultListenAddress = None" "validateListenAddress DefaultMetricsListenAddress = None"
  by (simp_all add: validateListenAddress_def DefaultListenAddress_def DefaultMetricsListenAddress_def
      SplitHostPort_def eval_simps)

lemma interval_ok:
  "parseReconcileInterval s = Inr i \<Longrightarrow> MinReconcileInterval \<le> i \<and> i \<le> MaxReconcileInterval"
  by (auto simp: parseReconcileInterval_def split: option.splits if_splits)

lemma default_interval_ok:
  "MinReconcileInterval \<le> DefaultReconcileInterval" "DefaultReconcileInterval \<le> MaxReconcileInterval"
  by (simp_all add: MinReconcileInterval_def MaxReconcileInterval_def DefaultReconcileInterval_def
      minute_def second_def hour_def)

lemma v_listenAddress_given: "snd (v_listenAddress path value def) = given def value"
  by (simp add: v_listenAddress_def given_def split: option.split)

lemma v_tls_ok: "v_tls path t = ([], x) \<Longrightarrow> x = t \<and> tls_ok t"
  by (auto simp: v_tls_def tls_ok_def split: option.splits if_splits)

lemma resolve_ok:
  assumes "resolve V d = Inr cfg"
  shows "config_ok V cfg" and "same_config d cfg"
proof -
  let ?ns = "d_DefaultNamespace d"
  obtain p1 addr where s1: "v_listenAddress ''server.listenAddress'' (d_ListenAddress d) DefaultListenAddress = (p1, addr)" by fastforce
  obtain p2 stls where s2: "v_tls ''server.tls'' (d_TLS d) = (p2, stls)" by fastforce
  obtain p3 proxies where s3: "v_prefixes ''server.trustedProxies'' (d_TrustedProxies d) False = (p3, proxies)" by fastforce
  obtain p4 maddr where s4: "v_listenAddress ''metrics.listenAddress'' (d_MetricsListenAddress d) DefaultMetricsListenAddress = (p4, maddr)" by fastforce
  obtain p5 mtls where s5: "v_tls ''metrics.tls'' (d_MetricsTLS d) = (p5, mtls)" by fastforce
  obtain p7 mauth where s7: "(case d_MetricsAuth d of None \<Rightarrow> ([], None)
      | Some a \<Rightarrow> apsnd Some (v_auth V ''metrics.auth'' (Some a) ?ns)) = (p7, mauth)" by fastforce
  obtain p8 interval where s8: "(case d_ReconcileInterval d of None \<Rightarrow> ([], DefaultReconcileInterval)
      | Some s \<Rightarrow> (case parseReconcileInterval s of
          Inl e \<Rightarrow> ([(''kubernetes.reconcileInterval'', BadInterval e)], 0) | Inr i \<Rightarrow> ([], i))) = (p8, interval)" by fastforce
  obtain p10 es where s10: "exposures_loop V ?ns 0 Map.empty (d_Exposures d) = (p10, es)" by fastforce
  note r = assms [unfolded resolve_def Let_def s1 s2 s3 s4 s5 s7 s8 s10 prod.case]
  from r have z: "p1 = []" "p2 = []" "p5 = []" "p3 = []" "p4 = []" "p7 = []" "p8 = []" "p10 = []" "d_Exposures d \<noteq> []"
      "\<not> listenersConflict addr maddr" and ns: "ns_ok V ?ns"
      and cfg: "cfg = \<lparr>cfg_Server = \<lparr>srv_ListenAddress = addr, srv_TLS = stls, srv_TrustedProxies = proxies\<rparr>,
        cfg_Metrics = \<lparr>met_ListenAddress = maddr, met_TLS = mtls, met_Auth = mauth\<rparr>,
        cfg_ReconcileInterval = interval, cfg_Exposures = es\<rparr>"
    by (auto simp: ns_ok_def split: if_splits option.splits)
  note ex = exposures_loop_ok [OF s10 [unfolded z(8)] ns]
  have "es \<noteq> []" using ex z(9) by auto
  moreover have "validateListenAddress addr = None" "validateListenAddress maddr = None"
    using v_listenAddress_ok s1 s4 z(1,5) default_addresses_ok by auto
  moreover have proxies: "map Inr proxies = map ParsePrefix (d_TrustedProxies d) \<and> distinct proxies"
    using prefixes_loop_ok [of "''server.trustedProxies''" 0 Map.empty "d_TrustedProxies d" proxies] s3 z(4)
    by (auto simp: v_prefixes_def)
  moreover have mauth: "pred_option (\<lambda>a. ref_ok V (Auth_SecretRef a)) mauth
      \<and> rel_option (same_ref ?ns) (d_MetricsAuth d) (map_option Auth_SecretRef mauth)"
  proof (cases "d_MetricsAuth d")
    case (Some a)
    obtain x where "v_auth V ''metrics.auth'' (Some a) ?ns = ([], x)" "mauth = Some x"
      using s7 z(6) Some by (cases "v_auth V ''metrics.auth'' (Some a) ?ns") auto
    with v_auth_ok [OF _ ns, of "''metrics.auth''" "Some a" x] Some show ?thesis by auto
  qed (use s7 in auto)
  moreover have "MinReconcileInterval \<le> interval" "interval \<le> MaxReconcileInterval"
    using s8 z(7) interval_ok default_interval_ok by (auto split: option.splits sum.splits)
  ultimately show "config_ok V cfg" using ex z(10) by (simp add: cfg config_ok_def)
  have "addr = given '':8080'' (d_ListenAddress d)" "maddr = given '':8081'' (d_MetricsListenAddress d)"
    using v_listenAddress_given s1 s4 by (metis snd_conv DefaultListenAddress_def DefaultMetricsListenAddress_def)+
  moreover have "Some interval = given (Some (5 * minute)) (map_option ParseDuration (d_ReconcileInterval d))"
    using s8 z(7) by (auto simp: given_def DefaultReconcileInterval_def parseReconcileInterval_def
        split: option.splits sum.splits if_splits)
  ultimately show "same_config d cfg"
    using ex proxies mauth v_tls_ok s2 [unfolded z(2)] s5 [unfolded z(3)] by (simp add: cfg same_config_def)
qed

text \<open>
  C36: a configuration that loads is sound and is the one of the document. There is at least one
  exposure, all names are valid and distinct, every Secret reference is complete and valid, every
  allow-list and key list is non-empty and without duplicates, the reconcile interval lies between
  its bounds, and the listen addresses pass the checks of the code: \<^verbatim>\<open>validateListenAddress\<close>, and
  \<^verbatim>\<open>listenersConflict\<close>, which compares hosts and ports as they are written. Nothing of the document
  is dropped or changed: each exposure has its name, Secrets, networks and keys in the order of the
  document, a namespace that is given is kept and one that is not is the default namespace; listen
  addresses, certificate files, trusted proxies, the credentials of the metrics and the interval
  are those of the document, or the defaults where it has none.
\<close>

theorem Parse_sound:
  assumes "Parse V first_doc second_doc data = Inr cfg"
  shows "config_ok V cfg
    \<and> (\<exists>doc. first_doc data = Decoded doc \<and> second_doc data = EndOfInput \<and> same_config doc cfg)"
proof -
  obtain doc where "first_doc data = Decoded doc" "second_doc data = EndOfInput" "resolve V doc = Inr cfg"
    using assms by (auto simp: Parse_def split: decoded.splits sum.splits)
  with resolve_ok show ?thesis by blast
qed

definition ex_document :: document where
  "ex_document = \<lparr>d_ListenAddress = None, d_TLS = None, d_TrustedProxies = [], d_MetricsListenAddress = None,
     d_MetricsTLS = None, d_MetricsAuth = None, d_DefaultNamespace = ''ns'', d_ReconcileInterval = Some ''5m'',
     d_Exposures = [\<lparr>es_Name = ''app'', es_SecretRef = \<lparr>sr_Namespace = [], sr_Name = ''db''\<rparr>,
       es_AllowedCIDRs = [''10.0.0.0/8''], es_Auth = Some \<lparr>sr_Namespace = ''ns'', sr_Name = ''creds''\<rparr>,
       es_Keys = [''k'']\<rparr>]\<rparr>"

text \<open>With certificates, credentials in another namespace, a trusted proxy and an interval.\<close>

definition ex_full_document :: document where
  "ex_full_document = ex_document\<lparr>d_TLS := Some \<lparr>CertFile = ''c'', KeyFile = ''k''\<rparr>, d_TrustedProxies := [''10.0.0.0/8''],
     d_MetricsAuth := Some \<lparr>sr_Namespace = ''sec'', sr_Name = ''m''\<rparr>\<rparr>"

lemma ex_document_parses:
  "\<exists>cfg. Parse ex_V (\<lambda>_. Decoded ex_full_document) (\<lambda>_. EndOfInput) [] = Inr cfg"
  by (simp add: Parse_def resolve_def ex_full_document_def ex_document_def ex_V_def v_listenAddress_def v_tls_def v_prefixes_def
      v_secretRef_def v_auth_def v_keys_def exposure_resolve_def listenersConflict_def isWildcardHost_def
      parseReconcileInterval_def ParseDuration_examples MinReconcileInterval_def MaxReconcileInterval_def
      DefaultListenAddress_def DefaultMetricsListenAddress_def SplitHostPort_def ParsePrefix_def
      ValidateName_def ValidateSecretName_def ValidateNamespace_def ValidateKey_def validationErr_def subdomain_char_def
      label_char_def key_char_def minute_def second_def hour_def mask_eq_exp_minus_1 eval_simps Let_def)

theorem Parse_sound_witness:
  "\<exists>cfg. Parse ex_V (\<lambda>_. Decoded ex_full_document) (\<lambda>_. EndOfInput) [] = Inr cfg \<and> config_ok ex_V cfg
    \<and> srv_TLS (cfg_Server cfg) = Some \<lparr>CertFile = ''c'', KeyFile = ''k''\<rparr>
    \<and> map_option Auth_SecretRef (met_Auth (cfg_Metrics cfg)) = Some (SecretRef ''sec'' ''m'')
    \<and> map exp_Source (cfg_Exposures cfg) = [SecretRef ''ns'' ''db'']"
proof -
  obtain cfg where cfg: "Parse ex_V (\<lambda>_. Decoded ex_full_document) (\<lambda>_. EndOfInput) [] = Inr cfg"
    using ex_document_parses by blast
  from Parse_sound [OF this] have ok: "config_ok ex_V cfg" "same_config ex_full_document cfg" by auto
  from ok(2) obtain e where e: "cfg_Exposures cfg = [e]" "same_ref ''ns'' \<lparr>sr_Namespace = [], sr_Name = ''db''\<rparr> (exp_Source e)"
    by (auto simp: same_config_def ex_full_document_def ex_document_def same_exposure_def list_all2_Cons1)
  from ok(2) obtain r where r: "map_option Auth_SecretRef (met_Auth (cfg_Metrics cfg)) = Some r"
      "same_ref ''ns'' \<lparr>sr_Namespace = ''sec'', sr_Name = ''m''\<rparr> r"
    unfolding same_config_def by (auto simp: ex_full_document_def ex_document_def option_rel_Some1)
  have "srv_TLS (cfg_Server cfg) = Some \<lparr>CertFile = ''c'', KeyFile = ''k''\<rparr>"
    using ok(2) by (simp add: same_config_def ex_full_document_def)
  moreover have "exp_Source e = SecretRef ''ns'' ''db''" "r = SecretRef ''sec'' ''m''"
    using e(2) r(2) by (auto simp: same_ref_def intro: SecretRef.expand)
  ultimately show ?thesis using cfg ok(1) e(1) r(1) by simp
qed

end
