(* ===== verification/Go_Base64.thy ===== *)
theory Go_Base64
  imports Go_Strings
begin

text \<open>
  \<^verbatim>\<open>base64.StdEncoding\<close> of \<^verbatim>\<open>encoding/base64\<close>: \<^verbatim>\<open>EncodeToString\<close> with
  padding, and \<^verbatim>\<open>DecodeString\<close>, which is not strict (unused bits of the last quantum are
  ignored) and skips carriage returns and line feeds wherever they stand. The decoder's result
  is \<^const>\<open>None\<close> where the package returns a \<^verbatim>\<open>CorruptInputError\<close>.
\<close>

text \<open>The alphabet \<open>A-Z\<close>, \<open>a-z\<close>, \<open>0-9\<close>, \<open>+\<close>, \<open>/\<close>.\<close>

definition b64_char :: "nat \<Rightarrow> char" where
  "b64_char n =
     (if n < 26 then chr_of (65 + n)
      else if n < 52 then chr_of (71 + n)
      else if n < 62 then chr_of (n - 4)
      else if n = 62 then CHR ''+'' else CHR ''/'')"

definition b64_value :: "char \<Rightarrow> nat option" where
  "b64_value c =
     (if is_upper c then Some (byte_of c - 65)
      else if is_lower c then Some (byte_of c - 71)
      else if is_digit c then Some (byte_of c + 4)
      else if c = CHR ''+'' then Some 62
      else if c = CHR ''/'' then Some 63
      else None)"

fun EncodeToString :: "bytes \<Rightarrow> string" where
  "EncodeToString [] = []"
| "EncodeToString [a] =
     [b64_char (byte_of a div 4), b64_char (byte_of a mod 4 * 16), CHR ''='', CHR ''='']"
| "EncodeToString [a, b] =
     [b64_char (byte_of a div 4), b64_char (byte_of a mod 4 * 16 + byte_of b div 16),
      b64_char (byte_of b mod 16 * 4), CHR ''='']"
| "EncodeToString (a # b # c # rest) =
     b64_char (byte_of a div 4) # b64_char (byte_of a mod 4 * 16 + byte_of b div 16)
     # b64_char (byte_of b mod 16 * 4 + byte_of c div 64) # b64_char (byte_of c mod 64)
     # EncodeToString rest"

definition EncodedLen :: "nat \<Rightarrow> nat" where
  "EncodedLen n = (n + 2) div 3 * 4"

text \<open>One quantum after the other, on input without line breaks.\<close>

fun decode_quanta :: "string \<Rightarrow> bytes option" where
  "decode_quanta [] = Some []"
| "decode_quanta (w # x # y # z # rest) =
     (case (b64_value w, b64_value x) of
        (Some a, Some b) \<Rightarrow>
          if y = CHR ''='' then
            (if z = CHR ''='' \<and> rest = [] then Some [chr_of (a * 4 + b div 16)] else None)
          else (case b64_value y of
              None \<Rightarrow> None
            | Some c \<Rightarrow>
              if z = CHR ''='' then
                (if rest = []
                 then Some [chr_of (a * 4 + b div 16), chr_of (b mod 16 * 16 + c div 4)]
                 else None)
              else (case (b64_value z, decode_quanta rest) of
                  (Some d, Some ds) \<Rightarrow>
                    Some (chr_of (a * 4 + b div 16) # chr_of (b mod 16 * 16 + c div 4)
                          # chr_of (c mod 4 * 64 + d) # ds)
                | _ \<Rightarrow> None))
      | _ \<Rightarrow> None)"
| "decode_quanta _ = None"

definition DecodeString :: "string \<Rightarrow> bytes option" where
  "DecodeString s = decode_quanta (filter (\<lambda>c. c \<noteq> CHR 0x0A \<and> c \<noteq> CHR 0x0D) s)"

section \<open>Round trip\<close>

lemma byte_lt [simp]: "byte_of c < 256"
  using of_char_mod_256 [of c] by (metis mod_less_divisor zero_less_numeral)

lemma byte_div [simp]: "byte_of c div 4 < 64" "byte_of c div 16 < 16" "byte_of c div 64 < 4"
  using byte_lt [of c] by linarith+

lemma byte_of_inverse [simp]: "chr_of (byte_of c) = c"
  by simp

lemma b64_value_char [simp]: "n < 64 \<Longrightarrow> b64_value (b64_char n) = Some n"
  by (auto simp: b64_value_def b64_char_def is_upper_def is_lower_def is_digit_def)

text \<open>No character of an encoding is white space, a quote, a backslash or a line break.\<close>

definition b64_plain :: "char \<Rightarrow> bool" where
  "b64_plain c \<longleftrightarrow> visible c \<and> c \<noteq> CHR 0x22 \<and> c \<noteq> CHR 0x5C \<and> c \<noteq> CHR '',''"

lemma b64_char_byte:
  "n < 64 \<Longrightarrow> byte_of (b64_char n) =
     (if n < 26 then 65 + n else if n < 52 then 71 + n else if n < 62 then n - 4
      else if n = 62 then 43 else 47)"
  by (auto simp: b64_char_def)

lemma char_neq_byte: "byte_of c \<noteq> byte_of d \<Longrightarrow> c \<noteq> d"
  by auto

lemma b64_char_neq [simp]: "n < 64 \<Longrightarrow> b64_char n \<noteq> CHR ''=''"
  by (rule char_neq_byte) (auto simp: b64_char_byte)

lemma b64_char_plain [simp]: "n < 64 \<Longrightarrow> b64_plain (b64_char n)"
  unfolding b64_plain_def visible_def
  by (intro conjI; (rule char_neq_byte)?) (auto simp: b64_char_byte)

lemma b64_hi [simp]: "b < 16 \<Longrightarrow> (a * 16 + b) div 16 = a" "b < 16 \<Longrightarrow> (a * 16 + b) mod 16 = b"
  for a b :: nat
  by auto

lemma b64_lo [simp]: "c < 4 \<Longrightarrow> (a * 4 + c) div 4 = a" "c < 4 \<Longrightarrow> (a * 4 + c) mod 4 = c"
  for a c :: nat
  by auto

lemma b64_sum [simp]:
  "a < 4 \<Longrightarrow> b < 16 \<Longrightarrow> a * 16 + b < 64" "b < 16 \<Longrightarrow> c < 4 \<Longrightarrow> b * 4 + c < 64"
  "a < 4 \<Longrightarrow> a * 16 < 64" "b < 16 \<Longrightarrow> b * 4 < 64"
  for a b c :: nat
  by auto

lemma decode_quanta_encode [simp]: "decode_quanta (EncodeToString s) = Some s"
  by (induction s rule: EncodeToString.induct) simp_all

lemma EncodeToString_plain: "c \<in> set (EncodeToString s) \<Longrightarrow> b64_plain c"
proof (induction s rule: EncodeToString.induct)
  case (2 a)
  then show ?case by (auto simp: b64_plain_def [of "CHR ''=''"] visible_def)
next
  case (3 a b)
  then show ?case by (auto simp: b64_plain_def [of "CHR ''=''"] visible_def)
qed auto

lemma b64_plain_no_break: "b64_plain c \<Longrightarrow> c \<noteq> CHR 0x0A \<and> c \<noteq> CHR 0x0D"
  by (auto simp: b64_plain_def visible_def)

lemma DecodeString_EncodeToString [simp]: "DecodeString (EncodeToString s) = Some s"
proof -
  have "filter (\<lambda>c. c \<noteq> CHR 0x0A \<and> c \<noteq> CHR 0x0D) (EncodeToString s) = EncodeToString s"
    by (rule filter_True) (use EncodeToString_plain b64_plain_no_break in blast)
  then show ?thesis by (simp add: DecodeString_def)
qed

lemma EncodeToString_inj: "EncodeToString s = EncodeToString t \<Longrightarrow> s = t"
  by (metis DecodeString_EncodeToString option.inject)

lemma length_EncodeToString: "length (EncodeToString s) = EncodedLen (length s)"
proof (induction s rule: EncodeToString.induct)
  case (4 a b c rest)
  have "(length rest + 2 + 3) div 3 = Suc ((length rest + 2) div 3)" by simp
  with 4 show ?case by (simp add: EncodedLen_def)
qed (simp_all add: EncodedLen_def)

end
