(* ===== verification/Go_Sha256.thy ===== *)
theory Go_Sha256
  imports Go_Base64 "HOL-Library.Word"
begin

unbundle bit_operations_syntax

text \<open>
  \<^verbatim>\<open>sha256.Sum256\<close> of \<^verbatim>\<open>crypto/sha256\<close> (FIPS 180-4) and the HMAC of
  \<^verbatim>\<open>crypto/hmac\<close> over it (RFC 2104), with 32-bit words. Digests are byte strings of length
  32. The lemmas at the end give the length of a digest and the
  alphabet of its hexadecimal form.
\<close>

section \<open>Definitions\<close>

type_synonym w32 = "32 word"

definition sha256_K :: "w32 list" where
  "sha256_K =
     [1116352408, 1899447441, 3049323471, 3921009573, 961987163, 1508970993,
     2453635748, 2870763221, 3624381080, 310598401, 607225278, 1426881987,
     1925078388, 2162078206, 2614888103, 3248222580, 3835390401, 4022224774,
     264347078, 604807628, 770255983, 1249150122, 1555081692, 1996064986,
     2554220882, 2821834349, 2952996808, 3210313671, 3336571891, 3584528711,
     113926993, 338241895, 666307205, 773529912, 1294757372, 1396182291,
     1695183700, 1986661051, 2177026350, 2456956037, 2730485921, 2820302411,
     3259730800, 3345764771, 3516065817, 3600352804, 4094571909, 275423344,
     430227734, 506948616, 659060556, 883997877, 958139571, 1322822218,
     1537002063, 1747873779, 1955562222, 2024104815, 2227730452, 2361852424,
     2428436474, 2756734187, 3204031479, 3329325298]"

definition sha256_init :: "w32 list" where
  "sha256_init =
     [1779033703, 3144134277, 1013904242, 2773480762, 1359893119, 2600822924, 528734635, 1541459225]"

definition Ch :: "w32 \<Rightarrow> w32 \<Rightarrow> w32 \<Rightarrow> w32" where
  "Ch x y z = ((x AND y) XOR (NOT x AND z))"

definition Maj :: "w32 \<Rightarrow> w32 \<Rightarrow> w32 \<Rightarrow> w32" where
  "Maj x y z = ((x AND y) XOR (x AND z) XOR (y AND z))"

definition big_sigma0 :: "w32 \<Rightarrow> w32" where
  "big_sigma0 x = (word_rotr 2 x XOR word_rotr 13 x XOR word_rotr 22 x)"

definition big_sigma1 :: "w32 \<Rightarrow> w32" where
  "big_sigma1 x = (word_rotr 6 x XOR word_rotr 11 x XOR word_rotr 25 x)"

definition small_sigma0 :: "w32 \<Rightarrow> w32" where
  "small_sigma0 x = (word_rotr 7 x XOR word_rotr 18 x XOR drop_bit 3 x)"

definition small_sigma1 :: "w32 \<Rightarrow> w32" where
  "small_sigma1 x = (word_rotr 17 x XOR word_rotr 19 x XOR drop_bit 10 x)"

text \<open>The message schedule, newest word first, extended by \<open>n\<close> words.\<close>

fun schedule :: "nat \<Rightarrow> w32 list \<Rightarrow> w32 list" where
  "schedule 0 ws = ws"
| "schedule (Suc n) ws =
     schedule n ((small_sigma1 (ws ! 1) + ws ! 6 + small_sigma0 (ws ! 14) + ws ! 15) # ws)"

definition round_step :: "w32 \<times> w32 \<Rightarrow> w32 list \<Rightarrow> w32 list" where
  "round_step kw st = (case st of
      [a, b, c, d, e, f, g, h] \<Rightarrow>
        let t1 = h + big_sigma1 e + Ch e f g + fst kw + snd kw;
            t2 = big_sigma0 a + Maj a b c
        in [t1 + t2, a, b, c, d + t1, e, f, g]
    | _ \<Rightarrow> st)"

definition word_be :: "bytes \<Rightarrow> w32" where
  "word_be bs = foldl (\<lambda>acc c. acc * 256 + of_char c) 0 bs"

definition block_words :: "bytes \<Rightarrow> w32 list" where
  "block_words b = map (\<lambda>i. word_be (take 4 (drop (4 * i) b))) [0..<16]"

definition compress :: "w32 list \<Rightarrow> bytes \<Rightarrow> w32 list" where
  "compress st b =
     map2 (+) st (fold round_step (zip sha256_K (rev (schedule 48 (rev (block_words b))))) st)"

fun be_bytes :: "nat \<Rightarrow> int \<Rightarrow> bytes" where
  "be_bytes 0 n = []"
| "be_bytes (Suc k) n = char_of (n div 256 ^ k mod 256) # be_bytes k n"

text \<open>A one bit, then zeros up to 56 bytes modulo 64, then the length in bits.\<close>

definition sha256_pad :: "bytes \<Rightarrow> bytes" where
  "sha256_pad m =
     m @ [CHR 0x80] @ replicate ((119 - length m mod 64) mod 64) (CHR 0x00)
       @ be_bytes 8 (8 * int (length m))"

function sha256_blocks :: "w32 list \<Rightarrow> bytes \<Rightarrow> w32 list" where
  "sha256_blocks st m =
     (if m = [] then st else sha256_blocks (compress st (take 64 m)) (drop 64 m))"
  by pat_completeness auto
termination
  by (relation "measure (\<lambda>(st, m). length m)") auto

declare sha256_blocks.simps [simp del]

definition Sum256 :: "bytes \<Rightarrow> bytes" where
  "Sum256 m = concat (map (\<lambda>w. be_bytes 4 (uint w)) (sha256_blocks sha256_init (sha256_pad m)))"

definition xor_pad :: "nat \<Rightarrow> bytes \<Rightarrow> bytes" where
  "xor_pad p k = map (\<lambda>c. chr_of (byte_of c XOR p)) (k @ replicate (64 - length k) (CHR 0x00))"

definition hmac_sha256 :: "bytes \<Rightarrow> bytes \<Rightarrow> bytes" where
  "hmac_sha256 key m =
     (let k = (if 64 < length key then Sum256 key else key)
      in Sum256 (xor_pad 0x5C k @ Sum256 (xor_pad 0x36 k @ m)))"

text \<open>\<^verbatim>\<open>hex.EncodeToString\<close>.\<close>

definition hex_char :: "nat \<Rightarrow> char" where
  "hex_char n = (if n < 10 then chr_of (48 + n) else chr_of (87 + n))"

fun hex_encode :: "bytes \<Rightarrow> string" where
  "hex_encode [] = []"
| "hex_encode (c # cs) = hex_char (byte_of c div 16) # hex_char (byte_of c mod 16) # hex_encode cs"

section \<open>Lengths\<close>

lemma length_be_bytes [simp]: "length (be_bytes k n) = k"
  by (induction k) auto

lemma length_round_step [simp]: "length (round_step kw st) = length st"
  by (auto simp: round_step_def Let_def split: list.split)

lemma length_rounds [simp]: "length (fold round_step ks st) = length st"
  by (induction ks arbitrary: st) auto

lemma length_sha256_blocks [simp]: "length (sha256_blocks st m) = length st"
proof (induction st m rule: sha256_blocks.induct)
  case (1 st m)
  then show ?case by (subst sha256_blocks.simps) (simp add: compress_def)
qed

lemma length_Sum256 [simp]: "length (Sum256 m) = 32"
proof -
  have "sum_list (map (\<lambda>w. length (be_bytes 4 (uint w))) ws) = 4 * length ws" for ws :: "w32 list"
    by (induction ws) auto
  then show ?thesis
    by (simp add: Sum256_def length_concat comp_def sha256_init_def)
qed

lemma length_hmac_sha256 [simp]: "length (hmac_sha256 k m) = 32"
  by (simp add: hmac_sha256_def Let_def)

lemma length_hex_encode [simp]: "length (hex_encode s) = 2 * length s"
  by (induction s) auto

lemma hex_char_byte: "n < 16 \<Longrightarrow> byte_of (hex_char n) = (if n < 10 then 48 + n else 87 + n)"
  by (auto simp: hex_char_def)

lemma hex_char_digit: "n < 16 \<Longrightarrow> visible (hex_char n) \<and> hex_char n \<noteq> CHR '',''"
  by (rule conjI, simp add: visible_def hex_char_byte, rule char_neq_byte)
    (auto simp: hex_char_byte)

lemma hex_encode_digits: "c \<in> set (hex_encode s) \<Longrightarrow> visible c \<and> c \<noteq> CHR '',''"
  by (induction s) (auto simp: hex_char_digit)

end
