(* ===== verification/Go_Http.thy ===== *)
theory Go_Http
  imports Go_Base64
begin

text \<open>
  What the program uses of \<^verbatim>\<open>net/http\<close> and \<^verbatim>\<open>net/url\<close>: the request fields it
  reads, \<^verbatim>\<open>URL.EscapedPath\<close>, \<^verbatim>\<open>Request.BasicAuth\<close> and the
  \<^verbatim>\<open>ResponseWriter\<close> interface. A writer is a value of a type \<open>'w\<close> with a record of
  operations, as a Go interface value is a pointer with a method table; the locale
  \<open>response_writer\<close> is the contract of that interface, the server's own writer
  \<open>net_http_writer\<close> is its first implementation.
\<close>

section \<open>Requests\<close>

record URL =
  url_Path :: string
  url_RawPath :: string
  url_ForceQuery :: bool
  url_RawQuery :: string

text \<open>Header values are stored under the canonical form of the header's name.\<close>

record Request =
  req_Method :: string
  req_URL :: URL
  req_Header :: "string \<Rightarrow> string list"
  req_ContentLength :: int
  req_TransferEncoding :: "string list"
  req_RemoteAddr :: string

definition Header_Values :: "Request \<Rightarrow> string \<Rightarrow> string list" where
  "Header_Values r k = req_Header r k"

definition Header_Get :: "Request \<Rightarrow> string \<Rightarrow> string" where
  "Header_Get r k = (case req_Header r k of [] \<Rightarrow> [] | v # _ \<Rightarrow> v)"

section \<open>Escaped paths\<close>

definition is_alnum :: "char \<Rightarrow> bool" where
  "is_alnum c \<longleftrightarrow> is_lower c \<or> is_upper c \<or> is_digit c"

text \<open>\<^verbatim>\<open>shouldEscape(c, encodePath)\<close> and \<^verbatim>\<open>validEncoded(s, encodePath)\<close>.\<close>

definition shouldEscape :: "char \<Rightarrow> bool" where
  "shouldEscape c \<longleftrightarrow> \<not> is_alnum c \<and> c \<notin> set ''-_.~$&+,/:;=@''"

definition validEncoded :: "string \<Rightarrow> bool" where
  "validEncoded s \<longleftrightarrow>
     list_all (\<lambda>c. c \<in> {CHR 0x21, CHR 0x24, CHR 0x26, CHR 0x27, CHR 0x28, CHR 0x29, CHR 0x2A,
       CHR 0x2B, CHR 0x2C, CHR 0x3B, CHR 0x3D, CHR 0x3A, CHR 0x40, CHR 0x5B, CHR 0x5D, CHR 0x25}
       \<or> \<not> shouldEscape c) s"

definition unhex :: "char \<Rightarrow> nat option" where
  "unhex c =
     (if is_digit c then Some (byte_of c - 48)
      else if 97 \<le> byte_of c \<and> byte_of c \<le> 102 then Some (byte_of c - 87)
      else if 65 \<le> byte_of c \<and> byte_of c \<le> 70 then Some (byte_of c - 55)
      else None)"

fun url_unescape :: "string \<Rightarrow> string option" where
  "url_unescape [] = Some []"
| "url_unescape (c # cs) =
     (if c = CHR ''%'' then
        (case cs of
           h # l # rest \<Rightarrow>
             (case (unhex h, unhex l) of
                (Some a, Some b) \<Rightarrow> map_option ((#) (chr_of (a * 16 + b))) (url_unescape rest)
              | _ \<Rightarrow> None)
         | _ \<Rightarrow> None)
      else map_option ((#) c) (url_unescape cs))"

definition upper_hex :: "nat \<Rightarrow> char" where
  "upper_hex n = (if n < 10 then chr_of (48 + n) else chr_of (55 + n))"

fun url_escape :: "string \<Rightarrow> string" where
  "url_escape [] = []"
| "url_escape (c # cs) =
     (if shouldEscape c
      then CHR ''%'' # upper_hex (byte_of c div 16) # upper_hex (byte_of c mod 16) # url_escape cs
      else c # url_escape cs)"

definition EscapedPath :: "URL \<Rightarrow> string" where
  "EscapedPath u =
     (if url_RawPath u \<noteq> [] \<and> validEncoded (url_RawPath u)
         \<and> url_unescape (url_RawPath u) = Some (url_Path u)
      then url_RawPath u
      else if url_Path u = ''*'' then ''*''
      else url_escape (url_Path u))"

section \<open>Basic authentication\<close>

text \<open>
  \<^verbatim>\<open>Request.BasicAuth\<close>: the scheme is compared without regard to case, and the
  user name ends at the first colon.
\<close>

definition BasicAuth :: "Request \<Rightarrow> (string \<times> string) option" where
  "BasicAuth r =
     (let a = Header_Get r ''Authorization'' in
      if length a < 6 \<or> \<not> EqualFold_ascii (take 6 a) ''Basic '' then None
      else case DecodeString (drop 6 a) of
          None \<Rightarrow> None
        | Some c \<Rightarrow> (case Cut c (CHR '':'') of (u, p, ok) \<Rightarrow> if ok then Some (u, p) else None))"

text \<open>\<^verbatim>\<open>Request.SetBasicAuth\<close>: the value of the header it sets.\<close>

definition basic_auth_value :: "string \<Rightarrow> string \<Rightarrow> string" where
  "basic_auth_value u p = ''Basic '' @ EncodeToString (u @ '':'' @ p)"

lemma BasicAuth_SetBasicAuth:
  assumes "req_Header r ''Authorization'' = [basic_auth_value u p]" and "CHR '':'' \<notin> set u"
  shows "BasicAuth r = Some (u, p)"
  using assms
  by (simp add: BasicAuth_def Header_Get_def basic_auth_value_def EqualFold_ascii_def Cut_append)

section \<open>Responses\<close>

text \<open>
  The response a connection sends. \<open>rw_status\<close> is 0 until the header has been written;
  \<open>rw_sent\<close> are the header fields as they stood at that moment. A response to \<^verbatim>\<open>HEAD\<close>
  and a 304 carry no body.
\<close>

record RespWriter =
  rw_method :: string
  rw_header :: "(string \<times> string) list"
  rw_status :: nat
  rw_sent :: "(string \<times> string) list"
  rw_body :: bytes

definition new_response :: "string \<Rightarrow> RespWriter" where
  "new_response m = \<lparr>rw_method = m, rw_header = [], rw_status = 0, rw_sent = [], rw_body = []\<rparr>"

definition header_set :: "string \<Rightarrow> string \<Rightarrow> (string \<times> string) list \<Rightarrow> (string \<times> string) list" where
  "header_set k v h = filter (\<lambda>e. fst e \<noteq> k) h @ [(k, v)]"

definition rw_set :: "string \<Rightarrow> string \<Rightarrow> RespWriter \<Rightarrow> RespWriter" where
  "rw_set k v w = w\<lparr>rw_header := header_set k v (rw_header w)\<rparr>"

definition rw_WriteHeader :: "nat \<Rightarrow> RespWriter \<Rightarrow> RespWriter" where
  "rw_WriteHeader st w =
     (if rw_status w \<noteq> 0 then w else w\<lparr>rw_status := st, rw_sent := rw_header w\<rparr>)"

definition rw_Write :: "bytes \<Rightarrow> RespWriter \<Rightarrow> RespWriter" where
  "rw_Write b w =
     (let w' = rw_WriteHeader 200 w
      in if rw_method w' = ''HEAD'' \<or> rw_status w' = 304 then w'
         else w'\<lparr>rw_body := rw_body w' @ b\<rparr>)"

text \<open>The method table of \<^verbatim>\<open>http.ResponseWriter\<close>; \<open>hw_set\<close> is \<^verbatim>\<open>Header().Set\<close>.\<close>

record 'w http_writer =
  hw_set :: "string \<Rightarrow> string \<Rightarrow> 'w \<Rightarrow> 'w"
  hw_WriteHeader :: "nat \<Rightarrow> 'w \<Rightarrow> 'w"
  hw_Write :: "bytes \<Rightarrow> 'w \<Rightarrow> 'w"

definition net_http_writer :: "RespWriter http_writer" where
  "net_http_writer = \<lparr>hw_set = rw_set, hw_WriteHeader = rw_WriteHeader, hw_Write = rw_Write\<rparr>"

text \<open>\<^verbatim>\<open>http.StatusText\<close> for the codes the program writes.\<close>

definition StatusText :: "nat \<Rightarrow> string" where
  "StatusText st =
     (if st = 200 then ''OK''
      else if st = 304 then ''Not Modified''
      else if st = 401 then ''Unauthorized''
      else if st = 404 then ''Not Found''
      else if st = 405 then ''Method Not Allowed''
      else if st = 500 then ''Internal Server Error''
      else if st = 503 then ''Service Unavailable''
      else [])"

text \<open>
  The contract of the interface: whatever a writer keeps beside it, the response it sends is
  the one the operations give on \<^typ>\<open>RespWriter\<close>.
\<close>

locale response_writer =
  fixes W :: "'w http_writer"
    and view :: "'w \<Rightarrow> RespWriter"
  assumes view_set: "view (hw_set W k v w) = rw_set k v (view w)"
    and view_WriteHeader: "view (hw_WriteHeader W st w) = rw_WriteHeader st (view w)"
    and view_Write: "view (hw_Write W b w) = rw_Write b (view w)"
begin

lemmas view_simps = view_set view_WriteHeader view_Write

lemma view_method:
  "rw_method (view (hw_set W k v w)) = rw_method (view w)"
  "rw_method (view (hw_WriteHeader W st w)) = rw_method (view w)"
  "rw_method (view (hw_Write W b w)) = rw_method (view w)"
  by (simp_all add: view_simps rw_set_def rw_WriteHeader_def rw_Write_def Let_def)

end

interpretation net_http: response_writer net_http_writer id
  by unfold_locales (simp_all add: net_http_writer_def)

end
