(* ===== verification/Auth.thy ===== *)
theory Auth
  imports Go_Sha256 Go_Http
begin

unbundle bit_operations_syntax

text \<open>
  \<^verbatim>\<open>gateway/internal/auth\<close>: HTTP Basic credentials read from the data of a Secret and
  verified by comparing SHA-256 digests.
\<close>

definition Realm :: string where
  "Realm = ''kube-secret-gateway''"

definition UsernameKey :: string where
  "UsernameKey = ''username''"

definition PasswordKey :: string where
  "PasswordKey = ''password''"

datatype auth_error = ErrMissingUsername | ErrMissingPassword

record Basic =
  b_username :: bytes
  b_password :: bytes

text \<open>A key the Secret does not have reads as the nil slice, of length 0.\<close>

definition data_get :: "(string \<rightharpoonup> bytes) \<Rightarrow> string \<Rightarrow> bytes" where
  "data_get data k = (case data k of None \<Rightarrow> [] | Some v \<Rightarrow> v)"

definition NewBasic :: "(string \<rightharpoonup> bytes) \<Rightarrow> auth_error + Basic" where
  "NewBasic data =
     (let username = data_get data UsernameKey; password = data_get data PasswordKey in
      if length username = 0 then Inl ErrMissingUsername
      else if length password = 0 then Inl ErrMissingPassword
      else Inr \<lparr>b_username = Sum256 username, b_password = Sum256 password\<rparr>)"

text \<open>\<^verbatim>\<open>subtle.ConstantTimeCompare\<close>.\<close>

definition ConstantTimeCompare :: "bytes \<Rightarrow> bytes \<Rightarrow> nat" where
  "ConstantTimeCompare x y = (if x = y then 1 else 0)"

definition Basic_matches :: "Basic \<Rightarrow> string \<Rightarrow> string \<Rightarrow> bool" where
  "Basic_matches b username password =
     (let u = Sum256 username; p = Sum256 password
      in (ConstantTimeCompare u (b_username b) AND ConstantTimeCompare p (b_password b)) = 1)"

definition Verify :: "Basic \<Rightarrow> Request \<Rightarrow> bool" where
  "Verify b r = (case BasicAuth r of
      None \<Rightarrow> False
    | Some (username, password) \<Rightarrow> Basic_matches b username password)"

definition Challenge :: "Basic \<Rightarrow> string" where
  "Challenge b = ''Basic realm='' @ [CHR 0x22] @ Realm @ [CHR 0x22]"

section \<open>Laws\<close>

lemma Basic_matches_iff:
  "Basic_matches b u p \<longleftrightarrow> Sum256 u = b_username b \<and> Sum256 p = b_password b"
  by (simp add: Basic_matches_def ConstantTimeCompare_def Let_def)

lemma NewBasic_Inr:
  "NewBasic data = Inr b \<longleftrightarrow>
     (\<exists>u p. data UsernameKey = Some u \<and> u \<noteq> [] \<and> data PasswordKey = Some p \<and> p \<noteq> []
        \<and> b = \<lparr>b_username = Sum256 u, b_password = Sum256 p\<rparr>)"
  by (auto simp: NewBasic_def data_get_def Let_def split: option.splits)

text \<open>Two byte strings that SHA-256 tells apart if they differ.\<close>

definition no_collision :: "bytes \<Rightarrow> bytes \<Rightarrow> bool" where
  "no_collision x y \<longleftrightarrow> (Sum256 x = Sum256 y \<longrightarrow> x = y)"

lemma no_collision_refl [simp]: "no_collision x x"
  by (simp add: no_collision_def)

end
