(* ===== verification/Clientip.thy ===== *)
theory Clientip
  imports Exposure Go_Http
begin

text \<open>
  \<^verbatim>\<open>gateway/internal/clientip\<close>: the address of the client behind trusted proxies.
  \<open>Resolve\<close> follows the two loops of the code; \<open>hops\<close> is the reference definition, a walk
  over the flattened list of \<^verbatim>\<open>X-Forwarded-For\<close> entries from the right.
\<close>

section \<open>Model\<close>

datatype ip_error = ErrInvalidRemoteAddr | ErrMalformedForwardedFor

definition forwardedForHeader :: string where
  "forwardedForHeader = ''X-Forwarded-For''"

datatype Resolver = Resolver (trusted: "Prefix list")

definition NewResolver :: "Prefix list \<Rightarrow> Resolver" where
  "NewResolver trustedProxies = Resolver trustedProxies"

definition isTrusted :: "Resolver \<Rightarrow> Addr \<Rightarrow> bool" where
  "isTrusted r addr = list_ex (\<lambda>p. Contains p addr) (trusted r)"

definition normalizeAddr :: "Addr \<Rightarrow> Addr" where
  "normalizeAddr a = WithZone (Unmap a) []"

text \<open>
  The outcome of walking one header line: the chain is broken, the client has been found, or
  every entry was a trusted proxy and the leftmost one is the client so far.
\<close>

datatype walk = Broken | Found Addr | Trusted Addr

function walk_line :: "Resolver \<Rightarrow> string \<Rightarrow> walk" where
  "walk_line r line =
     (let idx = LastIndexByte line (CHR '','');
          entry = (case idx of None \<Rightarrow> line | Some i \<Rightarrow> drop (Suc i) line)
      in case ParseAddr (TrimSpace entry) of
          None \<Rightarrow> Broken
        | Some addr \<Rightarrow>
          let client = normalizeAddr addr in
          if \<not> isTrusted r client then Found client
          else case idx of
              None \<Rightarrow> Trusted client
            | Some i \<Rightarrow> walk_line r (take i line))"
  by pat_completeness auto
termination
proof (relation "measure (\<lambda>(r, line). length line)", goal_cases)
  case (2 r line idx entry addr client i)
  then show ?case by (simp add: LastIndexByte_less)
qed simp

declare walk_line.simps [simp del]

text \<open>The header lines from the last to the first; blank lines are skipped.\<close>

fun walk_lines :: "Resolver \<Rightarrow> Addr \<Rightarrow> string list \<Rightarrow> walk" where
  "walk_lines r client [] = Trusted client"
| "walk_lines r client (line # lines) =
     (if TrimSpace line = [] then walk_lines r client lines
      else case walk_line r line of
          Trusted c \<Rightarrow> walk_lines r c lines
        | w \<Rightarrow> w)"

text \<open>The client address, the peer address and the error.\<close>

definition Resolve :: "Resolver \<Rightarrow> Request \<Rightarrow> Addr \<times> Addr \<times> ip_error option" where
  "Resolve r req = (case ParseAddrPort (req_RemoteAddr req) of
      None \<Rightarrow> (ZeroAddr, ZeroAddr, Some ErrInvalidRemoteAddr)
    | Some (addr, port) \<Rightarrow>
      let peer = normalizeAddr addr in
      if \<not> isTrusted r peer then (peer, peer, None)
      else case walk_lines r peer (rev (Header_Values req forwardedForHeader)) of
          Broken \<Rightarrow> (ZeroAddr, peer, Some ErrMalformedForwardedFor)
        | Found c \<Rightarrow> (c, peer, None)
        | Trusted c \<Rightarrow> (c, peer, None))"

section \<open>Reference definition\<close>

text \<open>
  The entries of all lines, right to left. The client is the first one that is no trusted
  proxy; an entry that is no address breaks the chain.
\<close>

fun hops :: "Resolver \<Rightarrow> Addr \<Rightarrow> string list \<Rightarrow> walk" where
  "hops r client [] = Trusted client"
| "hops r client (e # es) =
     (case ParseAddr (TrimSpace e) of
        None \<Rightarrow> Broken
      | Some addr \<Rightarrow>
        if isTrusted r (normalizeAddr addr) then hops r (normalizeAddr addr) es
        else Found (normalizeAddr addr))"

definition entries :: "string list \<Rightarrow> string list" where
  "entries lines = concat (map (\<lambda>l. Split l (CHR '','')) (filter (\<lambda>l. TrimSpace l \<noteq> []) lines))"

lemma hops_append:
  "hops r c (xs @ ys) = (case hops r c xs of Trusted c' \<Rightarrow> hops r c' ys | w \<Rightarrow> w)"
  by (induction xs arbitrary: c) (auto split: option.splits)

lemma walk_line_hops: "walk_line r line = hops r c (rev (Split line (CHR '','')))"
proof (induction r line arbitrary: c rule: walk_line.induct)
  case (1 r line)
  show ?case
  proof (cases "LastIndexByte line (CHR '','')")
    case None
    then have "Split line (CHR '','') = [line]" by (simp add: Split_absent)
    then show ?thesis
      by (subst walk_line.simps) (simp add: None Let_def split: option.splits)
  next
    case (Some i)
    let ?entry = "drop (Suc i) line"
    from LastIndexByte_Some [OF Some]
    have "Split line (CHR '','') = Split (take i line) (CHR '','') @ [?entry]"
      by (metis Split_append_sep Split_absent)
    then have split: "rev (Split line (CHR '','')) = ?entry # rev (Split (take i line) (CHR '',''))"
      by simp
    show ?thesis
    proof (cases "ParseAddr (TrimSpace ?entry)")
      case None
      with Some split show ?thesis by (subst walk_line.simps) (simp add: Let_def)
    next
      case (Some addr)
      note addr = Some
      show ?thesis
      proof (cases "isTrusted r (normalizeAddr addr)")
        case False
        with addr split \<open>LastIndexByte line _ = Some i\<close> show ?thesis
          by (subst walk_line.simps) (simp add: Let_def)
      next
        case True
        with addr \<open>LastIndexByte line _ = Some i\<close>
        have "walk_line r (take i line) = hops r (normalizeAddr addr) (rev (Split (take i line) (CHR '','')))"
          by (intro "1.IH") auto
        with True addr split \<open>LastIndexByte line _ = Some i\<close> show ?thesis
          by (subst walk_line.simps) (simp add: Let_def)
      qed
    qed
  qed
qed

lemma entries_Nil [simp]: "entries [] = []"
  by (simp add: entries_def)

lemma entries_append: "entries (xs @ ys) = entries xs @ entries ys"
  by (simp add: entries_def)

lemma walk_lines_hops: "walk_lines r c lines = hops r c (rev (entries (rev lines)))"
proof (induction lines arbitrary: c)
  case (Cons line lines)
  show ?case
  proof (cases "TrimSpace line = []")
    case True
    with Cons show ?thesis by (simp add: entries_def)
  next
    case False
    then have "rev (entries (rev (line # lines)))
        = rev (Split line (CHR '','')) @ rev (entries (rev lines))"
      by (simp add: entries_def)
    with False Cons show ?thesis
      by (simp add: hops_append walk_line_hops [of r line c] split: walk.splits)
  qed
qed simp

lemma hops_not_trusted: "hops r c es = Found a \<Longrightarrow> \<not> isTrusted r a"
  by (induction es arbitrary: c) (auto split: option.splits if_splits)

section \<open>Properties\<close>

lemma Resolve_hops:
  "Resolve r req = (case ParseAddrPort (req_RemoteAddr req) of
      None \<Rightarrow> (ZeroAddr, ZeroAddr, Some ErrInvalidRemoteAddr)
    | Some (addr, port) \<Rightarrow>
      if isTrusted r (normalizeAddr addr)
      then case hops r (normalizeAddr addr) (rev (entries (req_Header req forwardedForHeader))) of
          Broken \<Rightarrow> (ZeroAddr, normalizeAddr addr, Some ErrMalformedForwardedFor)
        | Found c \<Rightarrow> (c, normalizeAddr addr, None)
        | Trusted c \<Rightarrow> (c, normalizeAddr addr, None)
      else (normalizeAddr addr, normalizeAddr addr, None))"
  by (simp add: Resolve_def Let_def walk_lines_hops Header_Values_def split: option.splits prod.splits)

text \<open>
  C31: equivalence. The two nested loops over header lines and commas compute the same as one walk
  from the right over the flattened list of entries.
\<close>

theorem Resolve_reference:
  "Resolve r req = (case ParseAddrPort (req_RemoteAddr req) of
      None \<Rightarrow> (ZeroAddr, ZeroAddr, Some ErrInvalidRemoteAddr)
    | Some (addr, port) \<Rightarrow>
      if isTrusted r (normalizeAddr addr)
      then case hops r (normalizeAddr addr) (rev (entries (req_Header req forwardedForHeader))) of
          Broken \<Rightarrow> (ZeroAddr, normalizeAddr addr, Some ErrMalformedForwardedFor)
        | Found c \<Rightarrow> (c, normalizeAddr addr, None)
        | Trusted c \<Rightarrow> (c, normalizeAddr addr, None)
      else (normalizeAddr addr, normalizeAddr addr, None))"
  by (rule Resolve_hops)

lemma hops_trusted: "hops r c es = Trusted a \<Longrightarrow> isTrusted r c \<Longrightarrow> isTrusted r a"
  by (induction es arbitrary: c) (auto split: option.splits if_splits)

lemma entries_more:
  assumes "TrimSpace line \<noteq> []"
  shows "\<exists>left. entries (extra @ (junk @ CHR '','' # line) # rest) = left @ entries (line # rest)"
proof -
  have "TrimSpace (junk @ CHR '','' # line) \<noteq> []"
    by (rule TrimSpace_not_blank [of "CHR '',''"]) (simp_all add: visible_def)
  then have "entries (extra @ (junk @ CHR '','' # line) # rest)
      = (entries extra @ Split junk (CHR '','')) @ entries (line # rest)"
    using assms by (simp add: entries_def Split_append_sep)
  then show ?thesis by blast
qed

text \<open>
  C30: no spoofing. When the resolved client is not itself a trusted proxy, nothing that client
  could have put into the \<^verbatim>\<open>X-Forwarded-For\<close> header before the first trusted proxy appended
  its entry changes the result: neither additional header lines nor any text, however malformed,
  in front of a comma of the line the proxy extended.
\<close>

theorem Resolve_no_spoofing:
  assumes "Resolve r req = (client, peer, None)" and "\<not> isTrusted r client"
    and "req_Header req forwardedForHeader = line # rest" and "TrimSpace line \<noteq> []"
  shows "Resolve r (req\<lparr>req_Header := (req_Header req)
      (forwardedForHeader := extra @ (junk @ CHR '','' # line) # rest)\<rparr>) = (client, peer, None)"
proof -
  let ?req = "req\<lparr>req_Header := (req_Header req)(forwardedForHeader := extra @ (junk @ CHR '','' # line) # rest)\<rparr>"
  obtain left where left: "entries (extra @ (junk @ CHR '','' # line) # rest) = left @ entries (line # rest)"
    using entries_more [OF assms(4)] by blast
  from assms(1) obtain addr port where a: "ParseAddrPort (req_RemoteAddr req) = Some (addr, port)"
    by (auto simp: Resolve_hops split: option.splits prod.splits)
  show ?thesis
  proof (cases "isTrusted r (normalizeAddr addr)")
    case False
    with assms(1) a show ?thesis by (auto simp: Resolve_hops)
  next
    case True
    let ?h = "hops r (normalizeAddr addr) (rev (entries (line # rest)))"
    have "?h = Found client"
      using assms(1-3) a True hops_trusted [OF _ True, of "rev (entries (line # rest))"]
      by (auto simp: Resolve_hops split: walk.splits)
    then have "hops r (normalizeAddr addr) (rev (entries (extra @ (junk @ CHR '','' # line) # rest))) = Found client"
      by (simp add: left hops_append)
    with assms(1) a True show ?thesis by (auto simp: Resolve_hops split: walk.splits)
  qed
qed

definition ex_request :: "string list \<Rightarrow> Request" where
  "ex_request forwarded = \<lparr>req_Method = ''GET'',
     req_URL = \<lparr>url_Path = ''/exposures/app'', url_RawPath = [], url_ForceQuery = False, url_RawQuery = []\<rparr>,
     req_Header = (\<lambda>_. [])(forwardedForHeader := forwarded),
     req_ContentLength = 0, req_TransferEncoding = [], req_RemoteAddr = ''10.0.0.1:80''\<rparr>"

lemma ex_resolve:
  "Resolve (Resolver [Prefix (Addr4 0x0A000000) 8]) (ex_request [''8.8.8.8,10.0.0.2''])
    = (Addr4 0x08080808, Addr4 0x0A000001, None)"
  by (simp add: Resolve_hops ex_request_def entries_def normalizeAddr_def isTrusted_def
      visible_def eval_simps)

theorem Resolve_no_spoofing_witness:
  "Resolve (Resolver [Prefix (Addr4 0x0A000000) 8])
     (ex_request [''127.0.0.1'', ''9.9.9.9,,evil,8.8.8.8,10.0.0.2'']) = (Addr4 0x08080808, Addr4 0x0A000001, None)"
proof -
  have "TrimSpace ''8.8.8.8,10.0.0.2'' \<noteq> []"
    by (rule TrimSpace_not_blank [of "CHR ''8''"]) (simp_all add: visible_def)
  with Resolve_no_spoofing [OF ex_resolve, where line = "''8.8.8.8,10.0.0.2''" and rest = "[]"
      and extra = "[''127.0.0.1'']" and junk = "''9.9.9.9,,evil''"]
  show ?thesis by (simp add: ex_request_def isTrusted_def)
qed

end
