(* ===== verification/Resources.thy ===== *)
theory Resources
  imports Exposure
begin

text \<open>
  \<^verbatim>\<open>gateway/internal/resources/manager.go\<close>, first part: the data, the operations on the
  state of one Secret, the retry delays and the rendering of errors. The goroutines that call
  these operations are in the theory \<open>Manager\<close>.

  Objects of the Kubernetes API carry the fields the code reads. An error of the API client is
  what the code observes of it: its text, the status it may carry (\<^verbatim>\<open>errors.As\<close> to
  \<^verbatim>\<open>APIStatus\<close>), and whether \<^verbatim>\<open>apierrors.IsNotFound\<close> holds. The result of a
  client call, the state of the context after it and the time are arguments. Log output is not
  modelled, the texts it is given by \<open>describeError\<close> are.
\<close>

section \<open>Data\<close>

record k8s_Secret =
  s_Namespace :: string
  s_Name :: string
  s_ResourceVersion :: string
  s_UID :: string
  s_Data :: "string \<rightharpoonup> bytes"

record k8s_Status =
  st_Code :: int
  st_Reason :: string
  st_Message :: string

datatype api_object = SecretObject k8s_Secret | NilSecret | StatusObject k8s_Status | OtherObject string

datatype event_type = Added | Modified | Deleted | Bookmark | ErrorEvent | OtherEvent string

record Event =
  ev_Type :: event_type
  ev_Object :: api_object

record SecretList =
  l_Items :: "k8s_Secret list"
  l_ResourceVersion :: string

record api_error =
  e_Text :: string
  e_Status :: "k8s_Status option"
  e_NotFound :: bool

record Secret =
  sec_Present :: bool
  sec_Synced :: bool
  sec_Data :: "string \<rightharpoonup> bytes"
  sec_ResourceVersion :: string
  sec_UID :: string

definition zero_Secret :: Secret where
  "zero_Secret = \<lparr>sec_Present = False, sec_Synced = False, sec_Data = Map.empty,
     sec_ResourceVersion = [], sec_UID = []\<rparr>"

record Status =
  sts_Ref :: SecretRef
  sts_Present :: bool
  sts_Synced :: bool
  sts_WatchConnected :: bool
  sts_LastSuccessfulSync :: "int option"
  sts_WatchErrors :: "64 word"
  sts_SyncErrors :: "64 word"

record Options =
  ReconcileInterval :: duration
  RequestTimeout :: duration
  WatchTimeout :: duration
  InitialBackoff :: duration
  MaxBackoff :: duration
  StableWatchDuration :: duration

definition default_duration :: "duration \<Rightarrow> duration \<Rightarrow> duration" where
  "default_duration d v = (if d \<le> 0 then v else d)"

definition withDefaults :: "Options \<Rightarrow> Options" where
  "withDefaults opts =
     (let ib = default_duration (InitialBackoff opts) second;
          mb = default_duration (MaxBackoff opts) (30 * second)
      in \<lparr>ReconcileInterval = default_duration (ReconcileInterval opts) (5 * minute),
          RequestTimeout = default_duration (RequestTimeout opts) (30 * second),
          WatchTimeout = default_duration (WatchTimeout opts) (5 * minute),
          InitialBackoff = ib,
          MaxBackoff = max mb ib,
          StableWatchDuration = default_duration (StableWatchDuration opts) minute\<rparr>)"

definition watchDeadlineGrace :: duration where
  "watchDeadlineGrace = 30 * second"

section \<open>The state of one Secret\<close>

text \<open>
  \<open>r_initOnce\<close> and \<open>r_synced\<close> are the two \<^verbatim>\<open>sync.Once\<close> values: the first is true once
  \<^verbatim>\<open>initDone\<close> has run, the second is the channel that \<^verbatim>\<open>syncedOnce\<close> closes, with
  \<open>r_syncedOnce\<close> its guard. A \<^verbatim>\<open>lastSync\<close> of \<^const>\<open>None\<close> is the zero time.
\<close>

record resource =
  r_ref :: SecretRef
  r_initOnce :: bool
  r_syncedOnce :: bool
  r_synced :: channel
  r_secret :: Secret
  r_connected :: bool
  r_lastSync :: "int option"
  r_watchErrors :: "64 word"
  r_syncErrors :: "64 word"

definition new_resource :: "SecretRef \<Rightarrow> resource" where
  "new_resource ref = \<lparr>r_ref = ref, r_initOnce = False, r_syncedOnce = False, r_synced = Open,
     r_secret = zero_Secret, r_connected = False, r_lastSync = None, r_watchErrors = 0,
     r_syncErrors = 0\<rparr>"

definition matches :: "resource \<Rightarrow> k8s_Secret \<Rightarrow> bool" where
  "matches r s \<longleftrightarrow> s_Name s = Name (r_ref r)
     \<and> (s_Namespace s = [] \<or> s_Namespace s = Namespace (r_ref r))"

definition snapshot_of :: "k8s_Secret option \<Rightarrow> Secret" where
  "snapshot_of obj = (case obj of
      None \<Rightarrow> zero_Secret\<lparr>sec_Synced := True\<rparr>
    | Some s \<Rightarrow> \<lparr>sec_Present = True, sec_Synced = True, sec_Data = s_Data s,
        sec_ResourceVersion = s_ResourceVersion s, sec_UID = s_UID s\<rparr>)"

text \<open>\<^verbatim>\<open>store\<close>: the previous snapshot, the current one, and the new state.\<close>

definition store :: "k8s_Secret option \<Rightarrow> bool \<Rightarrow> int \<Rightarrow> resource \<Rightarrow> Secret \<times> Secret \<times> resource" where
  "store obj fullSync now r =
     (let cur = snapshot_of obj;
          prev = r_secret r;
          r1 = r\<lparr>r_secret := cur, r_lastSync := (if fullSync then Some now else r_lastSync r)\<rparr>;
          r2 = (if r_syncedOnce r1 then r1
                else r1\<lparr>r_syncedOnce := True, r_synced := close_chan (r_synced r1)\<rparr>)
      in (prev, cur, r2))"

definition snapshot :: "resource \<Rightarrow> Secret" where
  "snapshot r = r_secret r"

definition status :: "resource \<Rightarrow> Status" where
  "status r = \<lparr>sts_Ref = r_ref r, sts_Present = sec_Present (r_secret r),
     sts_Synced = sec_Synced (r_secret r), sts_WatchConnected = r_connected r,
     sts_LastSuccessfulSync = r_lastSync r, sts_WatchErrors = r_watchErrors r,
     sts_SyncErrors = r_syncErrors r\<rparr>"

definition setConnected :: "bool \<Rightarrow> resource \<Rightarrow> resource" where
  "setConnected v r = r\<lparr>r_connected := v\<rparr>"

definition recordWatchError :: "resource \<Rightarrow> resource" where
  "recordWatchError r = r\<lparr>r_watchErrors := r_watchErrors r + 1\<rparr>"

definition recordSyncError :: "resource \<Rightarrow> resource" where
  "recordSyncError r = r\<lparr>r_syncErrors := r_syncErrors r + 1\<rparr>"

section \<open>List, watch events and reconciliation\<close>

text \<open>
  \<^verbatim>\<open>list\<close> after the client has answered: the resource version to watch from, or
  \<^const>\<open>None\<close> for an error. \<open>cancelled\<close> is \<^verbatim>\<open>ctx.Err() != nil\<close> at that moment. A
  panicking client is handled by the caller, see \<open>Manager\<close>.
\<close>

definition list_fails :: "bool \<Rightarrow> resource \<Rightarrow> resource" where
  "list_fails cancelled r = (if cancelled then r else recordSyncError r)"

definition list_secret :: "(api_error, SecretList option) call \<Rightarrow> bool \<Rightarrow> int \<Rightarrow> resource
    \<Rightarrow> string option \<times> resource" where
  "list_secret answer cancelled now r = (case answer of
      Returns (Some l) \<Rightarrow>
        let found = find (matches r) (l_Items l) in
        if found = None \<and> 0 < length (l_Items l) then (None, recordSyncError r)
        else (case store found True now r of (prev, cur, r') \<Rightarrow> (Some (l_ResourceVersion l), r'))
    | _ \<Rightarrow> (None, list_fails cancelled r))"

text \<open>\<^verbatim>\<open>handleEvent\<close>: whether the watch goes on, and the new state.\<close>

definition handleEvent :: "Event \<Rightarrow> int \<Rightarrow> resource \<Rightarrow> bool \<times> resource" where
  "handleEvent ev now r =
     (if ev_Type ev \<in> {Added, Modified, Deleted} then
        (case ev_Object ev of
           SecretObject s \<Rightarrow>
             if \<not> matches r s then (False, recordWatchError r)
             else (case store (if ev_Type ev = Deleted then None else Some s) False now r of
                 (prev, cur, r') \<Rightarrow> (True, r'))
         | _ \<Rightarrow> (False, recordWatchError r))
      else if ev_Type ev = Bookmark then (True, r)
      else (False, recordWatchError r))"

text \<open>\<^verbatim>\<open>reconcile\<close>: false when drift was found, so that the watch is replaced.\<close>

definition reconcile_store :: "k8s_Secret option \<Rightarrow> int \<Rightarrow> resource \<Rightarrow> bool \<times> resource" where
  "reconcile_store s now r = (case store s True now r of (prev, cur, r') \<Rightarrow>
     (\<not> (sec_Present prev \<noteq> sec_Present cur
          \<or> sec_ResourceVersion prev \<noteq> sec_ResourceVersion cur), r'))"

definition reconcile :: "(api_error, k8s_Secret option) call \<Rightarrow> bool \<Rightarrow> int \<Rightarrow> resource
    \<Rightarrow> bool \<times> resource" where
  "reconcile answer cancelled now r = (case answer of
      Fails e \<Rightarrow>
        if e_NotFound e then reconcile_store None now r
        else (True, if cancelled then r else recordSyncError r)
    | Returns (Some s) \<Rightarrow>
        if matches r s then reconcile_store (Some s) now r else (True, recordSyncError r)
    | _ \<Rightarrow> (True, recordSyncError r))"

section \<open>Retry delays\<close>

record backoff =
  bo_initial :: duration
  bo_max :: duration
  bo_current :: duration

text \<open>\<^verbatim>\<open>next\<close>: the delay, \<^const>\<open>None\<close> for a panic of \<^verbatim>\<open>rand.N\<close>, and the new state.\<close>

definition backoff_next :: "nat \<Rightarrow> backoff \<Rightarrow> duration option \<times> backoff" where
  "backoff_next e b =
     (let current = (if bo_current b = 0 then bo_initial b
                     else min (wrap64 (2 * bo_current b)) (bo_max b));
          half = go_div current 2
      in (map_option (\<lambda>x. half + x) (rand_N e (current - half + 1)), b\<lparr>bo_current := current\<rparr>))"

definition backoff_reset :: "backoff \<Rightarrow> backoff" where
  "backoff_reset b = b\<lparr>bo_current := 0\<rparr>"

definition jitter :: "nat \<Rightarrow> duration \<Rightarrow> duration option" where
  "jitter e d = map_option (\<lambda>x. d - go_div d 10 + x) (rand_N e (go_div d 5 + 1))"

section \<open>Rendering errors\<close>

definition redact_cut :: "string \<Rightarrow> string" where
  "redact_cut s = (case IndexByte s (CHR 0x7B) of
      Some i \<Rightarrow> take i s @ ''[redacted]''
    | None \<Rightarrow> s)"

definition redact :: "string \<Rightarrow> string" where
  "redact s =
     (let t = redact_cut s
      in if 512 < length t then ToValidUTF8 (take 512 t) @ ''...'' else t)"

definition int_string :: "int \<Rightarrow> string" where
  "int_string n = (if n < 0 then CHR ''-'' # Itoa (nat (- n)) else Itoa (nat n))"

definition status_text :: "k8s_Status \<Rightarrow> string" where
  "status_text s = int_string (st_Code s) @ '' '' @ st_Reason s @ '': '' @ st_Message s"

definition describeError :: "api_error \<Rightarrow> string" where
  "describeError err = (case e_Status err of
      Some s \<Rightarrow> redact (status_text s)
    | None \<Rightarrow> redact (e_Text err))"

fun object_type :: "api_object \<Rightarrow> string" where
  "object_type (SecretObject s) = ''*v1.Secret''"
| "object_type NilSecret = ''*v1.Secret''"
| "object_type (StatusObject s) = ''*v1.Status''"
| "object_type (OtherObject t) = t"

definition describeWatchError :: "api_object \<Rightarrow> string" where
  "describeWatchError obj = (case obj of
      StatusObject s \<Rightarrow> redact (status_text s)
    | _ \<Rightarrow> ''unexpected error object of type '' @ object_type obj)"

section \<open>Well-formed state\<close>

definition secret_wf :: "Secret \<Rightarrow> bool" where
  "secret_wf s \<longleftrightarrow> (sec_Present s \<longrightarrow> sec_Synced s)
     \<and> (\<not> sec_Present s \<longrightarrow> sec_Data s = Map.empty \<and> sec_ResourceVersion s = [] \<and> sec_UID s = [])"

text \<open>The channel is closed exactly when the state has been established, and never twice.\<close>

definition resource_wf :: "resource \<Rightarrow> bool" where
  "resource_wf r \<longleftrightarrow> secret_wf (r_secret r) \<and> sec_Synced (r_secret r) = r_syncedOnce r
     \<and> r_synced r = (if r_syncedOnce r then Closed else Open)"

named_theorems resource_frame "what the operations keep of a resource"

lemma secret_wf_snapshot_of [simp]: "secret_wf (snapshot_of obj)"
  by (auto simp: secret_wf_def snapshot_of_def zero_Secret_def split: option.splits)

lemma snapshot_of_simps [simp]:
  "sec_Synced (snapshot_of obj)" "sec_Present (snapshot_of obj) \<longleftrightarrow> obj \<noteq> None"
  by (auto simp: snapshot_of_def zero_Secret_def split: option.splits)

lemma resource_wf_new [simp]: "resource_wf (new_resource ref)"
  by (simp add: resource_wf_def new_resource_def secret_wf_def zero_Secret_def)

lemma new_resource_simps [simp]:
  "r_ref (new_resource ref) = ref" "\<not> r_initOnce (new_resource ref)"
  "\<not> r_connected (new_resource ref)" "r_secret (new_resource ref) = zero_Secret"
  by (simp_all add: new_resource_def)

lemma store_cases:
  assumes "store obj full now r = (prev, cur, r')"
  shows "prev = r_secret r" and "cur = snapshot_of obj" and "r_secret r' = snapshot_of obj"
    and "r_ref r' = r_ref r" and "r_initOnce r' = r_initOnce r" and "r_connected r' = r_connected r"
    and "resource_wf r \<Longrightarrow> resource_wf r'"
    and "r_lastSync r' = (if full then Some now else r_lastSync r)"
    and "r_watchErrors r' = r_watchErrors r" and "r_syncErrors r' = r_syncErrors r"
  using assms by (auto simp: store_def Let_def resource_wf_def split: if_splits)

lemma set_record_frame [simp]:
  "r_ref (setConnected v r) = r_ref r" "r_ref (recordWatchError r) = r_ref r"
  "r_ref (recordSyncError r) = r_ref r"
  "r_initOnce (setConnected v r) = r_initOnce r" "r_initOnce (recordWatchError r) = r_initOnce r"
  "r_initOnce (recordSyncError r) = r_initOnce r"
  "r_secret (setConnected v r) = r_secret r" "r_secret (recordWatchError r) = r_secret r"
  "r_secret (recordSyncError r) = r_secret r"
  "r_connected (setConnected v r) = v" "r_connected (recordWatchError r) = r_connected r"
  "r_connected (recordSyncError r) = r_connected r"
  "resource_wf (setConnected v r) = resource_wf r" "resource_wf (recordWatchError r) = resource_wf r"
  "resource_wf (recordSyncError r) = resource_wf r"
  by (simp_all add: setConnected_def recordWatchError_def recordSyncError_def resource_wf_def)

text \<open>
  What \<^verbatim>\<open>list\<close>, \<^verbatim>\<open>handleEvent\<close> and \<^verbatim>\<open>reconcile\<close> have in common: they keep the
  identity of the resource, the first-attempt flag, the connection flag and the invariant.
\<close>

definition same_resource :: "resource \<Rightarrow> resource \<Rightarrow> bool" where
  "same_resource r r' \<longleftrightarrow> r_ref r' = r_ref r \<and> r_initOnce r' = r_initOnce r
     \<and> r_connected r' = r_connected r \<and> (resource_wf r \<longrightarrow> resource_wf r')"

lemma same_resource_refl [simp]: "same_resource r r"
  by (simp add: same_resource_def)

lemma same_resource_record [simp]:
  "same_resource r (recordWatchError r)" "same_resource r (recordSyncError r)"
  by (simp_all add: same_resource_def)

lemma same_resource_store: "store obj full now r = (prev, cur, r') \<Longrightarrow> same_resource r r'"
  by (simp add: same_resource_def store_cases)

lemma list_secret_same: "list_secret a c now r = (rv, r') \<Longrightarrow> same_resource r r'"
  by (auto simp: list_secret_def list_fails_def Let_def same_resource_store
      split: call.splits option.splits if_splits prod.splits)

lemma handleEvent_same: "handleEvent ev now r = (ok, r') \<Longrightarrow> same_resource r r'"
  by (auto simp: handleEvent_def same_resource_store
      split: api_object.splits if_splits prod.splits)

lemma reconcile_same: "reconcile a c now r = (ok, r') \<Longrightarrow> same_resource r r'"
  by (auto simp: reconcile_def reconcile_store_def same_resource_store
      split: call.splits option.splits if_splits prod.splits)

section \<open>Delays\<close>

lemma backoff_next_ok:
  assumes "backoff_next e b = (d, b')" and "0 < bo_initial b" and "bo_initial b \<le> bo_max b"
    and "bo_max b < 2 ^ 62" and "0 \<le> bo_current b" and "bo_current b \<le> bo_max b"
  shows "bo_initial b' = bo_initial b" and "bo_max b' = bo_max b"
    and "bo_current b' = (if bo_current b = 0 then bo_initial b else min (2 * bo_current b) (bo_max b))"
    and "0 < bo_current b'" and "bo_current b' \<le> bo_max b"
    and "\<exists>x. d = Some x \<and> bo_current b' div 2 \<le> x \<and> x \<le> bo_current b'"
proof -
  define c where "c = (if bo_current b = 0 then bo_initial b else min (2 * bo_current b) (bo_max b))"
  have w: "wrap64 (2 * bo_current b) = 2 * bo_current b"
    using assms by (intro wrap64_id) auto
  have pos: "0 < c" "c \<le> bo_max b" using assms by (auto simp: c_def)
  have "backoff_next e b =
      (map_option (\<lambda>x. go_div c 2 + x) (rand_N e (c - go_div c 2 + 1)), b\<lparr>bo_current := c\<rparr>)"
    unfolding backoff_next_def Let_def w c_def by simp
  with assms(1) pos have eq: "d = map_option (\<lambda>x. c div 2 + x) (rand_N e (c - c div 2 + 1))"
      "b' = b\<lparr>bo_current := c\<rparr>"
    by simp_all
  have n: "0 < c - c div 2 + 1" using pos by linarith
  define y where "y = int e mod (c - c div 2 + 1)"
  have y: "0 \<le> y" "y < c - c div 2 + 1"
    unfolding y_def by (rule pos_mod_sign [OF n], rule pos_mod_bound [OF n])
  have "d = Some (c div 2 + y)" using n by (simp add: eq y_def)
  with y show "\<exists>x. d = Some x \<and> bo_current b' div 2 \<le> x \<and> x \<le> bo_current b'"
    using eq(2) by simp
  show "bo_initial b' = bo_initial b" "bo_max b' = bo_max b"
    "bo_current b' = (if bo_current b = 0 then bo_initial b else min (2 * bo_current b) (bo_max b))"
    by (simp_all add: eq(2) c_def)
  show "0 < bo_current b'" "bo_current b' \<le> bo_max b" using pos by (simp_all add: eq(2))
qed

text \<open>The delays of consecutive failures, one draw of entropy each.\<close>

fun delays :: "nat list \<Rightarrow> backoff \<Rightarrow> duration option list" where
  "delays [] b = []"
| "delays (e # es) b = (case backoff_next e b of (d, b') \<Rightarrow> d # delays es b')"

definition cap_delay :: "backoff \<Rightarrow> nat \<Rightarrow> duration" where
  "cap_delay b n = min (bo_initial b * 2 ^ n) (bo_max b)"

definition in_range :: "duration \<Rightarrow> duration \<Rightarrow> duration option \<Rightarrow> bool" where
  "in_range lo hi d = (case d of None \<Rightarrow> False | Some x \<Rightarrow> lo \<le> x \<and> x \<le> hi)"

lemma delays_running:
  assumes "0 < bo_initial b" and "bo_initial b \<le> bo_max b" and "bo_max b < 2 ^ 62"
    and "bo_current b = cap_delay b n" and "i < length es"
  shows "in_range (cap_delay b (Suc (n + i)) div 2) (cap_delay b (Suc (n + i))) (delays es b ! i)"
  using assms
proof (induction es arbitrary: b n i)
  case Nil
  then show ?case by simp
next
  case (Cons e es)
  obtain d b' where n: "backoff_next e b = (d, b')" by fastforce
  have cur: "0 < bo_current b" "bo_current b \<le> bo_max b" using Cons.prems by (simp_all add: cap_delay_def)
  note ok = backoff_next_ok [OF n Cons.prems(1-3) less_imp_le [OF cur(1)] cur(2)]
  have cur': "bo_current b' = cap_delay b' (Suc n)"
    using ok(1-3) cur Cons.prems(1,4) by (auto simp: cap_delay_def min_def)
  have same: "cap_delay b' = cap_delay b" using ok(1,2) by (simp add: cap_delay_def fun_eq_iff)
  show ?case
  proof (cases i)
    case 0
    with ok(6) cur' same n show ?thesis by (auto simp: in_range_def)
  next
    case (Suc j)
    have "in_range (cap_delay b' (Suc (Suc n + j)) div 2) (cap_delay b' (Suc (Suc n + j))) (delays es b' ! j)"
      using Cons.IH [of b' "Suc n" j] Cons.prems ok(1,2) cur' Suc by simp
    with n same Suc show ?thesis by simp
  qed
qed

text \<open>
  Back-off. Starting from a reset state, the delay before retry number \<open>n\<close> (counted from 0)
  lies between one half and the whole of the initial back-off doubled \<open>n\<close> times and capped at the
  maximum; it is always drawn without a panic and never overflows.
\<close>

theorem backoff_delay_bounds:
  assumes "0 < bo_initial b" and "bo_initial b \<le> bo_max b" and "bo_max b < 2 ^ 62" and "n < length es"
  shows "in_range (cap_delay b n div 2) (cap_delay b n) (delays es (backoff_reset b) ! n)"
proof (cases es)
  case Nil
  with assms show ?thesis by simp
next
  case (Cons e es')
  let ?b = "backoff_reset b"
  obtain d b' where n: "backoff_next e ?b = (d, b')" by fastforce
  have b: "bo_initial ?b = bo_initial b" "bo_max ?b = bo_max b" "bo_current ?b = 0"
    by (simp_all add: backoff_reset_def)
  note ok = backoff_next_ok [OF n, unfolded b, OF assms(1-3)]
  have cur': "bo_current b' = cap_delay b' 0" and same: "cap_delay b' = cap_delay b"
    using ok(1-3) assms by (simp_all add: cap_delay_def fun_eq_iff)
  show ?thesis
  proof (cases n)
    case 0
    with ok(6) cur' same n Cons assms show ?thesis by (auto simp: in_range_def)
  next
    case (Suc j)
    with delays_running [of b' 0 j es'] ok(1,2) assms cur' same n Cons show ?thesis by simp
  qed
qed

theorem backoff_delay_bounds_witness:
  "in_range 2 4 (delays [7, 8, 9] (backoff_reset \<lparr>bo_initial = 1, bo_max = 30, bo_current = 16\<rparr>) ! 2)"
  using backoff_delay_bounds [of "\<lparr>bo_initial = 1, bo_max = 30, bo_current = 16\<rparr>" 2 "[7, 8, 9]"]
  by (simp add: cap_delay_def)

lemma jitter_range:
  assumes "0 < d"
  shows "\<exists>x. jitter e d = Some x \<and> 9 * d \<le> 10 * x \<and> 10 * x \<le> 11 * d + 10"
proof -
  define y where "y = int e mod (d div 5 + 1)"
  have n: "0 < d div 5 + 1" using assms by (simp add: pos_imp_zdiv_nonneg_iff add_nonneg_pos)
  have y: "0 \<le> y" "y < d div 5 + 1"
    unfolding y_def by (rule pos_mod_sign [OF n], rule pos_mod_bound [OF n])
  have "jitter e d = Some (d - d div 10 + y)" using assms n by (simp add: jitter_def y_def)
  moreover define q10 q5 where "q10 = d div 10" and "q5 = d div 5"
  have q: "10 * q10 \<le> d" "d < 10 * q10 + 10" "5 * q5 \<le> d" "y < q5 + 1"
    using y(2) unfolding q10_def q5_def by (presburger, presburger, presburger, simp)
  have "9 * d \<le> 10 * (d - q10 + y)" "10 * (d - q10 + y) \<le> 11 * d + 10"
    using q y(1) by (simp_all only: right_diff_distrib distrib_left)
  then have "9 * d \<le> 10 * (d - d div 10 + y)" "10 * (d - d div 10 + y) \<le> 11 * d + 10"
    by (simp_all only: q10_def)
  ultimately show ?thesis by blast
qed

section \<open>What error texts may contain\<close>

lemma redact_cut_append:
  assumes "CHR 0x7B \<notin> set pre"
  shows "redact_cut (pre @ CHR 0x7B # rest) = pre @ ''[redacted]''"
  using assms by (simp add: redact_cut_def IndexByte_append)

lemma redact_cut_no_brace: "CHR 0x7B \<notin> set (redact_cut s)"
  by (auto simp: redact_cut_def dest: IndexByte_Some split: option.splits)

lemma redact_no_brace: "CHR 0x7B \<notin> set (redact s)"
  using redact_cut_no_brace [of s] ToValidUTF8_set [of "take 512 (redact_cut s)"]
  by (auto simp: redact_def Let_def dest: in_set_takeD)

lemma redact_length: "length (redact s) \<le> 515"
  using ToValidUTF8_length [of "take 512 (redact_cut s)"] by (simp add: redact_def Let_def)

definition error_text :: "api_error \<Rightarrow> string" where
  "error_text err = (case e_Status err of Some s \<Rightarrow> status_text s | None \<Rightarrow> e_Text err)"

lemma describeError_text: "describeError err = redact (error_text err)"
  by (simp add: describeError_def error_text_def split: option.split)

lemma redact_brace:
  assumes "CHR 0x7B \<in> set s"
  shows "redact_cut s = takeWhile (\<lambda>c. c \<noteq> CHR 0x7B) s @ ''[redacted]''"
proof -
  let ?p = "takeWhile (\<lambda>c. c \<noteq> CHR 0x7B) s"
  have "?p @ CHR 0x7B # tl (dropWhile (\<lambda>c. c \<noteq> CHR 0x7B) s) = s"
    using assms by (induction s) auto
  moreover have "redact_cut (?p @ CHR 0x7B # tl (dropWhile (\<lambda>c. c \<noteq> CHR 0x7B) s)) = ?p @ ''[redacted]''"
    by (rule redact_cut_append) (auto dest: set_takeWhileD)
  ultimately show ?thesis by simp
qed

text \<open>
  C35: confidentiality of logs. The text the code logs for an error of the API client contains no
  opening brace and is at most 515 bytes long, and two errors whose texts agree up to their first
  opening brace are logged alike: whatever follows it, which is where a decoding error embeds the
  body of a Secret, has no influence.
\<close>

theorem describeError_redacts:
  assumes "CHR 0x7B \<in> set (error_text err)" and "CHR 0x7B \<in> set (error_text err')"
    and "takeWhile (\<lambda>c. c \<noteq> CHR 0x7B) (error_text err) = takeWhile (\<lambda>c. c \<noteq> CHR 0x7B) (error_text err')"
  shows "describeError err = describeError err'
    \<and> CHR 0x7B \<notin> set (describeError any) \<and> length (describeError any) \<le> 515"
proof -
  have "redact_cut (error_text err) = redact_cut (error_text err')"
    using assms by (simp add: redact_brace)
  then have "redact (error_text err) = redact (error_text err')" by (simp add: redact_def)
  then show ?thesis by (simp add: describeError_text redact_no_brace redact_length)
qed

theorem describeError_redacts_witness:
  "describeError \<lparr>e_Text = ''decode {k: v}'', e_Status = None, e_NotFound = False\<rparr>
   = describeError \<lparr>e_Text = ''decode {'', e_Status = None, e_NotFound = False\<rparr>"
  using describeError_redacts [of "\<lparr>e_Text = ''decode {k: v}'', e_Status = None, e_NotFound = False\<rparr>"
      "\<lparr>e_Text = ''decode {'', e_Status = None, e_NotFound = False\<rparr>"]
  by (simp add: error_text_def)

section \<open>Reconciliation\<close>

lemma reconcile_store_result:
  assumes "reconcile_store obj now r = (ok, r')"
  shows "r_secret r' = snapshot_of obj" and "r_lastSync r' = Some now"
    and "ok = (sec_Present (r_secret r) = (obj \<noteq> None)
      \<and> sec_ResourceVersion (r_secret r) = sec_ResourceVersion (snapshot_of obj))"
proof -
  obtain prev cur r2 where st: "store obj True now r = (prev, cur, r2)" by (cases "store obj True now r")
  note c = store_cases [OF st]
  from assms st have e: "ok = (\<not> (sec_Present prev \<noteq> sec_Present cur
      \<or> sec_ResourceVersion prev \<noteq> sec_ResourceVersion cur))" "r' = r2"
    by (simp_all add: reconcile_store_def)
  show "r_secret r' = snapshot_of obj" "r_lastSync r' = Some now" using c(3,8) e(2) by simp_all
  show "ok = (sec_Present (r_secret r) = (obj \<noteq> None)
      \<and> sec_ResourceVersion (r_secret r) = sec_ResourceVersion (snapshot_of obj))"
    unfolding e(1) c(1,2) by simp
qed

text \<open>
  Reconciliation. Whatever \<^verbatim>\<open>GetSecret\<close> answers, the watch is given up exactly when the
  answer was authoritative (the Secret itself, or not found) and differs from the cache in presence
  or resource version; the cache then holds the answer. On every other answer the cached Secret and
  the time of the last full synchronization are kept.
\<close>

theorem reconcile_behaviour:
  fixes authoritative :: "k8s_Secret option option"
  assumes "reconcile answer cancelled now r = (ok, r')"
    and "authoritative = (case answer of
        Returns (Some s) \<Rightarrow> if matches r s then Some (Some s) else None
      | Fails err \<Rightarrow> if e_NotFound err then Some None else None
      | _ \<Rightarrow> None)"
  shows "case authoritative of
      None \<Rightarrow> ok \<and> r_secret r' = r_secret r \<and> r_lastSync r' = r_lastSync r
    | Some obj \<Rightarrow> r_secret r' = snapshot_of obj \<and> r_lastSync r' = Some now
        \<and> ok = (sec_Present (r_secret r) = (obj \<noteq> None)
            \<and> sec_ResourceVersion (r_secret r) = sec_ResourceVersion (snapshot_of obj))"
  using assms
  by (auto simp: reconcile_def reconcile_store_result(1,2) recordSyncError_def
      dest: reconcile_store_result(3) split: call.splits option.splits if_splits)

theorem reconcile_behaviour_witness:
  "r_secret (snd (reconcile (Fails \<lparr>e_Text = ''gone'', e_Status = None, e_NotFound = True\<rparr>) False 5
      (new_resource (SecretRef ''ns'' ''db'')))) = snapshot_of None"
  using reconcile_behaviour [OF prod.collapse [symmetric] refl,
      of "Fails \<lparr>e_Text = ''gone'', e_Status = None, e_NotFound = True\<rparr>" False 5
        "new_resource (SecretRef ''ns'' ''db'')"]
  by simp

end
