(* ===== verification/Server.thy ===== *)
theory Server
  imports Auth Clientip Resources "HOL-Library.Multiset"
begin

text \<open>
  \<^verbatim>\<open>gateway/internal/server/server.go\<close>: the delivery listener.

  The handler is a function of the configuration, of the request, of the Secret source and of the
  state of the \<^verbatim>\<open>ResponseWriter\<close> it is given. A read of the Secret source may panic, as any
  call through an interface may; \<open>handleRequest\<close> returns the panic together with what had been
  written before it. What is handed to the observer and to the logger is part of the result.
  \<open>statusWriter\<close> is the second implementation of the interface of \<open>Go_Http\<close>, and every lemma
  proved in its locale applies to it.
\<close>

section \<open>Reasons, options and the handler\<close>

definition exposuresPrefix :: string where
  "exposuresPrefix = ''/exposures/''"

datatype reason =
    ReasonServed
  | ReasonNotModified
  | ReasonMethodNotAllowed
  | ReasonNoRoute
  | ReasonUnknownExposure
  | ReasonClientNotAllowed
  | ReasonClientAddressUnresolved
  | ReasonAuthSecretUnavailable
  | ReasonAuthSecretMalformed
  | ReasonUnauthorized
  | ReasonSourceSecretUnavailable
  | ReasonConfiguredKeyMissing
  | ReasonInternalError

fun reason_string :: "reason \<Rightarrow> string" where
  "reason_string ReasonServed = ''served''"
| "reason_string ReasonNotModified = ''not_modified''"
| "reason_string ReasonMethodNotAllowed = ''method_not_allowed''"
| "reason_string ReasonNoRoute = ''no_route''"
| "reason_string ReasonUnknownExposure = ''unknown_exposure''"
| "reason_string ReasonClientNotAllowed = ''client_not_allowed''"
| "reason_string ReasonClientAddressUnresolved = ''client_address_unresolved''"
| "reason_string ReasonAuthSecretUnavailable = ''auth_secret_unavailable''"
| "reason_string ReasonAuthSecretMalformed = ''auth_secret_malformed''"
| "reason_string ReasonUnauthorized = ''unauthorized''"
| "reason_string ReasonSourceSecretUnavailable = ''source_secret_unavailable''"
| "reason_string ReasonConfiguredKeyMissing = ''configured_key_missing''"
| "reason_string ReasonInternalError = ''internal_error''"

datatype panic_value = ErrAbortHandler | OtherPanic

type_synonym SecretSource = "SecretRef \<Rightarrow> panic_value + Secret"

record Handler =
  h_exposures :: "string \<rightharpoonup> Exposure"
  h_secrets :: SecretSource
  h_clientIP :: Resolver

text \<open>\<^verbatim>\<open>New\<close>: the flag tells whether all interfaces of the options are set.\<close>

datatype new_error = IncompleteOptions | DuplicateExposure string

fun add_exposures :: "Exposure list \<Rightarrow> (string \<rightharpoonup> Exposure) \<Rightarrow> new_error + (string \<rightharpoonup> Exposure)" where
  "add_exposures [] m = Inr m"
| "add_exposures (e # es) m =
     (if m (exp_Name e) \<noteq> None then Inl (DuplicateExposure (exp_Name e))
      else add_exposures es (m(exp_Name e \<mapsto> e)))"

definition New :: "bool \<Rightarrow> Exposure list \<Rightarrow> SecretSource \<Rightarrow> Resolver \<Rightarrow> new_error + Handler" where
  "New complete exps src cip =
     (if \<not> complete then Inl IncompleteOptions
      else case add_exposures exps Map.empty of
          Inl err \<Rightarrow> Inl err
        | Inr m \<Rightarrow> Inr \<lparr>h_exposures = m, h_secrets = src, h_clientIP = cip\<rparr>)"

record outcome =
  o_name :: string
  o_key :: string
  o_client :: Addr
  o_peer :: Addr
  o_status :: nat
  o_reason :: "reason option"

definition new_outcome :: outcome where
  "new_outcome = \<lparr>o_name = [], o_key = [], o_client = ZeroAddr, o_peer = ZeroAddr, o_status = 0,
     o_reason = None\<rparr>"

section \<open>The route, the body and the entity tag\<close>

definition parseRoute :: "k8s_validation \<Rightarrow> string \<Rightarrow> string option" where
  "parseRoute V escaped = (case CutPrefix escaped exposuresPrefix of (name, found) \<Rightarrow>
     if \<not> found \<or> CHR ''/'' \<in> set name \<or> ValidateName V name \<noteq> None then None else Some name)"

definition quote :: char where
  "quote = CHR 0x22"

definition body_entry :: "(string \<rightharpoonup> bytes) \<Rightarrow> string \<Rightarrow> bytes" where
  "body_entry data k = [quote] @ k @ [quote, CHR '':'', quote] @ EncodeToString (data_get data k) @ [quote]"

fun body_loop :: "(string \<rightharpoonup> bytes) \<Rightarrow> nat \<Rightarrow> string list \<Rightarrow> bytes" where
  "body_loop data i [] = []"
| "body_loop data i (k # ks) =
     (if 0 < i then '','' else []) @ body_entry data k @ body_loop data (Suc i) ks"

text \<open>The capacity the code reserves for the body.\<close>

definition body_size :: "(string \<rightharpoonup> bytes) \<Rightarrow> string list \<Rightarrow> nat" where
  "body_size data keys =
     2 + sum_list (map (\<lambda>k. length k + EncodedLen (length (data_get data k)) + 6) keys)"

definition exposureBody :: "(string \<rightharpoonup> bytes) \<Rightarrow> string list \<Rightarrow> string \<times> bytes" where
  "exposureBody data configured = (case find (\<lambda>k. data k = None) configured of
      Some k \<Rightarrow> (k, [])
    | None \<Rightarrow> ([], ''{'' @ body_loop data 0 (sort configured) @ ''}''))"

definition ETag :: "bytes \<Rightarrow> string \<Rightarrow> string" where
  "ETag value uid = [quote] @ ''hmac-sha256:'' @ hex_encode (hmac_sha256 uid value) @ [quote]"

definition etagMatches :: "string list \<Rightarrow> string \<Rightarrow> bool" where
  "etagMatches headerValues etag =
     list_ex (\<lambda>v. list_ex (\<lambda>candidate. let c = TrimSpace candidate
         in c = ''*'' \<or> TrimPrefix c ''W/'' = etag) (Split v (CHR '',''))) headerValues"

section \<open>Writing responses\<close>

definition writeError :: "'w http_writer \<Rightarrow> nat \<Rightarrow> 'w \<Rightarrow> 'w" where
  "writeError W st w =
     hw_Write W (StatusText st @ [CHR 0x0A]) (hw_WriteHeader W st
       (hw_set W ''X-Content-Type-Options'' ''nosniff'' (hw_set W ''Cache-Control'' ''no-store''
         (hw_set W ''Content-Type'' ''text/plain; charset=utf-8'' w))))"

definition writeBody :: "'w http_writer \<Rightarrow> Request \<Rightarrow> bytes \<Rightarrow> string \<Rightarrow> string \<Rightarrow> 'w \<Rightarrow> nat \<times> 'w" where
  "writeBody W r value uid contentType w =
     (let etag = ETag value uid;
          w1 = hw_set W ''X-Content-Type-Options'' ''nosniff'' (hw_set W ''Cache-Control'' ''no-store''
                 (hw_set W ''ETag'' etag w))
      in if etagMatches (Header_Values r ''If-None-Match'') etag then (304, hw_WriteHeader W 304 w1)
         else let w2 = hw_WriteHeader W 200 (hw_set W ''Content-Length'' (Itoa (length value))
                         (hw_set W ''Content-Type'' contentType w1))
              in (200, if req_Method r \<noteq> ''HEAD'' then hw_Write W value w2 else w2))"

record 'w statusWriter =
  sw_inner :: 'w
  sw_status :: nat

definition status_writer :: "'w http_writer \<Rightarrow> 'w statusWriter http_writer" where
  "status_writer W = \<lparr>
     hw_set = (\<lambda>k v w. w\<lparr>sw_inner := hw_set W k v (sw_inner w)\<rparr>),
     hw_WriteHeader = (\<lambda>st w. w\<lparr>sw_status := (if sw_status w = 0 then st else sw_status w),
        sw_inner := hw_WriteHeader W st (sw_inner w)\<rparr>),
     hw_Write = (\<lambda>b w. w\<lparr>sw_status := (if sw_status w = 0 then 200 else sw_status w),
        sw_inner := hw_Write W b (sw_inner w)\<rparr>)\<rparr>"

section \<open>The request pipeline\<close>

type_synonym 'w handled = "panic_value option \<times> 'w \<times> outcome"

definition fail :: "'w http_writer \<Rightarrow> nat \<Rightarrow> reason \<Rightarrow> 'w \<Rightarrow> outcome \<Rightarrow> 'w handled" where
  "fail W st why w oc = (None, writeError W st w, oc\<lparr>o_status := st, o_reason := Some why\<rparr>)"

text \<open>The last two steps: the source Secret and the body.\<close>

definition deliver :: "'w http_writer \<Rightarrow> SecretSource \<Rightarrow> Exposure \<Rightarrow> Request \<Rightarrow> 'w \<Rightarrow> outcome
    \<Rightarrow> 'w handled" where
  "deliver W secrets e r w oc = (case secrets (exp_Source e) of
      Inl p \<Rightarrow> (Some p, w, oc)
    | Inr source \<Rightarrow>
      if \<not> sec_Present source then fail W 503 ReasonSourceSecretUnavailable w oc
      else case exposureBody (sec_Data source) (exp_Keys e) of (missing, body) \<Rightarrow>
        if missing \<noteq> [] then fail W 503 ReasonConfiguredKeyMissing w (oc\<lparr>o_key := missing\<rparr>)
        else case writeBody W r body (sec_UID source) ''application/json'' w of (st, w') \<Rightarrow>
          (None, w', oc\<lparr>o_status := st,
             o_reason := Some (if st = 304 then ReasonNotModified else ReasonServed)\<rparr>))"

text \<open>The authentication Secret and the credentials.\<close>

definition authenticate :: "'w http_writer \<Rightarrow> SecretSource \<Rightarrow> Exposure \<Rightarrow> Request \<Rightarrow> 'w \<Rightarrow> outcome
    \<Rightarrow> 'w handled" where
  "authenticate W secrets e r w oc = (case secrets (Auth_SecretRef (exp_Auth e)) of
      Inl p \<Rightarrow> (Some p, w, oc)
    | Inr authSecret \<Rightarrow>
      if \<not> sec_Present authSecret then fail W 503 ReasonAuthSecretUnavailable w oc
      else case NewBasic (sec_Data authSecret) of
          Inl err \<Rightarrow> fail W 503 ReasonAuthSecretMalformed w oc
        | Inr verifier \<Rightarrow>
          if \<not> Verify verifier r
          then fail W 401 ReasonUnauthorized (hw_set W ''WWW-Authenticate'' (Challenge verifier) w) oc
          else deliver W secrets e r w oc)"

definition has_payload :: "Request \<Rightarrow> bool" where
  "has_payload r \<longleftrightarrow> url_ForceQuery (req_URL r) \<or> url_RawQuery (req_URL r) \<noteq> []
     \<or> req_ContentLength r \<noteq> 0 \<or> 0 < length (req_TransferEncoding r)"

definition handleRequest :: "'w http_writer \<Rightarrow> k8s_validation \<Rightarrow> Handler \<Rightarrow> Request \<Rightarrow> 'w \<Rightarrow> outcome
    \<Rightarrow> 'w handled" where
  "handleRequest W V h r w oc0 =
     (case Resolve (h_clientIP h) r of (client, peer, ipErr) \<Rightarrow>
      let oc = oc0\<lparr>o_client := client, o_peer := peer\<rparr> in
      if req_Method r \<noteq> ''GET'' \<and> req_Method r \<noteq> ''HEAD''
      then fail W 405 ReasonMethodNotAllowed (hw_set W ''Allow'' ''GET, HEAD'' w) oc
      else case (if has_payload r then None else parseRoute V (EscapedPath (req_URL r))) of
          None \<Rightarrow> fail W 404 ReasonNoRoute w oc
        | Some name \<Rightarrow> (case h_exposures h name of
            None \<Rightarrow> fail W 404 ReasonUnknownExposure w oc
          | Some e \<Rightarrow>
            let oc1 = oc\<lparr>o_name := exp_Name e\<rparr> in
            if ipErr \<noteq> None then fail W 404 ReasonClientAddressUnresolved w oc1
            else if \<not> AllowsClient e client then fail W 404 ReasonClientNotAllowed w oc1
            else authenticate W (h_secrets h) e r w oc1))"

section \<open>The end of a request\<close>

datatype log_level = LevelInfo | LevelWarn | LevelError

datatype attr =
    AttrString string string
  | AttrAddr string Addr
  | AttrInt string nat
  | AttrDuration string duration

definition truncate :: "string \<Rightarrow> nat \<Rightarrow> string" where
  "truncate s n = (if length s \<le> n then s else ToValidUTF8 (take n s) @ ''...'')"

definition opt_reason :: "reason option \<Rightarrow> string" where
  "opt_reason x = (case x of None \<Rightarrow> [] | Some why \<Rightarrow> reason_string why)"

definition log_attrs :: "Request \<Rightarrow> outcome \<Rightarrow> duration \<Rightarrow> attr list" where
  "log_attrs r oc elapsed =
     (if o_name oc \<noteq> []
      then AttrString ''exposure'' (o_name oc)
        # (if o_key oc \<noteq> [] then [AttrString ''key'' (o_key oc)] else [])
      else [AttrString ''path'' (truncate (EscapedPath (req_URL r)) 256)])
     @ [AttrString ''method'' (req_Method r)]
     @ (if IsValid (o_client oc) then [AttrAddr ''client_ip'' (o_client oc)] else [])
     @ (if IsValid (o_peer oc) \<and> o_peer oc \<noteq> o_client oc then [AttrAddr ''peer_ip'' (o_peer oc)] else [])
     @ [AttrInt ''status'' (o_status oc), AttrString ''reason'' (opt_reason (o_reason oc)),
        AttrDuration ''duration'' elapsed]"

definition log_level_of :: "outcome \<Rightarrow> log_level" where
  "log_level_of oc =
     (if 500 \<le> o_status oc \<and> o_status oc \<noteq> 503 then LevelError
      else if o_status oc = 401 \<or> o_status oc = 503 \<or> o_reason oc = Some ReasonClientNotAllowed
        \<or> o_reason oc = Some ReasonClientAddressUnresolved then LevelWarn
      else LevelInfo)"

text \<open>What a request leaves behind for the observer and the logger.\<close>

record finished =
  f_name :: string
  f_status :: nat
  f_reason :: "reason option"
  f_level :: log_level
  f_attrs :: "attr list"

definition finish :: "Request \<Rightarrow> outcome \<Rightarrow> duration \<Rightarrow> finished" where
  "finish r oc elapsed = \<lparr>f_name = o_name oc, f_status = o_status oc, f_reason = o_reason oc,
     f_level = log_level_of oc, f_attrs = log_attrs r oc elapsed\<rparr>"

text \<open>
  \<^verbatim>\<open>serveRequest\<close> with its deferred recover: \<^const>\<open>Inl\<close> when the panic goes on to
  \<^verbatim>\<open>net/http\<close>, which then drops the connection.
\<close>

definition serveRequest :: "'w http_writer \<Rightarrow> k8s_validation \<Rightarrow> Handler \<Rightarrow> Request \<Rightarrow> duration \<Rightarrow> 'w
    \<Rightarrow> panic_value + 'w \<times> finished" where
  "serveRequest W V h r elapsed w =
     (let SW = status_writer W in
      case handleRequest SW V h r \<lparr>sw_inner = w, sw_status = 0\<rparr> new_outcome of (panic, sw, oc) \<Rightarrow>
      (case panic of
         None \<Rightarrow> Inr (sw_inner sw, finish r oc elapsed)
       | Some p \<Rightarrow>
         if p = ErrAbortHandler then Inl p
         else Inr (sw_inner (if sw_status sw = 0 then writeError SW 500 sw else sw),
               finish r (oc\<lparr>o_status := 500, o_reason := Some ReasonInternalError\<rparr>) elapsed)))"

definition ServeHTTP :: "k8s_validation \<Rightarrow> Handler \<Rightarrow> Request \<Rightarrow> duration
    \<Rightarrow> panic_value + RespWriter \<times> finished" where
  "ServeHTTP V h r elapsed =
     serveRequest net_http_writer V h r elapsed (new_response (req_Method r))"

section \<open>Every writer sends the same response\<close>

definition map_writer :: "('w \<Rightarrow> 'v) \<Rightarrow> 'w handled \<Rightarrow> 'v handled" where
  "map_writer f x = (case x of (p, w, oc) \<Rightarrow> (p, f w, oc))"

lemma map_writer_simp [simp]: "map_writer f (p, w, oc) = (p, f w, oc)"
  by (simp add: map_writer_def)

lemma net_http_writer_simps [simp]:
  "hw_set net_http_writer = rw_set" "hw_WriteHeader net_http_writer = rw_WriteHeader"
  "hw_Write net_http_writer = rw_Write"
  by (simp_all add: net_http_writer_def)

context response_writer
begin

lemma view_writeError: "view (writeError W st w) = writeError net_http_writer st (view w)"
  by (simp add: writeError_def view_simps)

lemma view_writeBody:
  "writeBody net_http_writer r b uid ct (view w) = apsnd view (writeBody W r b uid ct w)"
  by (simp add: writeBody_def view_simps Let_def)

lemma view_fail: "map_writer view (fail W st why w oc) = fail net_http_writer st why (view w) oc"
  by (simp add: fail_def view_writeError)

lemma view_deliver: "map_writer view (deliver W src e r w oc) = deliver net_http_writer src e r (view w) oc"
  by (simp add: deliver_def view_fail view_writeBody split: sum.split prod.split)

lemma view_authenticate:
  "map_writer view (authenticate W src e r w oc) = authenticate net_http_writer src e r (view w) oc"
  by (simp add: authenticate_def view_fail view_deliver view_simps split: sum.split)

lemma view_handleRequest:
  "map_writer view (handleRequest W V h r w oc) = handleRequest net_http_writer V h r (view w) oc"
  by (simp add: handleRequest_def view_fail view_authenticate view_simps Let_def
      split: prod.split option.split)

end

interpretation status: response_writer "status_writer net_http_writer" sw_inner
  by unfold_locales (simp_all add: status_writer_def)

text \<open>The pipeline on the response itself, without the wrapping writer.\<close>

definition pipeline :: "k8s_validation \<Rightarrow> Handler \<Rightarrow> Request \<Rightarrow> RespWriter handled" where
  "pipeline V h r = handleRequest net_http_writer V h r (new_response (req_Method r)) new_outcome"

text \<open>A panic strikes only before anything has been written.\<close>

definition untouched :: "RespWriter statusWriter handled \<Rightarrow> RespWriter statusWriter \<Rightarrow> bool" where
  "untouched x w \<longleftrightarrow> (case x of (p, w', oc) \<Rightarrow> p \<noteq> None \<longrightarrow> w' = w)"

lemma untouched_handleRequest: "untouched (handleRequest W V h r w oc) w"
  by (simp add: untouched_def handleRequest_def authenticate_def deliver_def fail_def Let_def
      split: prod.split option.split sum.split)

lemma ServeHTTP_pipeline:
  "ServeHTTP V h r elapsed = (case pipeline V h r of
      (None, w, oc) \<Rightarrow> Inr (w, finish r oc elapsed)
    | (Some ErrAbortHandler, w, oc) \<Rightarrow> Inl ErrAbortHandler
    | (Some OtherPanic, w, oc) \<Rightarrow> Inr (writeError net_http_writer 500 (new_response (req_Method r)),
        finish r (oc\<lparr>o_status := 500, o_reason := Some ReasonInternalError\<rparr>) elapsed))"
proof -
  let ?w = "\<lparr>sw_inner = new_response (req_Method r), sw_status = 0\<rparr>"
  obtain p sw oc where h: "handleRequest (status_writer net_http_writer) V h r ?w new_outcome = (p, sw, oc)"
    by (metis prod_cases3)
  have pl: "pipeline V h r = (p, sw_inner sw, oc)"
    using status.view_handleRequest [of V h r ?w new_outcome] by (simp add: h pipeline_def)
  have "p \<noteq> None \<Longrightarrow> sw = ?w"
    using untouched_handleRequest [of "status_writer net_http_writer" V h r ?w new_outcome]
    by (simp add: untouched_def h)
  with pl h show ?thesis
    by (cases p) (auto simp: ServeHTTP_def serveRequest_def Let_def status.view_writeError
        split: panic_value.split)
qed

section \<open>Responses\<close>

definition error_response :: "string \<Rightarrow> (string \<times> string) list \<Rightarrow> nat \<Rightarrow> RespWriter" where
  "error_response method extra st = (let hdr = extra @ [(''Content-Type'', ''text/plain; charset=utf-8''),
       (''Cache-Control'', ''no-store''), (''X-Content-Type-Options'', ''nosniff'')]
     in \<lparr>rw_method = method, rw_header = hdr, rw_status = st, rw_sent = hdr,
         rw_body = (if method = ''HEAD'' then [] else StatusText st @ [CHR 0x0A])\<rparr>)"

lemma writeError_new:
  "st \<noteq> 0 \<Longrightarrow> st \<noteq> 304 \<Longrightarrow> writeError net_http_writer st (new_response m) = error_response m [] st"
  by (simp add: writeError_def error_response_def new_response_def rw_set_def header_set_def
      rw_WriteHeader_def rw_Write_def Let_def)

lemma writeError_set:
  "st \<noteq> 0 \<Longrightarrow> st \<noteq> 304 \<Longrightarrow> k \<notin> {''Content-Type'', ''Cache-Control'', ''X-Content-Type-Options''} \<Longrightarrow>
    writeError net_http_writer st (rw_set k v (new_response m)) = error_response m [(k, v)] st"
  by (simp add: writeError_def error_response_def new_response_def rw_set_def header_set_def
      rw_WriteHeader_def rw_Write_def Let_def)

definition body_headers :: "bytes \<Rightarrow> string \<Rightarrow> (string \<times> string) list" where
  "body_headers body uid = [(''ETag'', ETag body uid), (''Cache-Control'', ''no-store''),
     (''X-Content-Type-Options'', ''nosniff'')]"

definition not_modified_response :: "string \<Rightarrow> bytes \<Rightarrow> string \<Rightarrow> RespWriter" where
  "not_modified_response method body uid = \<lparr>rw_method = method, rw_header = body_headers body uid,
     rw_status = 304, rw_sent = body_headers body uid, rw_body = []\<rparr>"

definition ok_response :: "string \<Rightarrow> bytes \<Rightarrow> string \<Rightarrow> RespWriter" where
  "ok_response method body uid = (let hdr = body_headers body uid
       @ [(''Content-Type'', ''application/json''), (''Content-Length'', Itoa (length body))]
     in \<lparr>rw_method = method, rw_header = hdr, rw_status = 200, rw_sent = hdr,
         rw_body = (if method = ''HEAD'' then [] else body)\<rparr>)"

definition conditional :: "Request \<Rightarrow> bytes \<Rightarrow> string \<Rightarrow> bool" where
  "conditional r body uid = etagMatches (Header_Values r ''If-None-Match'') (ETag body uid)"

lemma writeBody_new:
  "writeBody net_http_writer r body uid ''application/json'' (new_response (req_Method r)) =
    (if conditional r body uid then (304, not_modified_response (req_Method r) body uid)
     else (200, ok_response (req_Method r) body uid))"
  by (simp add: writeBody_def conditional_def not_modified_response_def ok_response_def
      body_headers_def new_response_def rw_set_def header_set_def rw_WriteHeader_def rw_Write_def Let_def)

section \<open>Who gets what\<close>

text \<open>The request reaches the exposure: method, route and network are right.\<close>

definition admitted :: "k8s_validation \<Rightarrow> Handler \<Rightarrow> Request \<Rightarrow> Exposure \<Rightarrow> bool" where
  "admitted V h r e \<longleftrightarrow> (req_Method r = ''GET'' \<or> req_Method r = ''HEAD'') \<and> \<not> has_payload r
     \<and> (\<exists>name client peer. parseRoute V (EscapedPath (req_URL r)) = Some name
          \<and> h_exposures h name = Some e \<and> Resolve (h_clientIP h) r = (client, peer, None)
          \<and> AllowsClient e client)"

text \<open>The credentials of the request are those of the authentication Secret.\<close>

definition authorized :: "SecretSource \<Rightarrow> Exposure \<Rightarrow> Request \<Rightarrow> bool" where
  "authorized secrets e r \<longleftrightarrow> (\<exists>s verifier. secrets (Auth_SecretRef (exp_Auth e)) = Inr s
     \<and> sec_Present s \<and> NewBasic (sec_Data s) = Inr verifier \<and> Verify verifier r)"

definition available :: "SecretSource \<Rightarrow> Exposure \<Rightarrow> Secret \<Rightarrow> bool" where
  "available secrets e s \<longleftrightarrow> secrets (exp_Source e) = Inr s \<and> sec_Present s
     \<and> list_all (\<lambda>k. sec_Data s k \<noteq> None) (exp_Keys e)"

definition canonical_body :: "Secret \<Rightarrow> Exposure \<Rightarrow> bytes" where
  "canonical_body s e = ''{'' @ body_loop (sec_Data s) 0 (sort (exp_Keys e)) @ ''}''"

definition keys_nonempty :: "Handler \<Rightarrow> bool" where
  "keys_nonempty h \<longleftrightarrow> (\<forall>name e. h_exposures h name = Some e \<longrightarrow> [] \<notin> set (exp_Keys e))"

lemma admitted_unique: "admitted V h r e \<Longrightarrow> admitted V h r e' \<Longrightarrow> e = e'"
  by (auto simp: admitted_def)

lemma exposureBody_missing:
  assumes "[] \<notin> set keys"
  shows "fst (exposureBody data keys) = [] \<longleftrightarrow> list_all (\<lambda>k. data k \<noteq> None) keys"
proof (cases "find (\<lambda>k. data k = None) keys")
  case None
  then have "list_all (\<lambda>k. data k \<noteq> None) keys" by (simp add: find_None_iff list_all_iff)
  with None show ?thesis by (simp add: exposureBody_def)
next
  case (Some k)
  then have "k \<in> set keys" "data k = None" by (auto simp: find_Some_iff)
  with Some assms show ?thesis by (auto simp: exposureBody_def list_all_iff)
qed

lemma exposureBody_all:
  "list_all (\<lambda>k. data k \<noteq> None) keys \<Longrightarrow>
    exposureBody data keys = ([], ''{'' @ body_loop data 0 (sort keys) @ ''}'')"
  by (auto simp: exposureBody_def find_Some_iff list_all_iff split: option.split)

definition refusal :: "Request \<Rightarrow> RespWriter" where
  "refusal r = (if req_Method r = ''GET'' \<or> req_Method r = ''HEAD'' then error_response (req_Method r) [] 404
     else error_response (req_Method r) [(''Allow'', ''GET, HEAD'')] 405)"

definition refusal_reasons :: "reason set" where
  "refusal_reasons = {ReasonMethodNotAllowed, ReasonNoRoute, ReasonUnknownExposure,
     ReasonClientAddressUnresolved, ReasonClientNotAllowed}"

lemma pipeline_refused:
  assumes "\<And>e. \<not> admitted V h r e"
  shows "\<exists>oc why. pipeline V h r = (None, refusal r, oc) \<and> o_status oc = rw_status (refusal r)
    \<and> o_reason oc = Some why \<and> why \<in> refusal_reasons"
proof -
  obtain client peer err where res: "Resolve (h_clientIP h) r = (client, peer, err)" by (metis prod_cases3)
  show ?thesis
    using assms res
    by (auto simp: pipeline_def handleRequest_def admitted_def fail_def refusal_def refusal_reasons_def
        writeError_new writeError_set error_response_def Let_def split: option.split)
qed

lemma pipeline_admitted:
  assumes "admitted V h r e"
  shows "\<exists>client peer. Resolve (h_clientIP h) r = (client, peer, None) \<and>
    pipeline V h r = authenticate net_http_writer (h_secrets h) e r (new_response (req_Method r))
      (new_outcome\<lparr>o_client := client, o_peer := peer, o_name := exp_Name e\<rparr>)"
  using assms by (auto simp: admitted_def pipeline_def handleRequest_def Let_def)


lemma error_response_simps [simp]:
  "rw_status (error_response m x st) = st" "rw_sent (error_response m x st) = x @
    [(''Content-Type'', ''text/plain; charset=utf-8''), (''Cache-Control'', ''no-store''),
     (''X-Content-Type-Options'', ''nosniff'')]"
  "rw_body (error_response m x st) = (if m = ''HEAD'' then [] else StatusText st @ [CHR 0x0A])"
  by (simp_all add: error_response_def Let_def)

lemma ok_response_simps [simp]:
  "rw_status (ok_response m b u) = 200" "rw_body (ok_response m b u) = (if m = ''HEAD'' then [] else b)"
  "rw_sent (ok_response m b u) = body_headers b u
    @ [(''Content-Type'', ''application/json''), (''Content-Length'', Itoa (length b))]"
  "rw_status (not_modified_response m b u) = 304" "rw_body (not_modified_response m b u) = []"
  "rw_sent (not_modified_response m b u) = body_headers b u"
  by (simp_all add: ok_response_def not_modified_response_def Let_def)

text \<open>Everything that can follow the admission, in the order of the checks.\<close>

definition challenge_response :: "Request \<Rightarrow> RespWriter" where
  "challenge_response r = error_response (req_Method r)
     [(''WWW-Authenticate'', ''Basic realm='' @ [CHR 0x22] @ Realm @ [CHR 0x22])] 401"

definition body_response :: "Request \<Rightarrow> bytes \<Rightarrow> string \<Rightarrow> RespWriter" where
  "body_response r body uid = (if conditional r body uid then not_modified_response (req_Method r) body uid
     else ok_response (req_Method r) body uid)"

lemma deliver_new:
  assumes "[] \<notin> set (exp_Keys e)"
  shows "deliver net_http_writer secrets e r (new_response (req_Method r)) oc = (case secrets (exp_Source e) of
      Inl p \<Rightarrow> (Some p, new_response (req_Method r), oc)
    | Inr s \<Rightarrow>
      if \<not> sec_Present s then (None, error_response (req_Method r) [] 503,
        oc\<lparr>o_status := 503, o_reason := Some ReasonSourceSecretUnavailable\<rparr>)
      else if \<not> list_all (\<lambda>k. sec_Data s k \<noteq> None) (exp_Keys e) then
        (None, error_response (req_Method r) [] 503, oc\<lparr>o_key := fst (exposureBody (sec_Data s) (exp_Keys e)),
           o_status := 503, o_reason := Some ReasonConfiguredKeyMissing\<rparr>)
      else (None, body_response r (canonical_body s e) (sec_UID s),
        oc\<lparr>o_status := rw_status (body_response r (canonical_body s e) (sec_UID s)),
           o_reason := Some (if conditional r (canonical_body s e) (sec_UID s) then ReasonNotModified
             else ReasonServed)\<rparr>))"
proof (cases "secrets (exp_Source e)")
  case (Inr s)
  show ?thesis
  proof (cases "list_all (\<lambda>k. sec_Data s k \<noteq> None) (exp_Keys e)")
    case True
    with Inr exposureBody_all [OF True] show ?thesis
      by (simp add: deliver_def fail_def writeError_new writeBody_new canonical_body_def body_response_def)
  next
    case False
    with Inr exposureBody_missing [OF assms, of "sec_Data s"] show ?thesis
      by (simp add: deliver_def fail_def writeError_new case_prod_beta)
  qed
qed (simp add: deliver_def)

lemma authenticate_new:
  "authenticate net_http_writer secrets e r (new_response (req_Method r)) oc =
    (case secrets (Auth_SecretRef (exp_Auth e)) of
      Inl p \<Rightarrow> (Some p, new_response (req_Method r), oc)
    | Inr s \<Rightarrow>
      if \<not> sec_Present s then (None, error_response (req_Method r) [] 503,
        oc\<lparr>o_status := 503, o_reason := Some ReasonAuthSecretUnavailable\<rparr>)
      else case NewBasic (sec_Data s) of
        Inl err \<Rightarrow> (None, error_response (req_Method r) [] 503,
          oc\<lparr>o_status := 503, o_reason := Some ReasonAuthSecretMalformed\<rparr>)
      | Inr v \<Rightarrow> if Verify v r then deliver net_http_writer secrets e r (new_response (req_Method r)) oc
          else (None, challenge_response r, oc\<lparr>o_status := 401, o_reason := Some ReasonUnauthorized\<rparr>))"
  by (simp add: authenticate_def fail_def writeError_new writeError_set challenge_response_def
      Challenge_def split: sum.split)

section \<open>Properties\<close>

definition response :: "k8s_validation \<Rightarrow> Handler \<Rightarrow> Request \<Rightarrow> RespWriter option" where
  "response V h r = (case ServeHTTP V h r 0 of Inl p \<Rightarrow> None | Inr (w, f) \<Rightarrow> Some w)"

lemma response_pipeline:
  "response V h r = (case pipeline V h r of
      (None, w, oc) \<Rightarrow> Some w
    | (Some ErrAbortHandler, w, oc) \<Rightarrow> None
    | (Some OtherPanic, w, oc) \<Rightarrow> Some (error_response (req_Method r) [] 500))"
  by (simp add: response_def ServeHTTP_pipeline writeError_new split: prod.split option.split panic_value.split)

lemma response_refused: "(\<And>e. \<not> admitted V h r e) \<Longrightarrow> response V h r = Some (refusal r)"
  using pipeline_refused [of V h r] by (auto simp: response_pipeline)

lemma admitted_key: "admitted V h r e \<Longrightarrow> keys_nonempty h \<Longrightarrow> [] \<notin> set (exp_Keys e)"
  by (auto simp: admitted_def keys_nonempty_def)

lemma response_served:
  assumes "admitted V h r e" and "authorized (h_secrets h) e r" and "available (h_secrets h) e s"
    and "keys_nonempty h"
  shows "response V h r = Some (body_response r (canonical_body s e) (sec_UID s))"
  using pipeline_admitted [OF assms(1)] assms(2,3) deliver_new [OF admitted_key [OF assms(1,4)]]
  by (auto simp: response_pipeline authenticate_new authorized_def available_def)

lemma response_not_authorized:
  assumes "admitted V h r e" and "\<not> authorized (h_secrets h) e r" and "response V h r = Some w"
  shows "rw_status w \<in> {401, 500, 503}"
proof -
  obtain oc where "pipeline V h r = authenticate net_http_writer (h_secrets h) e r (new_response (req_Method r)) oc"
    using pipeline_admitted [OF assms(1)] by blast
  with assms(2,3) show ?thesis
    by (auto simp: response_pipeline authenticate_new authorized_def challenge_response_def
        split: sum.splits if_splits panic_value.splits)
qed

lemma response_authorized:
  assumes "admitted V h r e" and "authorized (h_secrets h) e r"
  shows "\<exists>oc. pipeline V h r = deliver net_http_writer (h_secrets h) e r (new_response (req_Method r)) oc"
  using pipeline_admitted [OF assms(1)] assms(2) by (auto simp: authenticate_new authorized_def)

lemma response_not_available:
  assumes "admitted V h r e" and "authorized (h_secrets h) e r" and "\<And>s. \<not> available (h_secrets h) e s"
    and "response V h r = Some w" and "keys_nonempty h"
  shows "rw_status w \<in> {500, 503}"
proof -
  obtain oc where "pipeline V h r = deliver net_http_writer (h_secrets h) e r (new_response (req_Method r)) oc"
    using response_authorized [OF assms(1,2)] by blast
  with assms(3,4) deliver_new [OF admitted_key [OF assms(1,5)]] show ?thesis
    by (auto simp: response_pipeline available_def split: sum.splits if_splits panic_value.splits)
qed

lemma body_response_status: "rw_status (body_response r b u) = 200 \<or> rw_status (body_response r b u) = 304"
  by (simp add: body_response_def)

lemma response_status_served:
  assumes "response V h r = Some w" and "rw_status w = 200 \<or> rw_status w = 304" and "keys_nonempty h"
  shows "\<exists>e s. admitted V h r e \<and> authorized (h_secrets h) e r \<and> available (h_secrets h) e s"
proof -
  have "\<exists>e. admitted V h r e"
  proof (rule ccontr)
    assume "\<nexists>e. admitted V h r e"
    then have "w = refusal r" using assms(1) response_refused [of V h r] by auto
    with assms(2) show False by (auto simp: refusal_def split: if_splits)
  qed
  then obtain e where e: "admitted V h r e" by blast
  have st: "rw_status w \<notin> {401, 500, 503}" "rw_status w \<notin> {500, 503}" using assms(2) by auto
  have a: "authorized (h_secrets h) e r"
    using response_not_authorized [OF e _ assms(1)] st by blast
  have "\<exists>s. available (h_secrets h) e s"
    using response_not_available [OF e a _ assms(1,3)] st by blast
  with e a show ?thesis by blast
qed

text \<open>
  C1: access control. The gateway answers with a 200 or a 304 exactly when the request is a GET or
  HEAD without query or payload for the path of a configured exposure, from a client address that
  was resolved and lies in the allow-list of that exposure, with the credentials of its
  authentication Secret, and the source Secret is present with every configured key. Whenever these
  conditions hold the response is the canonical body of exactly the configured keys, or the 304 for it.
\<close>

theorem served_iff_allowed:
  assumes "keys_nonempty h"
  shows "((\<exists>w. response V h r = Some w \<and> (rw_status w = 200 \<or> rw_status w = 304)) \<longleftrightarrow>
      (\<exists>e s. admitted V h r e \<and> authorized (h_secrets h) e r \<and> available (h_secrets h) e s))
    \<and> (\<forall>e s. admitted V h r e \<and> authorized (h_secrets h) e r \<and> available (h_secrets h) e s
        \<longrightarrow> response V h r = Some (body_response r (canonical_body s e) (sec_UID s)))"
  using response_status_served [OF _ _ assms, of V r] response_served [OF _ _ _ assms, of V r]
  by (metis body_response_status)

text \<open>
  C2: exposures cannot be probed. For a client outside the allow-list of an exposure, or whose
  address cannot be resolved, the response to every request for it is the same, byte for byte, as
  that of a gateway without that exposure and with any other Secrets.
\<close>

theorem outside_is_unknown:
  assumes "h_exposures h (exp_Name e) = Some e"
    and "Resolve (h_clientIP h) r = (client, peer, ipErr)"
    and "ipErr \<noteq> None \<or> \<not> AllowsClient e client"
    and "parseRoute V (EscapedPath (req_URL r)) = Some (exp_Name e)"
  shows "response V h r
    = response V (h\<lparr>h_exposures := (h_exposures h)(exp_Name e := None), h_secrets := others\<rparr>) r"
proof -
  have "\<not> admitted V h r e'" for e'
    using assms by (auto simp: admitted_def)
  moreover have "\<not> admitted V (h\<lparr>h_exposures := (h_exposures h)(exp_Name e := None), h_secrets := others\<rparr>) r e'"
    for e' using assms(4) by (auto simp: admitted_def)
  ultimately show ?thesis by (simp add: response_refused)
qed

lemma admitted_secrets [simp]: "admitted V (h\<lparr>h_secrets := secrets'\<rparr>) r e = admitted V h r e"
  by (simp add: admitted_def)

text \<open>
  C3: nothing of the source Secret before authentication. When the credentials do not match, the
  response is the same whatever the Secrets other than the authentication Secret of the requested
  exposure contain, and even if reading them panics.
\<close>

theorem unauthorized_noninterference:
  assumes "\<And>e. admitted V h r e \<Longrightarrow> \<not> authorized (h_secrets h) e r
      \<and> secrets' (Auth_SecretRef (exp_Auth e)) = h_secrets h (Auth_SecretRef (exp_Auth e))"
  shows "response V (h\<lparr>h_secrets := secrets'\<rparr>) r = response V h r"
proof (cases "\<exists>e. admitted V h r e")
  case False
  then show ?thesis by (simp add: response_refused)
next
  case True
  then obtain e where e: "admitted V h r e" by blast
  then have e': "admitted V (h\<lparr>h_secrets := secrets'\<rparr>) r e" by simp
  show ?thesis
    using assms [OF e] pipeline_admitted [OF e] pipeline_admitted [OF e']
    by (auto simp: response_pipeline authenticate_new authorized_def
        split: sum.split panic_value.split)
qed

lemma body_loop_cong:
  "(\<And>k. k \<in> set ks \<Longrightarrow> data k = data' k) \<Longrightarrow> body_loop data i ks = body_loop data' i ks"
  by (induction ks arbitrary: i) (simp_all add: body_entry_def data_get_def)

text \<open>
  C4: only configured keys are served. Keys of the source Secret that the exposure does not
  configure, and the resource version, have no influence on any response.
\<close>

theorem unconfigured_keys_noninterference:
  assumes "keys_nonempty h" and "admitted V h r e"
    and "secrets' (Auth_SecretRef (exp_Auth e)) = h_secrets h (Auth_SecretRef (exp_Auth e))"
    and "h_secrets h (exp_Source e) = Inr s" and "secrets' (exp_Source e) = Inr s'"
    and "sec_Present s' = sec_Present s" and "sec_UID s' = sec_UID s"
    and "map (sec_Data s') (exp_Keys e) = map (sec_Data s) (exp_Keys e)"
  shows "response V (h\<lparr>h_secrets := secrets'\<rparr>) r = response V h r"
proof -
  have k: "sec_Data s' k = sec_Data s k" if "k \<in> set (exp_Keys e)" for k
    using assms(8) that by (auto simp: map_eq_conv)
  then have all: "list_all (\<lambda>k. sec_Data s' k \<noteq> None) (exp_Keys e) = list_all (\<lambda>k. sec_Data s k \<noteq> None) (exp_Keys e)"
    by (auto simp: list_all_iff)
  have body: "canonical_body s' e = canonical_body s e"
    using body_loop_cong [of "sort (exp_Keys e)" "sec_Data s'" "sec_Data s"] k
    by (simp add: canonical_body_def)
  have e': "admitted V (h\<lparr>h_secrets := secrets'\<rparr>) r e" using assms(2) by simp
  note d = deliver_new [OF admitted_key [OF assms(2,1)]]
  show ?thesis
    using pipeline_admitted [OF assms(2)] pipeline_admitted [OF e'] assms(3-7)
    by (auto simp: response_pipeline authenticate_new d all [simplified] body
        split: sum.split panic_value.split if_split)
qed

section \<open>Body and entity tag\<close>

lemma append_stop_eq:
  assumes "xs @ c # ys = xs' @ c # ys'" and "c \<notin> set xs" and "c \<notin> set xs'"
  shows "xs = xs' \<and> ys = ys'"
  using assms
proof (induction xs arbitrary: xs')
  case Nil
  then show ?case by (cases xs') auto
next
  case (Cons x xs)
  then show ?case by (cases xs') auto
qed

lemma quote_not_encoded: "quote \<notin> set (EncodeToString s)"
  using EncodeToString_plain [of quote s] by (auto simp: quote_def b64_plain_def)

lemma body_loop_eq_iff:
  "body_loop data i ks @ z = body_loop data' i ks @ z' \<longleftrightarrow>
    z = z' \<and> map (data_get data) ks = map (data_get data') ks"
proof (induction ks arbitrary: i)
  case (Cons k ks)
  have "body_loop data i (k # ks) @ z = body_loop data' i (k # ks) @ z' \<longleftrightarrow>
      EncodeToString (data_get data k) @ quote # body_loop data (Suc i) ks @ z
      = EncodeToString (data_get data' k) @ quote # body_loop data' (Suc i) ks @ z'"
    by (simp add: body_entry_def)
  also have "\<dots> \<longleftrightarrow> EncodeToString (data_get data k) = EncodeToString (data_get data' k)
      \<and> body_loop data (Suc i) ks @ z = body_loop data' (Suc i) ks @ z'"
    using append_stop_eq [OF _ quote_not_encoded quote_not_encoded] by auto
  also have "\<dots> \<longleftrightarrow> z = z' \<and> map (data_get data) (k # ks) = map (data_get data') (k # ks)"
    using EncodeToString_inj by (auto simp: Cons.IH)
  finally show ?case .
qed simp

text \<open>
  The body determines the values. Two states of the source Secret give the same body, and so
  the same input to the entity tag, exactly when every configured key has the same value in both.
\<close>

theorem body_injective:
  "canonical_body s e = canonical_body s' e \<longleftrightarrow>
    map (data_get (sec_Data s)) (exp_Keys e) = map (data_get (sec_Data s')) (exp_Keys e)"
proof -
  have "canonical_body s e = canonical_body s' e \<longleftrightarrow>
      body_loop (sec_Data s) 0 (sort (exp_Keys e)) @ ''}'' = body_loop (sec_Data s') 0 (sort (exp_Keys e)) @ ''}''"
    by (simp add: canonical_body_def)
  also have "\<dots> \<longleftrightarrow> map (data_get (sec_Data s)) (sort (exp_Keys e)) = map (data_get (sec_Data s')) (sort (exp_Keys e))"
    by (simp only: body_loop_eq_iff simp_thms)
  also have "\<dots> \<longleftrightarrow> map (data_get (sec_Data s)) (exp_Keys e) = map (data_get (sec_Data s')) (exp_Keys e)"
    by (simp add: map_eq_conv)
  finally show ?thesis .
qed

lemma body_loop_length:
  "length (body_loop data i ks) + (if i = 0 \<and> ks \<noteq> [] then 1 else 0)
    = sum_list (map (\<lambda>k. length k + EncodedLen (length (data_get data k)) + 6) ks)"
proof (induction ks arbitrary: i)
  case (Cons k ks)
  from Cons.IH [of "Suc i"] show ?case
    by (simp add: body_entry_def length_EncodeToString)
qed simp

lemma sum_list_sort: "sum_list (map f (sort xs)) = sum_list (map f xs)" for f :: "'a::linorder \<Rightarrow> nat"
  by (metis mset_map mset_sort sum_mset_sum_list)

text \<open>
  The buffer never grows. The capacity computed before the body is serialised is enough for
  it, and at most one byte too large.
\<close>

theorem body_size_enough:
  "length (canonical_body s e) \<le> body_size (sec_Data s) (exp_Keys e)
    \<and> body_size (sec_Data s) (sort (exp_Keys e)) \<le> length (canonical_body s e) + 1"
proof -
  have "body_size (sec_Data s) (sort (exp_Keys e)) = body_size (sec_Data s) (exp_Keys e)"
    by (simp add: body_size_def sum_list_sort)
  then show ?thesis
    using body_loop_length [of "sec_Data s" 0 "sort (exp_Keys e)"]
    by (simp add: body_size_def canonical_body_def split: if_splits)
qed

lemma etag_chars: "c \<in> set (ETag b u) \<Longrightarrow> visible c \<and> c \<noteq> CHR '',''"
  using hex_encode_digits [of c "hmac_sha256 u b"] by (auto simp: ETag_def quote_def visible_def)

lemma etagMatches_self:
  assumes "weak = [] \<or> weak = ''W/''"
  shows "etagMatches [weak @ ETag b u] (ETag b u)"
proof -
  have c: "c \<in> set (weak @ ETag b u) \<Longrightarrow> visible c \<and> c \<noteq> CHR '',''" for c
    using assms etag_chars [of c b u] by (auto simp: visible_def)
  then have "Split (weak @ ETag b u) (CHR '','') = [weak @ ETag b u]"
    by (intro Split_absent) blast
  moreover have "TrimSpace (weak @ ETag b u) = weak @ ETag b u"
    using c by (intro TrimSpace_visible) (metis hd_in_set last_in_set)
  moreover have "TrimPrefix (weak @ ETag b u) ''W/'' = ETag b u"
    using assms by (auto simp: TrimPrefix_def HasPrefix_def ETag_def quote_def)
  ultimately show ?thesis by (simp add: etagMatches_def Let_def)
qed

definition with_header :: "string \<Rightarrow> string list \<Rightarrow> Request \<Rightarrow> Request" where
  "with_header k vs r = r\<lparr>req_Header := (req_Header r)(k := vs)\<rparr>"

lemma with_If_None_Match [simp]:
  "Resolve cip (with_header ''If-None-Match'' vs r) = Resolve cip r"
  "Verify v (with_header ''If-None-Match'' vs r) = Verify v r"
  "has_payload (with_header ''If-None-Match'' vs r) = has_payload r"
  "req_URL (with_header k vs r) = req_URL r" "req_Method (with_header k vs r) = req_Method r"
  by (simp_all add: with_header_def Resolve_def Header_Values_def forwardedForHeader_def Verify_def
      BasicAuth_def Header_Get_def has_payload_def Let_def split: option.split prod.split)

lemma admitted_If_None_Match [simp]:
  "admitted V h (with_header ''If-None-Match'' vs r) e = admitted V h r e"
  "authorized src e (with_header ''If-None-Match'' vs r) = authorized src e r"
  by (simp_all add: admitted_def authorized_def)

text \<open>
  C32: revalidation. A client that got a body and repeats its request with the entity tag of that
  response, strong or weak, gets a 304 without body and with the same tag, as long as the
  configured values have not changed.
\<close>

theorem revalidation:
  assumes "keys_nonempty h" and "response V h r = Some w" and "rw_status w = 200"
    and "weak = [] \<or> weak = ''W/''"
  shows "\<exists>tag w'. map_of (rw_sent w) ''ETag'' = Some tag
    \<and> response V h (with_header ''If-None-Match'' [weak @ tag] r) = Some w'
    \<and> rw_status w' = 304 \<and> rw_body w' = [] \<and> map_of (rw_sent w') ''ETag'' = Some tag"
proof -
  obtain e s where es: "admitted V h r e" "authorized (h_secrets h) e r" "available (h_secrets h) e s"
    using response_status_served [OF assms(2) _ assms(1)] assms(3) by blast
  let ?tag = "ETag (canonical_body s e) (sec_UID s)"
  let ?r = "with_header ''If-None-Match'' [weak @ ?tag] r"
  have w: "w = body_response r (canonical_body s e) (sec_UID s)"
    using response_served [OF es assms(1)] assms(2) by simp
  have "response V h ?r = Some (body_response ?r (canonical_body s e) (sec_UID s))"
    using es assms(1) by (intro response_served) simp_all
  moreover have "conditional ?r (canonical_body s e) (sec_UID s)"
    using etagMatches_self [OF assms(4)] by (simp add: conditional_def with_header_def Header_Values_def)
  ultimately show ?thesis
    using w assms(3) by (simp add: body_response_def body_headers_def split: if_splits)
qed

definition as_method :: "string \<Rightarrow> Request \<Rightarrow> Request" where
  "as_method m r = r\<lparr>req_Method := m\<rparr>"

lemma as_method_simps [simp]:
  "Resolve cip (as_method m r) = Resolve cip r" "Verify v (as_method m r) = Verify v r"
  "has_payload (as_method m r) = has_payload r" "req_URL (as_method m r) = req_URL r"
  "req_Method (as_method m r) = m" "conditional (as_method m r) b u = conditional r b u"
  "Header_Values (as_method m r) k = Header_Values r k"
  by (simp_all add: as_method_def Resolve_def Header_Values_def Verify_def BasicAuth_def Header_Get_def
      has_payload_def conditional_def Let_def split: option.split prod.split)

definition bodyless :: "RespWriter \<Rightarrow> RespWriter" where
  "bodyless w = w\<lparr>rw_method := ''HEAD'', rw_body := []\<rparr>"

lemma bodyless_responses [simp]:
  "bodyless (error_response m x st) = error_response ''HEAD'' x st"
  "bodyless (ok_response m b u) = ok_response ''HEAD'' b u"
  "bodyless (not_modified_response m b u) = not_modified_response ''HEAD'' b u"
  "bodyless (body_response r b u) = body_response (as_method ''HEAD'' r) b u"
  by (simp_all add: bodyless_def error_response_def ok_response_def not_modified_response_def
      body_response_def Let_def)

lemma admitted_method:
  "admitted V h (as_method ''HEAD'' r) e = admitted V h (as_method ''GET'' r) e"
  by (simp add: admitted_def)

text \<open>
  HEAD. The response to a HEAD request has the status and the header fields of the response to
  the same GET request and no body; the body of a 200 to GET has the announced length.
\<close>

theorem HEAD_like_GET:
  assumes "keys_nonempty h"
  shows "response V h (as_method ''HEAD'' r) = map_option bodyless (response V h (as_method ''GET'' r))"
proof (cases "\<exists>e. admitted V h (as_method ''GET'' r) e")
  case False
  then have "response V h (as_method m r) = Some (refusal (as_method m r))" if "m = ''GET'' \<or> m = ''HEAD''" for m
    using that admitted_method by (auto intro!: response_refused)
  then show ?thesis by (simp add: refusal_def)
next
  case True
  then obtain e where g: "admitted V h (as_method ''GET'' r) e" by blast
  then have hd: "admitted V h (as_method ''HEAD'' r) e" by (simp add: admitted_method)
  note d = deliver_new [OF admitted_key [OF g assms]]
  obtain oc oc' where
    "pipeline V h (as_method ''GET'' r) = authenticate net_http_writer (h_secrets h) e (as_method ''GET'' r) (new_response ''GET'') oc"
    "pipeline V h (as_method ''HEAD'' r) = authenticate net_http_writer (h_secrets h) e (as_method ''HEAD'' r) (new_response ''HEAD'') oc'"
    using pipeline_admitted [OF g] pipeline_admitted [OF hd] by auto
  then show ?thesis
    using d [of "h_secrets h" "as_method ''GET'' r"] d [of "h_secrets h" "as_method ''HEAD'' r"]
      authenticate_new [of "h_secrets h" e "as_method ''GET'' r"]
      authenticate_new [of "h_secrets h" e "as_method ''HEAD'' r"]
    by (auto simp: response_pipeline challenge_response_def body_response_def
        split: sum.split panic_value.split)
qed

definition hardened :: "RespWriter \<Rightarrow> bool" where
  "hardened w \<longleftrightarrow> map_of (rw_sent w) ''Cache-Control'' = Some ''no-store''
     \<and> map_of (rw_sent w) ''X-Content-Type-Options'' = Some ''nosniff''"

lemma hardened_responses [simp]:
  "x = [] \<or> fst (hd x) \<notin> {''Cache-Control'', ''X-Content-Type-Options''} \<and> length x = 1 \<Longrightarrow>
    hardened (error_response m x st)"
  "hardened (ok_response m b u)" "hardened (not_modified_response m b u)"
  by (cases x; auto simp: hardened_def body_headers_def)+

definition documented :: "nat \<Rightarrow> reason \<Rightarrow> bool" where
  "documented st why \<longleftrightarrow> (case why of
      ReasonServed \<Rightarrow> st = 200
    | ReasonNotModified \<Rightarrow> st = 304
    | ReasonMethodNotAllowed \<Rightarrow> st = 405
    | ReasonNoRoute \<Rightarrow> st = 404
    | ReasonUnknownExposure \<Rightarrow> st = 404
    | ReasonClientNotAllowed \<Rightarrow> st = 404
    | ReasonClientAddressUnresolved \<Rightarrow> st = 404
    | ReasonAuthSecretUnavailable \<Rightarrow> st = 503
    | ReasonAuthSecretMalformed \<Rightarrow> st = 503
    | ReasonUnauthorized \<Rightarrow> st = 401
    | ReasonSourceSecretUnavailable \<Rightarrow> st = 503
    | ReasonConfiguredKeyMissing \<Rightarrow> st = 503
    | ReasonInternalError \<Rightarrow> st = 500)"

text \<open>What every way through the pipeline establishes.\<close>

definition requested_exposure :: "k8s_validation \<Rightarrow> Handler \<Rightarrow> Request \<Rightarrow> Exposure option" where
  "requested_exposure V h r =
     (if (req_Method r = ''GET'' \<or> req_Method r = ''HEAD'') \<and> \<not> has_payload r
      then (case parseRoute V (EscapedPath (req_URL r)) of None \<Rightarrow> None | Some name \<Rightarrow> h_exposures h name)
      else None)"

definition observed_name :: "k8s_validation \<Rightarrow> Handler \<Rightarrow> Request \<Rightarrow> string" where
  "observed_name V h r = (case requested_exposure V h r of None \<Rightarrow> [] | Some e \<Rightarrow> exp_Name e)"

lemma admitted_requested: "admitted V h r e \<Longrightarrow> requested_exposure V h r = Some e"
  by (auto simp: admitted_def requested_exposure_def)

lemma admitted_observed_name: "admitted V h r e \<Longrightarrow> observed_name V h r = exp_Name e"
  by (simp add: admitted_requested observed_name_def)

definition result_ok :: "string \<Rightarrow> RespWriter handled \<Rightarrow> bool" where
  "result_ok name x \<longleftrightarrow> (case x of (p, w, oc) \<Rightarrow>
     o_name oc = name
     \<and> (p = None \<longrightarrow> o_status oc = rw_status w \<and> hardened w
          \<and> (\<exists>why. o_reason oc = Some why \<and> documented (rw_status w) why)))"

lemma result_ok_deliver:
  assumes "[] \<notin> set (exp_Keys e)" and "o_name oc = name"
  shows "result_ok name (deliver net_http_writer src e r (new_response (req_Method r)) oc)"
  using assms
  by (auto simp: deliver_new result_ok_def documented_def body_response_def split: sum.split)

lemma result_ok_authenticate:
  assumes "[] \<notin> set (exp_Keys e)" and "o_name oc = name"
  shows "result_ok name (authenticate net_http_writer src e r (new_response (req_Method r)) oc)"
  using assms result_ok_deliver [OF assms]
  by (auto simp: authenticate_new result_ok_def documented_def challenge_response_def split: sum.split)

lemma result_ok_pipeline:
  assumes "keys_nonempty h"
  shows "result_ok (observed_name V h r) (pipeline V h r)"
proof (cases "\<exists>e. admitted V h r e")
  case True
  then obtain e where e: "admitted V h r e" by blast
  then show ?thesis
    using pipeline_admitted [OF e] result_ok_authenticate [OF admitted_key [OF e assms]]
    by (auto simp: admitted_observed_name)
next
  case False
  obtain client peer err where "Resolve (h_clientIP h) r = (client, peer, err)" by (metis prod_cases3)
  with False show ?thesis
    by (auto simp: pipeline_def handleRequest_def admitted_def fail_def result_ok_def documented_def
        observed_name_def requested_exposure_def writeError_new writeError_set new_outcome_def Let_def split: option.split)
qed

lemma finished_ok:
  assumes "keys_nonempty h" and "ServeHTTP V h r elapsed = Inr (w, f)"
  shows "f_status f = rw_status w
    \<and> (\<exists>why. f_reason f = Some why \<and> documented (rw_status w) why)
    \<and> f_name f = observed_name V h r \<and> hardened w"
proof -
  obtain p w' oc where pl: "pipeline V h r = (p, w', oc)" by (metis prod_cases3)
  with result_ok_pipeline [OF assms(1), of V r] assms(2) show ?thesis
    by (auto simp: ServeHTTP_pipeline result_ok_def finish_def writeError_new documented_def
        split: option.splits panic_value.splits)
qed

text \<open>
  C33: one observation per request. Unless the connection is aborted, the observer is told exactly
  once. The status it is told is the status that was sent; the reason is set and is one that belongs
  to this status; the name is that of the exposure the request names whenever it is a GET or HEAD
  without payload for the path of a configured exposure, refused or not, and empty for every other
  request; and every response forbids caching and content sniffing.
\<close>

theorem observed_once:
  assumes "keys_nonempty h" and "ServeHTTP V h r elapsed = Inr (w, f)"
  shows "f_status f = rw_status w
    \<and> (\<exists>why. f_reason f = Some why \<and> documented (rw_status w) why)
    \<and> f_name f = observed_name V h r \<and> hardened w"
  using assms by (rule finished_ok)

text \<open>
  C34: panics. Whatever the Secret source does, a request never ends without an answer: only
  \<^verbatim>\<open>http.ErrAbortHandler\<close> is passed on, to abort the connection; any other panic is answered
  with a 500 that reveals nothing, and is observed as an internal error.
\<close>

theorem panic_is_500:
  assumes "keys_nonempty h" and "admitted V h r e"
    and "h_secrets h (Auth_SecretRef (exp_Auth e)) = Inl p
      \<or> authorized (h_secrets h) e r \<and> h_secrets h (exp_Source e) = Inl p"
  shows "case p of
      ErrAbortHandler \<Rightarrow> ServeHTTP V h r elapsed = Inl ErrAbortHandler
    | OtherPanic \<Rightarrow> (\<exists>f. ServeHTTP V h r elapsed = Inr (error_response (req_Method r) [] 500, f)
        \<and> f_status f = 500 \<and> f_reason f = Some ReasonInternalError \<and> f_name f = exp_Name e
        \<and> f_level f = LevelError)"
proof -
  obtain client peer where pl: "pipeline V h r = authenticate net_http_writer (h_secrets h) e r
      (new_response (req_Method r)) (new_outcome\<lparr>o_client := client, o_peer := peer, o_name := exp_Name e\<rparr>)"
    using pipeline_admitted [OF assms(2)] by blast
  have "\<exists>oc. pipeline V h r = (Some p, new_response (req_Method r), oc) \<and> o_name oc = exp_Name e"
    using assms(3) deliver_new [OF admitted_key [OF assms(2,1)]]
    by (auto simp: pl authenticate_new authorized_def)
  then show ?thesis
    by (auto simp: ServeHTTP_pipeline writeError_new finish_def log_level_of_def split: panic_value.split)
qed

section \<open>The source of Secrets\<close>

text \<open>
  What the handler relies on in a \<^verbatim>\<open>SecretSource\<close>: \<^verbatim>\<open>Secret\<close> returns. Then every request is
  answered, and the status follows from the Secrets alone.
\<close>

definition usable_credentials :: "SecretSource \<Rightarrow> Exposure \<Rightarrow> bool" where
  "usable_credentials secrets e \<longleftrightarrow> (\<exists>s verifier. secrets (Auth_SecretRef (exp_Auth e)) = Inr s
     \<and> sec_Present s \<and> NewBasic (sec_Data s) = Inr verifier)"

definition served_status :: "SecretSource \<Rightarrow> Exposure \<Rightarrow> Request \<Rightarrow> nat \<Rightarrow> bool" where
  "served_status secrets e r st \<longleftrightarrow>
     (if \<not> usable_credentials secrets e then st = 503
      else if \<not> authorized secrets e r then st = 401
      else if \<nexists>s. available secrets e s then st = 503
      else \<exists>s. available secrets e s \<and> st = (if conditional r (canonical_body s e) (sec_UID s) then 304 else 200))"

lemma authorized_usable: "authorized secrets e r \<Longrightarrow> usable_credentials secrets e"
  by (auto simp: authorized_def usable_credentials_def)

locale secret_source =
  fixes secrets :: SecretSource
  assumes returns: "\<exists>s. secrets ref = Inr s"
begin

lemma answered_admitted:
  assumes "h_secrets h = secrets" and "keys_nonempty h" and "admitted V h r e"
  shows "\<exists>w. response V h r = Some w \<and> served_status secrets e r (rw_status w)"
proof -
  obtain a where a: "secrets (Auth_SecretRef (exp_Auth e)) = Inr a" using returns by blast
  obtain s where s: "secrets (exp_Source e) = Inr s" using returns by blast
  obtain oc where p: "pipeline V h r = authenticate net_http_writer secrets e r (new_response (req_Method r)) oc"
    using pipeline_admitted [OF assms(3)] assms(1) by blast
  note deliver = deliver_new [OF admitted_key [OF assms(3,2)], of secrets r]
  show ?thesis
  proof (cases "usable_credentials secrets e")
    case False
    with a p have "response V h r = Some (error_response (req_Method r) [] 503)"
      by (auto simp: response_pipeline authenticate_new usable_credentials_def split: sum.splits)
    with False show ?thesis by (simp add: served_status_def)
  next
    case True
    then obtain verifier where v: "sec_Present a" "NewBasic (sec_Data a) = Inr verifier"
      using a by (auto simp: usable_credentials_def)
    have auth: "authorized secrets e r \<longleftrightarrow> Verify verifier r" using a v by (simp add: authorized_def)
    show ?thesis
    proof (cases "Verify verifier r")
      case False
      then have "response V h r = Some (challenge_response r)" using a v p by (simp add: response_pipeline authenticate_new)
      with True False auth show ?thesis by (simp add: served_status_def challenge_response_def)
    next
      case verified: True
      then have r: "response V h r = (case deliver net_http_writer secrets e r (new_response (req_Method r)) oc of
          (None, w, oc) \<Rightarrow> Some w | (Some ErrAbortHandler, w, oc) \<Rightarrow> None
        | (Some OtherPanic, w, oc) \<Rightarrow> Some (error_response (req_Method r) [] 500))"
        using a v p by (simp add: response_pipeline authenticate_new)
      show ?thesis
      proof (cases "available secrets e s")
        case False
        then have "response V h r = Some (error_response (req_Method r) [] 503)"
          using s by (auto simp: r deliver available_def)
        moreover have "\<nexists>s. available secrets e s" using False s by (auto simp: available_def)
        ultimately show ?thesis using True verified auth by (simp add: served_status_def)
      next
        case av: True
        then have "response V h r = Some (body_response r (canonical_body s e) (sec_UID s))"
          using s by (simp add: r deliver available_def)
        moreover have "rw_status (body_response r (canonical_body s e) (sec_UID s))
            = (if conditional r (canonical_body s e) (sec_UID s) then 304 else 200)"
          by (simp add: body_response_def not_modified_response_def ok_response_def Let_def)
        ultimately show ?thesis using True verified auth av by (auto simp: served_status_def)
      qed
    qed
  qed
qed

lemma answered_refused:
  assumes "\<nexists>e. admitted V h r e"
  shows "\<exists>w. response V h r = Some w \<and> rw_status w = (if req_Method r = ''GET'' \<or> req_Method r = ''HEAD'' then 404 else 405)"
  using response_refused [of V h r] assms by (auto simp: refusal_def)

end

section \<open>A concrete gateway\<close>

definition ex_exposure :: Exposure where
  "ex_exposure = \<lparr>exp_Name = ''app'', exp_Source = SecretRef ''ns'' ''db'',
     exp_AllowedCIDRs = [Prefix (Addr4 0x0A000000) 8], exp_Auth = Auth (SecretRef ''ns'' ''creds''),
     exp_Keys = [''k'']\<rparr>"

definition ex_creds :: Secret where
  "ex_creds = \<lparr>sec_Present = True, sec_Synced = True, sec_Data = [''username'' \<mapsto> ''u'', ''password'' \<mapsto> ''p''],
     sec_ResourceVersion = ''1'', sec_UID = ''c''\<rparr>"

definition ex_source :: Secret where
  "ex_source = \<lparr>sec_Present = True, sec_Synced = True, sec_Data = [''k'' \<mapsto> ''v'', ''other'' \<mapsto> ''x''],
     sec_ResourceVersion = ''2'', sec_UID = ''d''\<rparr>"

definition ex_secrets :: SecretSource where
  "ex_secrets ref = (if ref = SecretRef ''ns'' ''creds'' then Inr ex_creds
     else if ref = SecretRef ''ns'' ''db'' then Inr ex_source else Inr zero_Secret)"

definition ex_handler :: Handler where
  "ex_handler = \<lparr>h_exposures = [''app'' \<mapsto> ex_exposure], h_secrets = ex_secrets, h_clientIP = Resolver []\<rparr>"

definition ex_login :: "string \<Rightarrow> Request" where
  "ex_login password = with_header ''Authorization'' [basic_auth_value ''u'' password] (ex_request [])"

lemma ex_handler_secrets: "h_secrets ex_handler = ex_secrets"
  by (simp add: ex_handler_def)

lemma ex_keys: "keys_nonempty ex_handler"
  by (simp add: keys_nonempty_def ex_handler_def ex_exposure_def)

lemma ex_resolved: "Resolve (Resolver []) (ex_request []) = (Addr4 0x0A000001, Addr4 0x0A000001, None)"
  by (simp add: Resolve_hops ex_request_def isTrusted_def normalizeAddr_def eval_simps)

lemma ex_login_simps [simp]:
  "req_Method (ex_login pw) = ''GET''" "has_payload (ex_login pw) = False"
  "EscapedPath (req_URL (ex_login pw)) = ''/exposures/app''"
  "Resolve (Resolver []) (ex_login pw) = (Addr4 0x0A000001, Addr4 0x0A000001, None)"
proof -
  show "Resolve (Resolver []) (ex_login pw) = (Addr4 0x0A000001, Addr4 0x0A000001, None)"
    using ex_resolved by (simp add: ex_login_def with_header_def Resolve_hops isTrusted_def split: option.splits prod.splits)
qed (simp_all add: ex_login_def with_header_def ex_request_def has_payload_def EscapedPath_def
    shouldEscape_def is_alnum_def eval_simps)

lemma ex_parseRoute [simp]: "parseRoute ex_V ''/exposures/app'' = Some ''app''"
  by (simp add: parseRoute_def exposuresPrefix_def CutPrefix_def HasPrefix_def ValidateName_def ex_V_def
      subdomain_char_def label_char_def eval_simps)

lemma ex_admitted: "admitted ex_V ex_handler (ex_login pw) ex_exposure"
  by (simp add: admitted_def ex_handler_def AllowsClient_def ex_exposure_def)

lemma ex_authorized: "authorized ex_secrets ex_exposure (ex_login ''p'')"
proof -
  have "BasicAuth (ex_login ''p'') = Some (''u'', ''p'')"
    by (rule BasicAuth_SetBasicAuth) (simp_all add: ex_login_def with_header_def)
  then show ?thesis
    by (simp add: authorized_def ex_exposure_def ex_secrets_def ex_creds_def NewBasic_Inr UsernameKey_def
        PasswordKey_def Verify_def Basic_matches_iff)
qed

lemma ex_available: "available ex_secrets ex_exposure ex_source"
  by (simp add: available_def ex_secrets_def ex_exposure_def ex_source_def)

lemma ex_served:
  "response ex_V ex_handler (ex_login ''p'')
    = Some (body_response (ex_login ''p'') (canonical_body ex_source ex_exposure) (sec_UID ex_source))"
  using response_served [OF ex_admitted _ _ ex_keys] ex_authorized ex_available by (simp add: ex_handler_def)

lemma ex_unconditional: "\<not> conditional (ex_login ''p'') b u"
  by (simp add: conditional_def ex_login_def with_header_def ex_request_def Header_Values_def
      forwardedForHeader_def etagMatches_def)

lemma ex_ok: "response ex_V ex_handler (ex_login ''p'')
    = Some (ok_response ''GET'' (canonical_body ex_source ex_exposure) (sec_UID ex_source))"
  using ex_served by (simp add: body_response_def ex_unconditional)

definition ex_far :: Request where
  "ex_far = (ex_login ''p'')\<lparr>req_RemoteAddr := ''9.9.9.9:80''\<rparr>"

lemma ex_far_simps:
  "EscapedPath (req_URL ex_far) = ''/exposures/app''"
  "Resolve (Resolver []) ex_far = (Addr4 0x09090909, Addr4 0x09090909, None)"
  by (simp_all add: ex_far_def Resolve_hops isTrusted_def normalizeAddr_def eval_simps)

theorem outside_is_unknown_witness:
  "response ex_V ex_handler ex_far
    = response ex_V (ex_handler\<lparr>h_exposures := (h_exposures ex_handler)(''app'' := None),
        h_secrets := (\<lambda>_. Inl OtherPanic)\<rparr>) ex_far"
  using outside_is_unknown [of ex_handler ex_exposure ex_far "Addr4 0x09090909" "Addr4 0x09090909" None ex_V
      "\<lambda>_. Inl OtherPanic"] ex_far_simps
  by (simp add: ex_handler_def ex_exposure_def AllowsClient_def)

lemma ex_anonymous: "\<not> authorized ex_secrets ex_exposure (ex_request [])"
  by (simp add: authorized_def Verify_def BasicAuth_def Header_Get_def ex_request_def
      forwardedForHeader_def Let_def)

lemma ex_anonymous_admitted: "admitted ex_V ex_handler (ex_request []) e \<longleftrightarrow> e = ex_exposure"
proof -
  have "EscapedPath (req_URL (ex_request [])) = ''/exposures/app''" "\<not> has_payload (ex_request [])"
    "req_Method (ex_request []) = ''GET''"
    by (simp_all add: ex_request_def has_payload_def EscapedPath_def shouldEscape_def is_alnum_def eval_simps)
  with ex_resolved show ?thesis
    by (auto simp: admitted_def ex_handler_def AllowsClient_def ex_exposure_def)
qed

theorem served_iff_allowed_witness:
  "response ex_V ex_handler (ex_login ''p'')
     = Some (body_response (ex_login ''p'') (canonical_body ex_source ex_exposure) (sec_UID ex_source))
   \<and> \<not> (\<exists>w. response ex_V ex_handler (ex_request []) = Some w \<and> (rw_status w = 200 \<or> rw_status w = 304))"
  using served_iff_allowed [OF ex_keys, of ex_V "ex_login ''p''"] served_iff_allowed [OF ex_keys, of ex_V "ex_request []"]
    ex_admitted [of "''p''"] ex_authorized ex_available ex_anonymous
  by (auto simp: ex_handler_secrets ex_anonymous_admitted)

theorem unauthorized_noninterference_witness:
  "response ex_V (ex_handler\<lparr>h_secrets := (\<lambda>ref. if ref = SecretRef ''ns'' ''creds'' then Inr ex_creds
       else Inl OtherPanic)\<rparr>) (ex_request [])
    = response ex_V ex_handler (ex_request [])"
proof (rule unauthorized_noninterference)
  fix e
  assume "admitted ex_V ex_handler (ex_request []) e"
  then have "e = ex_exposure" by (simp add: ex_anonymous_admitted)
  moreover have "h_secrets ex_handler = ex_secrets" by (simp add: ex_handler_def)
  moreover have "Auth_SecretRef (exp_Auth ex_exposure) = SecretRef ''ns'' ''creds''"
    by (simp add: ex_exposure_def)
  ultimately show "\<not> authorized (h_secrets ex_handler) e (ex_request [])
      \<and> (\<lambda>ref. if ref = SecretRef ''ns'' ''creds'' then Inr ex_creds else Inl OtherPanic)
          (Auth_SecretRef (exp_Auth e)) = h_secrets ex_handler (Auth_SecretRef (exp_Auth e))"
    using ex_anonymous by (simp add: ex_secrets_def)
qed

theorem unconfigured_keys_noninterference_witness:
  "response ex_V (ex_handler\<lparr>h_secrets := (\<lambda>ref. if ref = SecretRef ''ns'' ''creds'' then Inr ex_creds
       else Inr (ex_source\<lparr>sec_Data := [''k'' \<mapsto> ''v''], sec_ResourceVersion := ''9''\<rparr>))\<rparr>) (ex_login ''p'')
    = response ex_V ex_handler (ex_login ''p'')"
  by (rule unconfigured_keys_noninterference [OF ex_keys ex_admitted, where s = ex_source
      and s' = "ex_source\<lparr>sec_Data := [''k'' \<mapsto> ''v''], sec_ResourceVersion := ''9''\<rparr>"])
    (simp_all add: ex_exposure_def ex_handler_def ex_secrets_def ex_source_def)

theorem revalidation_witness:
  "\<exists>tag w'. response ex_V ex_handler (with_header ''If-None-Match'' [''W/'' @ tag] (ex_login ''p'')) = Some w'
    \<and> rw_status w' = 304 \<and> rw_body w' = []"
  using revalidation [OF ex_keys ex_ok, of "''W/''"] by auto

theorem HEAD_like_GET_witness:
  "response ex_V ex_handler (as_method ''HEAD'' (ex_login ''p''))
    = map_option bodyless (response ex_V ex_handler (as_method ''GET'' (ex_login ''p'')))"
  by (rule HEAD_like_GET [OF ex_keys])

lemma ex_served_finished:
  "\<exists>w f. ServeHTTP ex_V ex_handler (ex_login ''p'') elapsed = Inr (w, f)"
proof -
  obtain p w oc where "pipeline ex_V ex_handler (ex_login ''p'') = (p, w, oc)" by (metis prod_cases3)
  with ex_ok show ?thesis
    by (auto simp: response_pipeline ServeHTTP_pipeline split: option.splits panic_value.splits)
qed

theorem observed_once_witness:
  "\<exists>w f. ServeHTTP ex_V ex_handler (ex_login ''p'') 3 = Inr (w, f) \<and> f_status f = rw_status w
    \<and> f_name f = ''app'' \<and> hardened w"
proof -
  obtain w f where f: "ServeHTTP ex_V ex_handler (ex_login ''p'') 3 = Inr (w, f)"
    using ex_served_finished by blast
  have "observed_name ex_V ex_handler (ex_login ''p'') = ''app''"
    using admitted_observed_name [OF ex_admitted] by (simp add: ex_exposure_def)
  with observed_once [OF ex_keys f] f show ?thesis by (intro exI [of _ w] exI [of _ f]) simp
qed

theorem panic_is_500_witness:
  "\<exists>f. ServeHTTP ex_V (ex_handler\<lparr>h_secrets := (\<lambda>_. Inl OtherPanic)\<rparr>) (ex_login ''p'') 3
    = Inr (error_response ''GET'' [] 500, f) \<and> f_status f = 500"
proof -
  have "keys_nonempty (ex_handler\<lparr>h_secrets := (\<lambda>_. Inl OtherPanic)\<rparr>)"
    using ex_keys by (simp add: keys_nonempty_def)
  from panic_is_500 [OF this, of ex_V "ex_login ''p''" ex_exposure OtherPanic 3] ex_admitted
  show ?thesis by auto
qed

end
