(* ===== verification/Manager.thy ===== *)
theory Manager
  imports Resources
begin

text \<open>
  \<^verbatim>\<open>gateway/internal/resources/manager.go\<close>, second part: the Manager and its goroutines.

  Every Secret has one goroutine, the method \<^verbatim>\<open>run\<close> with \<^verbatim>\<open>cycle\<close>, \<^verbatim>\<open>list\<close>
  and \<^verbatim>\<open>watch\<close> inlined. Its control state says at which blocking point it is; an
  \<open>input\<close> is what the environment supplies there: the answer of the API client, the event a
  \<^verbatim>\<open>select\<close> received, the outcome of \<^verbatim>\<open>ctx.Err()\<close>, the time, the entropy of
  \<^verbatim>\<open>rand.N\<close>. \<open>go_step\<close> runs one goroutine from one blocking point to the next, under
  the recover handler of \<^verbatim>\<open>cycle\<close> and the deferred calls of \<^verbatim>\<open>run\<close> and
  \<^verbatim>\<open>watch\<close>; \<open>steps\<close> interleaves the goroutines in any order.
\<close>

section \<open>Model\<close>

datatype ctrl =
    LoopHead
  | Listing
  | Opening string
  | Watching
  | CycleDone bool
  | Sleeping duration
  | Exited

record goroutine =
  g_ctrl :: ctrl
  g_bo :: backoff
  g_start :: int

record Manager =
  m_opts :: Options
  m_resources :: "SecretRef \<rightharpoonup> resource"
  m_sorted :: "SecretRef list"
  m_started :: bool
  m_pending :: int
  m_initialized :: channel
  m_go :: "SecretRef \<rightharpoonup> goroutine"

fun new_resources :: "SecretRef list \<Rightarrow> (SecretRef \<rightharpoonup> resource) \<times> SecretRef list
    \<Rightarrow> (SecretRef \<rightharpoonup> resource) \<times> SecretRef list" where
  "new_resources [] acc = acc"
| "new_resources (ref # refs) (rs, srt) =
     (if rs ref \<noteq> None then new_resources refs (rs, srt)
      else new_resources refs (rs(ref \<mapsto> new_resource ref), srt @ [ref]))"

definition NewManager :: "SecretRef list \<Rightarrow> Options \<Rightarrow> Manager" where
  "NewManager refs opts =
     (case new_resources refs (Map.empty, []) of (rs, srt) \<Rightarrow>
      \<lparr>m_opts = withDefaults opts, m_resources = rs, m_sorted = sort srt, m_started = False,
       m_pending = int (length srt),
       m_initialized = (if length srt = 0 then close_chan Open else Open),
       m_go = Map.empty\<rparr>)"

definition new_goroutine :: "Options \<Rightarrow> goroutine" where
  "new_goroutine opts = \<lparr>g_ctrl = LoopHead,
     g_bo = \<lparr>bo_initial = InitialBackoff opts, bo_max = MaxBackoff opts, bo_current = 0\<rparr>,
     g_start = 0\<rparr>"

definition Start :: "Manager \<Rightarrow> Manager" where
  "Start m =
     (if m_started m then m
      else m\<lparr>m_started := True,
        m_go := (\<lambda>ref. if ref \<in> set (m_sorted m) then Some (new_goroutine (m_opts m)) else None)\<rparr>)"

definition Initialized :: "Manager \<Rightarrow> bool" where
  "Initialized m \<longleftrightarrow> m_initialized m \<noteq> Open"

text \<open>
  The blocking calls: the list of results a \<^verbatim>\<open>select\<close> may return now; an empty list means
  the caller blocks.
\<close>

datatype wait_result = WaitOk | WaitCancelled | NotManaged

definition WaitInitialized :: "bool \<Rightarrow> Manager \<Rightarrow> wait_result list" where
  "WaitInitialized cancelled m =
     (if m_initialized m \<noteq> Open then [WaitOk] else []) @ (if cancelled then [WaitCancelled] else [])"

definition WaitSynced :: "bool \<Rightarrow> SecretRef \<Rightarrow> Manager \<Rightarrow> wait_result list" where
  "WaitSynced cancelled ref m = (case m_resources m ref of
      None \<Rightarrow> [NotManaged]
    | Some r \<Rightarrow>
      (if r_synced r \<noteq> Open then [WaitOk] else []) @ (if cancelled then [WaitCancelled] else []))"

text \<open>\<^verbatim>\<open>Wait\<close> returns when every goroutine that was started has exited.\<close>

definition Wait_returns :: "Manager \<Rightarrow> bool" where
  "Wait_returns m \<longleftrightarrow>
     list_all (\<lambda>ref. case m_go m ref of None \<Rightarrow> True | Some g \<Rightarrow> g_ctrl g = Exited) (m_sorted m)"

definition Manager_Secret :: "Manager \<Rightarrow> SecretRef \<Rightarrow> Secret" where
  "Manager_Secret m ref = (case m_resources m ref of
      None \<Rightarrow> zero_Secret
    | Some r \<Rightarrow> snapshot r)"

definition Statuses :: "Manager \<Rightarrow> Status list" where
  "Statuses m = List.map_filter (\<lambda>ref. map_option status (m_resources m ref)) (m_sorted m)"

definition initDone :: "Manager \<Rightarrow> Manager" where
  "initDone m =
     (let p = m_pending m - 1
      in m\<lparr>m_pending := p,
           m_initialized := (if p = 0 then close_chan (m_initialized m) else m_initialized m)\<rparr>)"

text \<open>\<^verbatim>\<open>r.initOnce.Do(m.initDone)\<close>.\<close>

definition initOnce_Do :: "SecretRef \<Rightarrow> Manager \<Rightarrow> Manager" where
  "initOnce_Do ref m = (case m_resources m ref of
      None \<Rightarrow> m
    | Some r \<Rightarrow>
      if r_initOnce r then m
      else initDone (m\<lparr>m_resources := (m_resources m)(ref \<mapsto> r\<lparr>r_initOnce := True\<rparr>)\<rparr>))"

definition update_resource :: "SecretRef \<Rightarrow> (resource \<Rightarrow> resource) \<Rightarrow> Manager \<Rightarrow> Manager" where
  "update_resource ref f m =
     m\<lparr>m_resources := (m_resources m)(ref := map_option f (m_resources m ref))\<rparr>"

definition goto :: "SecretRef \<Rightarrow> ctrl \<Rightarrow> Manager \<Rightarrow> Manager" where
  "goto ref c m = m\<lparr>m_go := (m_go m)(ref := map_option (\<lambda>g. g\<lparr>g_ctrl := c\<rparr>) (m_go m ref))\<rparr>"

definition set_start :: "SecretRef \<Rightarrow> int \<Rightarrow> Manager \<Rightarrow> Manager" where
  "set_start ref t m = m\<lparr>m_go := (m_go m)(ref := map_option (\<lambda>g. g\<lparr>g_start := t\<rparr>) (m_go m ref))\<rparr>"

definition set_backoff :: "SecretRef \<Rightarrow> backoff \<Rightarrow> Manager \<Rightarrow> Manager" where
  "set_backoff ref b m = m\<lparr>m_go := (m_go m)(ref := map_option (\<lambda>g. g\<lparr>g_bo := b\<rparr>) (m_go m ref))\<rparr>"

text \<open>The deferred recover of \<^verbatim>\<open>cycle\<close>, and the deferred calls of \<^verbatim>\<open>run\<close>.\<close>

definition recover_cycle :: "SecretRef \<Rightarrow> Manager \<Rightarrow> Manager" where
  "recover_cycle ref m =
     goto ref (CycleDone False) (update_resource ref recordWatchError (initOnce_Do ref m))"

definition exit_run :: "SecretRef \<Rightarrow> Manager \<Rightarrow> Manager" where
  "exit_run ref m = goto ref Exited (initOnce_Do ref m)"

text \<open>\<^verbatim>\<open>watch\<close> returns normally: the connection flag is reset, the cycle reports its health.\<close>

definition end_cycle :: "SecretRef \<Rightarrow> int \<Rightarrow> int \<Rightarrow> Manager \<Rightarrow> Manager" where
  "end_cycle ref start now m = goto ref (CycleDone (StableWatchDuration (m_opts m) \<le> now - start)) m"

definition leave_watch :: "SecretRef \<Rightarrow> int \<Rightarrow> int \<Rightarrow> Manager \<Rightarrow> Manager" where
  "leave_watch ref start now m =
     end_cycle ref start now (update_resource ref (setConnected False) m)"

datatype input =
    CtxCheck bool
  | ListAnswer "(api_error, SecretList option) call" bool int int
  | WatchAnswer "(api_error, bool) call" bool nat nat int
  | WatchDeadline int
  | WatchClosed int
  | WatchEvent Event int
  | ReconcileAnswer "(api_error, k8s_Secret option) call" bool nat int
  | AfterCycle bool nat
  | TimerFired
  | SleepCancelled

text \<open>\<^verbatim>\<open>list\<close> inside \<^verbatim>\<open>cycle\<close>, then the start of \<^verbatim>\<open>watch\<close>.\<close>

definition step_list :: "SecretRef \<Rightarrow> resource \<Rightarrow> (api_error, SecretList option) call \<Rightarrow> bool \<Rightarrow> int
    \<Rightarrow> int \<Rightarrow> Manager \<Rightarrow> Manager" where
  "step_list ref r answer cancelled now start m =
     (if answer = Panics then recover_cycle ref m
      else case list_secret answer cancelled now r of (rv, r') \<Rightarrow>
        let m' = initOnce_Do ref (update_resource ref (\<lambda>_. r') m)
        in case rv of
            None \<Rightarrow> goto ref (CycleDone False) m'
          | Some v \<Rightarrow> goto ref (Opening v) (set_start ref start m'))"

definition step_open :: "SecretRef \<Rightarrow> goroutine \<Rightarrow> (api_error, bool) call \<Rightarrow> bool \<Rightarrow> nat \<Rightarrow> nat \<Rightarrow> int
    \<Rightarrow> Manager \<Rightarrow> Manager" where
  "step_open ref g answer cancelled e1 e2 now m =
     (if rand_N e1 (WatchTimeout (m_opts m)) = None then recover_cycle ref m
      else case answer of
          Panics \<Rightarrow> recover_cycle ref m
        | Returns True \<Rightarrow>
          let m' = update_resource ref (setConnected True) m in
          if jitter e2 (ReconcileInterval (m_opts m)) = None
          then recover_cycle ref (update_resource ref (setConnected False) m')
          else goto ref Watching m'
        | _ \<Rightarrow> end_cycle ref (g_start g) now
                (if cancelled then m else update_resource ref recordWatchError m))"

definition step_reconcile :: "SecretRef \<Rightarrow> goroutine \<Rightarrow> resource \<Rightarrow> (api_error, k8s_Secret option) call
    \<Rightarrow> bool \<Rightarrow> nat \<Rightarrow> int \<Rightarrow> Manager \<Rightarrow> Manager" where
  "step_reconcile ref g r answer cancelled e now m =
     (if answer = Panics then recover_cycle ref (update_resource ref (setConnected False) m)
      else case reconcile answer cancelled now r of (ok, r') \<Rightarrow>
        let m' = update_resource ref (\<lambda>_. r') m in
        if \<not> ok then leave_watch ref (g_start g) now m'
        else if jitter e (ReconcileInterval (m_opts m)) = None
        then recover_cycle ref (update_resource ref (setConnected False) m')
        else m')"

definition step_event :: "SecretRef \<Rightarrow> goroutine \<Rightarrow> resource \<Rightarrow> Event \<Rightarrow> int \<Rightarrow> Manager \<Rightarrow> Manager" where
  "step_event ref g r ev now m = (case handleEvent ev now r of (ok, r') \<Rightarrow>
     let m' = update_resource ref (\<lambda>_. r') m
     in if ok then m' else leave_watch ref (g_start g) now m')"

text \<open>The rest of the loop body of \<^verbatim>\<open>run\<close>. A panic of \<^verbatim>\<open>next\<close> would end the process.\<close>

definition step_after :: "SecretRef \<Rightarrow> goroutine \<Rightarrow> bool \<Rightarrow> bool \<Rightarrow> nat \<Rightarrow> Manager \<Rightarrow> Manager option" where
  "step_after ref g healthy cancelled e m =
     (if cancelled then Some (exit_run ref m)
      else if healthy then Some (goto ref LoopHead (set_backoff ref (backoff_reset (g_bo g)) m))
      else case backoff_next e (g_bo g) of (delay, b) \<Rightarrow>
        map_option (\<lambda>d. goto ref (Sleeping d) (set_backoff ref b m)) delay)"

definition go_step :: "SecretRef \<Rightarrow> input \<Rightarrow> Manager \<Rightarrow> Manager option" where
  "go_step ref inp m = (case m_go m ref of
      None \<Rightarrow> None
    | Some g \<Rightarrow> (case m_resources m ref of
        None \<Rightarrow> None
      | Some r \<Rightarrow> (case g_ctrl g of
          LoopHead \<Rightarrow> (case inp of
              CtxCheck cancelled \<Rightarrow>
                Some (if cancelled then exit_run ref m else goto ref Listing m)
            | _ \<Rightarrow> None)
        | Listing \<Rightarrow> (case inp of
              ListAnswer a cancelled now start \<Rightarrow> Some (step_list ref r a cancelled now start m)
            | _ \<Rightarrow> None)
        | Opening rv \<Rightarrow> (case inp of
              WatchAnswer a cancelled e1 e2 now \<Rightarrow> Some (step_open ref g a cancelled e1 e2 now m)
            | _ \<Rightarrow> None)
        | Watching \<Rightarrow> (case inp of
              WatchDeadline now \<Rightarrow> Some (leave_watch ref (g_start g) now m)
            | WatchClosed now \<Rightarrow> Some (leave_watch ref (g_start g) now m)
            | WatchEvent ev now \<Rightarrow> Some (step_event ref g r ev now m)
            | ReconcileAnswer a cancelled e now \<Rightarrow> Some (step_reconcile ref g r a cancelled e now m)
            | _ \<Rightarrow> None)
        | CycleDone healthy \<Rightarrow> (case inp of
              AfterCycle cancelled e \<Rightarrow> step_after ref g healthy cancelled e m
            | _ \<Rightarrow> None)
        | Sleeping d \<Rightarrow> (case inp of
              TimerFired \<Rightarrow> Some (goto ref LoopHead m)
            | SleepCancelled \<Rightarrow> Some (exit_run ref m)
            | _ \<Rightarrow> None)
        | Exited \<Rightarrow> None)))"

inductive steps :: "Manager \<Rightarrow> (SecretRef \<times> input) list \<Rightarrow> Manager \<Rightarrow> bool" where
  steps_refl: "steps m [] m"
| steps_step: "steps m tr m' \<Longrightarrow> go_step ref inp m' = Some m'' \<Longrightarrow> steps m (tr @ [(ref, inp)]) m''"

text \<open>A run along a given trace, computed.\<close>

fun run_trace :: "(SecretRef \<times> input) list \<Rightarrow> Manager \<Rightarrow> Manager option" where
  "run_trace [] m = Some m"
| "run_trace ((ref, inp) # tr) m = (case go_step ref inp m of None \<Rightarrow> None | Some m' \<Rightarrow> run_trace tr m')"

inductive_simps steps_Nil [simp]: "steps m [] m'"
inductive_cases steps_snocE: "steps m (tr @ [x]) m'"

lemma steps_Cons:
  "go_step ref inp m = Some m' \<Longrightarrow> steps m' tr m'' \<Longrightarrow> steps m ((ref, inp) # tr) m''"
proof (induction tr arbitrary: m'' rule: rev_induct)
  case Nil
  then show ?case using steps_step [OF steps_refl, of ref inp m m''] by simp
next
  case (snoc x tr)
  obtain ref' inp' where x: "x = (ref', inp')" by fastforce
  from snoc.prems(2) obtain n where "steps m' tr n" "go_step ref' inp' n = Some m''"
    unfolding x by (auto elim: steps_snocE)
  with snoc.IH [OF snoc.prems(1)] show ?case
    using steps_step [of m "(ref, inp) # tr" n ref' inp' m''] by (simp add: x)
qed

lemma run_trace_steps: "run_trace tr m = Some m' \<Longrightarrow> steps m tr m'"
  by (induction tr m rule: run_trace.induct) (auto intro: steps_Cons split: option.splits)

section \<open>Projections\<close>

lemma update_resource_simps [simp]:
  "m_opts (update_resource ref f m) = m_opts m" "m_sorted (update_resource ref f m) = m_sorted m"
  "m_started (update_resource ref f m) = m_started m" "m_pending (update_resource ref f m) = m_pending m"
  "m_initialized (update_resource ref f m) = m_initialized m" "m_go (update_resource ref f m) = m_go m"
  "m_resources (update_resource ref f m) = (m_resources m)(ref := map_option f (m_resources m ref))"
  by (simp_all add: update_resource_def)

lemma goto_simps [simp]:
  "m_opts (goto ref c m) = m_opts m" "m_sorted (goto ref c m) = m_sorted m"
  "m_started (goto ref c m) = m_started m" "m_pending (goto ref c m) = m_pending m"
  "m_initialized (goto ref c m) = m_initialized m" "m_resources (goto ref c m) = m_resources m"
  "m_go (goto ref c m) = (m_go m)(ref := map_option (\<lambda>g. g\<lparr>g_ctrl := c\<rparr>) (m_go m ref))"
  by (simp_all add: goto_def)

lemma set_start_simps [simp]:
  "m_opts (set_start ref t m) = m_opts m" "m_sorted (set_start ref t m) = m_sorted m"
  "m_started (set_start ref t m) = m_started m" "m_pending (set_start ref t m) = m_pending m"
  "m_initialized (set_start ref t m) = m_initialized m" "m_resources (set_start ref t m) = m_resources m"
  "m_go (set_start ref t m) = (m_go m)(ref := map_option (\<lambda>g. g\<lparr>g_start := t\<rparr>) (m_go m ref))"
  by (simp_all add: set_start_def)

lemma set_backoff_simps [simp]:
  "m_opts (set_backoff ref b m) = m_opts m" "m_sorted (set_backoff ref b m) = m_sorted m"
  "m_started (set_backoff ref b m) = m_started m" "m_pending (set_backoff ref b m) = m_pending m"
  "m_initialized (set_backoff ref b m) = m_initialized m" "m_resources (set_backoff ref b m) = m_resources m"
  "m_go (set_backoff ref b m) = (m_go m)(ref := map_option (\<lambda>g. g\<lparr>g_bo := b\<rparr>) (m_go m ref))"
  by (simp_all add: set_backoff_def)

lemma initOnce_Do_simps [simp]:
  "m_opts (initOnce_Do ref m) = m_opts m" "m_sorted (initOnce_Do ref m) = m_sorted m"
  "m_started (initOnce_Do ref m) = m_started m" "m_go (initOnce_Do ref m) = m_go m"
  "m_resources (initOnce_Do ref m) =
     (m_resources m)(ref := map_option (\<lambda>r. r\<lparr>r_initOnce := True\<rparr>) (m_resources m ref))"
  by (auto simp: initOnce_Do_def initDone_def Let_def fun_eq_iff split: option.splits)

section \<open>Shape and the count of first attempts\<close>

definition keyed :: "(SecretRef \<rightharpoonup> resource) \<Rightarrow> bool" where
  "keyed rs \<longleftrightarrow> (\<forall>ref r. rs ref = Some r \<longrightarrow> r_ref r = ref \<and> resource_wf r)"

definition shape :: "Manager \<Rightarrow> bool" where
  "shape m \<longleftrightarrow> dom (m_resources m) = set (m_sorted m) \<and> distinct (m_sorted m) \<and> sorted (m_sorted m)
     \<and> keyed (m_resources m) \<and> dom (m_go m) \<subseteq> set (m_sorted m)"

definition unattempted :: "Manager \<Rightarrow> SecretRef \<Rightarrow> bool" where
  "unattempted m ref = (case m_resources m ref of None \<Rightarrow> False | Some r \<Rightarrow> \<not> r_initOnce r)"

definition pending_ok :: "Manager \<Rightarrow> bool" where
  "pending_ok m \<longleftrightarrow> m_pending m = int (length (filter (unattempted m) (m_sorted m)))
     \<and> m_initialized m = (if m_pending m = 0 then Closed else Open)"

definition mgr_inv :: "Manager \<Rightarrow> bool" where
  "mgr_inv m \<longleftrightarrow> shape m \<and> pending_ok m"

lemma dom_update_map_option [simp]: "dom (f(x := map_option g (f x))) = dom f"
  by (auto simp: dom_def)

definition keeps :: "SecretRef \<Rightarrow> (resource \<Rightarrow> resource) \<Rightarrow> Manager \<Rightarrow> bool" where
  "keeps ref f m \<longleftrightarrow> (\<forall>r. m_resources m ref = Some r \<longrightarrow> r_initOnce (f r) = r_initOnce r
      \<and> r_ref (f r) = r_ref r \<and> (resource_wf r \<longrightarrow> resource_wf (f r)))"

lemma keeps_simps [simp]:
  "keeps ref (setConnected v) m" "keeps ref recordWatchError m" "keeps ref recordSyncError m"
  by (simp_all add: keeps_def)

lemma keeps_const: "m_resources m ref = Some r \<Longrightarrow> same_resource r r' \<Longrightarrow> keeps ref (\<lambda>_. r') m"
  by (simp add: keeps_def same_resource_def)

lemma shape_resource:
  assumes "shape m" and "m_resources m ref = Some r"
  shows "r_ref r = ref" and "resource_wf r" and "ref \<in> set (m_sorted m)"
  using assms by (auto simp: shape_def keyed_def)

lemma keyed_update:
  assumes "keyed rs"
    and "\<And>r. rs ref = Some r \<Longrightarrow> r_ref (f r) = r_ref r \<and> (resource_wf r \<longrightarrow> resource_wf (f r))"
  shows "keyed (rs(ref := map_option f (rs ref)))"
  unfolding keyed_def
proof (intro allI impI)
  fix ref' r'
  assume *: "(rs(ref := map_option f (rs ref))) ref' = Some r'"
  show "r_ref r' = ref' \<and> resource_wf r'"
  proof (cases "ref' = ref")
    case True
    with * obtain r where r: "rs ref = Some r" "r' = f r" by auto
    with assms(1) have "r_ref r = ref" "resource_wf r" by (auto simp: keyed_def)
    with assms(2) [OF r(1)] r(2) True show ?thesis by simp
  next
    case False
    with * assms(1) show ?thesis by (simp add: keyed_def)
  qed
qed

lemma shape_update:
  assumes "shape m"
    and "\<And>r. m_resources m ref = Some r \<Longrightarrow> r_ref (f r) = r_ref r \<and> (resource_wf r \<longrightarrow> resource_wf (f r))"
    and "m_resources m' = (m_resources m)(ref := map_option f (m_resources m ref))"
    and "m_sorted m' = m_sorted m" and "m_go m' = m_go m"
  shows "shape m'"
  unfolding shape_def assms(3-5) dom_update_map_option
  using assms(1) keyed_update [of "m_resources m" ref f, OF _ assms(2)] by (auto simp: shape_def)

lemma inv_update_resource:
  assumes "mgr_inv m" and "keeps ref f m"
  shows "mgr_inv (update_resource ref f m)"
proof -
  have "unattempted (update_resource ref f m) = unattempted m"
    using assms(2) by (auto simp: fun_eq_iff unattempted_def keeps_def split: option.splits)
  moreover have "shape (update_resource ref f m)"
  proof (rule shape_update [of m ref f])
    show "shape m" using assms(1) by (simp add: mgr_inv_def)
    show "r_ref (f r) = r_ref r \<and> (resource_wf r \<longrightarrow> resource_wf (f r))"
      if "m_resources m ref = Some r" for r
      using that assms(2) unfolding keeps_def by blast
  qed simp_all
  ultimately show ?thesis
    using assms(1) by (simp add: mgr_inv_def pending_ok_def)
qed

lemma inv_control:
  assumes "m_resources m' = m_resources m" and "m_sorted m' = m_sorted m"
    and "m_pending m' = m_pending m" and "m_initialized m' = m_initialized m"
    and "dom (m_go m') = dom (m_go m)"
  shows "mgr_inv m' = mgr_inv m"
  using assms by (simp add: mgr_inv_def shape_def pending_ok_def unattempted_def [abs_def])

lemma inv_goto [simp]:
  "mgr_inv (goto ref c m) = mgr_inv m" "mgr_inv (set_start ref t m) = mgr_inv m" "mgr_inv (set_backoff ref b m) = mgr_inv m"
  by (rule inv_control; simp del: dom_fun_upd)+

lemma filter_unattempted:
  assumes "distinct xs" and "ref \<in> set xs" and "P ref"
  shows "Suc (length (filter (\<lambda>x. x \<noteq> ref \<and> P x) xs)) = length (filter P xs)"
  using assms by (induction xs) (auto intro: filter_cong arg_cong [where f = length])

lemma inv_initOnce_Do:
  assumes "mgr_inv m"
  shows "mgr_inv (initOnce_Do ref m)"
proof (cases "unattempted m ref")
  case False
  then have "initOnce_Do ref m = m"
    by (auto simp: unattempted_def initOnce_Do_def split: option.splits)
  with assms show ?thesis by simp
next
  case True
  then obtain r where r: "m_resources m ref = Some r" "\<not> r_initOnce r"
    by (auto simp: unattempted_def split: option.splits)
  from assms have sh: "shape m" and pend: "pending_ok m" by (simp_all add: mgr_inv_def)
  let ?m = "initOnce_Do ref m"
  have shape: "shape ?m"
    by (rule shape_update [OF sh, of ref "\<lambda>r. r\<lparr>r_initOnce := True\<rparr>"]) (simp_all add: resource_wf_def)
  have "unattempted ?m = (\<lambda>x. x \<noteq> ref \<and> unattempted m x)"
    by (auto simp: fun_eq_iff unattempted_def split: option.splits)
  moreover have "Suc (length (filter (\<lambda>x. x \<noteq> ref \<and> unattempted m x) (m_sorted m)))
      = length (filter (unattempted m) (m_sorted m))"
    using sh True shape_resource(3) [OF sh r(1)] by (intro filter_unattempted) (auto simp: shape_def)
  ultimately have "pending_ok ?m"
    using pend r by (auto simp: pending_ok_def initOnce_Do_def initDone_def Let_def)
  with shape show ?thesis by (simp add: mgr_inv_def)
qed


section \<open>One step touches one Secret\<close>

text \<open>
  \<open>local_ok\<close> relates the control state of a goroutine to the state of its Secret; \<open>step_local\<close>
  says what a step of the goroutine of \<open>ref\<close> may do to the Manager.
\<close>

definition local_ok :: "Options \<Rightarrow> goroutine \<Rightarrow> resource \<Rightarrow> bool" where
  "local_ok opts g r \<longleftrightarrow> r_connected r = (g_ctrl g = Watching)
     \<and> (g_ctrl g \<noteq> LoopHead \<and> g_ctrl g \<noteq> Listing \<longrightarrow> r_initOnce r)
     \<and> bo_initial (g_bo g) = InitialBackoff opts \<and> bo_max (g_bo g) = MaxBackoff opts
     \<and> 0 \<le> bo_current (g_bo g) \<and> bo_current (g_bo g) \<le> MaxBackoff opts"

definition opts_ok :: "Options \<Rightarrow> bool" where
  "opts_ok opts \<longleftrightarrow> 0 < ReconcileInterval opts \<and> 0 < RequestTimeout opts \<and> 0 < WatchTimeout opts
     \<and> 0 < InitialBackoff opts \<and> InitialBackoff opts \<le> MaxBackoff opts
     \<and> 0 < StableWatchDuration opts \<and> MaxBackoff opts < 2 ^ 62"

definition located :: "SecretRef \<Rightarrow> goroutine \<Rightarrow> resource \<Rightarrow> Manager \<Rightarrow> Manager \<Rightarrow> bool" where
  "located ref g r m m' \<longleftrightarrow> m_go m' = (m_go m)(ref \<mapsto> g) \<and> m_resources m' = (m_resources m)(ref \<mapsto> r)
     \<and> m_opts m' = m_opts m \<and> m_sorted m' = m_sorted m \<and> m_started m' = m_started m"

lemma located_self: "m_go m ref = Some g \<Longrightarrow> m_resources m ref = Some r \<Longrightarrow> located ref g r m m"
  by (simp add: located_def fun_upd_idem)

lemma located_update: "located ref g r m m' \<Longrightarrow> located ref g (f r) m (update_resource ref f m')"
  by (simp add: located_def)

lemma located_initOnce: "located ref g r m m' \<Longrightarrow> located ref g (r\<lparr>r_initOnce := True\<rparr>) m (initOnce_Do ref m')"
  by (simp add: located_def)

lemma located_goto: "located ref g r m m' \<Longrightarrow> located ref (g\<lparr>g_ctrl := c\<rparr>) r m (goto ref c m')"
  by (simp add: located_def)

lemma located_set_start: "located ref g r m m' \<Longrightarrow> located ref (g\<lparr>g_start := t\<rparr>) r m (set_start ref t m')"
  by (simp add: located_def)

lemma located_set_backoff: "located ref g r m m' \<Longrightarrow> located ref (g\<lparr>g_bo := b\<rparr>) r m (set_backoff ref b m')"
  by (simp add: located_def)

lemmas located_intros = located_update located_initOnce located_goto located_set_start located_set_backoff


section \<open>The abstract view: the last observation wins\<close>

text \<open>
  What the answers of the API say about one Secret, without goroutines, channels and counters:
  \<open>observe\<close> is the state after one more answer, \<open>attempts\<close> tells the inputs that complete the
  first synchronization attempt.
\<close>

definition names_ref :: "SecretRef \<Rightarrow> k8s_Secret \<Rightarrow> bool" where
  "names_ref ref s \<longleftrightarrow> s_Name s = Name ref \<and> (s_Namespace s = [] \<or> s_Namespace s = Namespace ref)"

fun observe :: "SecretRef \<Rightarrow> input \<Rightarrow> Secret \<Rightarrow> Secret" where
  "observe ref (ListAnswer (Returns (Some l)) c now st) s =
     (case find (names_ref ref) (l_Items l) of
        Some obj \<Rightarrow> snapshot_of (Some obj)
      | None \<Rightarrow> if l_Items l = [] then snapshot_of None else s)"
| "observe ref (WatchEvent ev now) s =
     (case ev_Object ev of
        SecretObject obj \<Rightarrow>
          if names_ref ref obj \<and> (ev_Type ev = Added \<or> ev_Type ev = Modified) then snapshot_of (Some obj)
          else if names_ref ref obj \<and> ev_Type ev = Deleted then snapshot_of None
          else s
      | _ \<Rightarrow> s)"
| "observe ref (ReconcileAnswer (Returns (Some obj)) c e now) s =
     (if names_ref ref obj then snapshot_of (Some obj) else s)"
| "observe ref (ReconcileAnswer (Fails err) c e now) s =
     (if e_NotFound err then snapshot_of None else s)"
| "observe ref inp s = s"

fun attempts :: "input \<Rightarrow> bool" where
  "attempts (ListAnswer a c now st) = True"
| "attempts (CtxCheck cancelled) = cancelled"
| "attempts inp = False"

lemma matches_names_ref: "r_ref r = ref \<Longrightarrow> matches r = names_ref ref"
  by (simp add: matches_def names_ref_def fun_eq_iff)

lemma list_secret_observe:
  assumes "list_secret a c now r = (rv, r')" and "r_ref r = ref"
  shows "r_secret r' = observe ref (ListAnswer a c now st) (r_secret r)"
  using assms
  by (auto simp: list_secret_def list_fails_def Let_def matches_names_ref store_cases
      split: call.splits option.splits if_splits prod.splits)

lemma handleEvent_observe:
  assumes "handleEvent ev now r = (ok, r')" and "r_ref r = ref"
  shows "r_secret r' = observe ref (WatchEvent ev now) (r_secret r)"
  using assms
  by (auto simp: handleEvent_def matches_names_ref store_cases
      split: api_object.splits if_splits prod.splits)

lemma reconcile_observe:
  assumes "reconcile a c now r = (ok, r')" and "r_ref r = ref"
  shows "r_secret r' = observe ref (ReconcileAnswer a c e now) (r_secret r)"
  using assms
  by (auto simp: reconcile_def reconcile_store_def matches_names_ref store_cases
      split: call.splits option.splits if_splits prod.splits)

definition moves :: "SecretRef \<Rightarrow> input \<Rightarrow> goroutine \<Rightarrow> resource \<Rightarrow> Manager \<Rightarrow> Manager \<Rightarrow> bool" where
  "moves ref inp g r m m' \<longleftrightarrow> (\<exists>g' r'. located ref g' r' m m' \<and> local_ok (m_opts m) g' r'
     \<and> r_secret r' = observe ref inp (r_secret r) \<and> r_initOnce r' = (r_initOnce r \<or> attempts inp))"

lemma movesI:
  assumes "located ref g' r' m m'" and "local_ok (m_opts m) g' r'"
    and "r_secret r' = observe ref inp (r_secret r)" and "r_initOnce r' = (r_initOnce r \<or> attempts inp)"
  shows "moves ref inp g r m m'"
  using assms unfolding moves_def by blast

lemma step_list_moves:
  assumes "m_go m ref = Some g" and "m_resources m ref = Some r" and "local_ok (m_opts m) g r"
    and "g_ctrl g = Listing" and "r_ref r = ref"
  shows "moves ref (ListAnswer a c now st) g r m (step_list ref r a c now st m)"
proof (cases "a = Panics")
  case True
  note loc = located_goto [OF located_update [OF located_initOnce [OF located_self [OF assms(1,2)]]]]
  show ?thesis
    unfolding step_list_def recover_cycle_def if_P [OF True]
    by (rule movesI [OF loc]) (insert assms True, simp_all add: local_ok_def)
next
  case False
  obtain rv r' where l: "list_secret a c now r = (rv, r')" by fastforce
  note same = list_secret_same [OF l] and obs = list_secret_observe [OF l assms(5)]
  note loc = located_initOnce [OF located_update [OF located_self [OF assms(1,2)], of "\<lambda>_. r'"]]
  show ?thesis
  proof (cases rv)
    case None
    show ?thesis
      unfolding step_list_def if_not_P [OF False] l prod.case Let_def None option.case
      by (rule movesI [OF located_goto [OF loc]])
        (insert assms same obs, simp_all add: local_ok_def same_resource_def)
  next
    case (Some v)
    show ?thesis
      unfolding step_list_def if_not_P [OF False] l prod.case Let_def Some option.case
      by (rule movesI [OF located_goto [OF located_set_start [OF loc]]])
        (insert assms same obs, simp_all add: local_ok_def same_resource_def)
  qed
qed

lemma step_open_moves:
  assumes "m_go m ref = Some g" and "m_resources m ref = Some r" and "local_ok (m_opts m) g r"
    and "g_ctrl g = Opening rv"
  shows "moves ref (WatchAnswer a c e1 e2 now) g r m (step_open ref g a c e1 e2 now m)"
proof -
  note self = located_self [OF assms(1,2)]
  note rec = located_goto [OF located_update [OF located_initOnce [OF self]]]
  note rec' = located_goto [OF located_update [OF located_initOnce [OF located_update [OF located_update
    [OF self, of "setConnected True"], of "setConnected False"]]]]
  have init: "r_initOnce r" using assms(3,4) by (simp add: local_ok_def)
  have panic: "moves ref (WatchAnswer a c e1 e2 now) g r m (recover_cycle ref m)"
    unfolding recover_cycle_def
    by (rule movesI [OF rec]) (insert assms init, simp_all add: local_ok_def)
  have closed: "moves ref (WatchAnswer a c e1 e2 now) g r m
      (end_cycle ref (g_start g) now (if c then m else update_resource ref recordWatchError m))"
  proof (cases c)
    case True
    show ?thesis unfolding end_cycle_def if_P [OF True]
      by (rule movesI [OF located_goto [OF self]]) (insert assms init, simp_all add: local_ok_def)
  next
    case False
    show ?thesis unfolding end_cycle_def if_not_P [OF False]
      by (rule movesI [OF located_goto [OF located_update [OF self]]])
        (insert assms init, simp_all add: local_ok_def)
  qed
  have opened: "moves ref (WatchAnswer a c e1 e2 now) g r m
      (goto ref Watching (update_resource ref (setConnected True) m))"
    by (rule movesI [OF located_goto [OF located_update [OF self]]])
      (insert assms init, simp_all add: local_ok_def)
  have panic': "moves ref (WatchAnswer a c e1 e2 now) g r m (recover_cycle ref
      (update_resource ref (setConnected False) (update_resource ref (setConnected True) m)))"
    unfolding recover_cycle_def
    by (rule movesI [OF rec']) (insert assms init, simp_all add: local_ok_def)
  show ?thesis
    unfolding step_open_def Let_def
    using panic closed opened panic' by (auto split: call.split bool.split)
qed

lemma leave_watch_moves:
  assumes "m_go m ref = Some g" and "m_resources m ref = Some r" and "local_ok (m_opts m) g r"
    and "g_ctrl g = Watching" and "same_resource r r'" and "r_secret r' = observe ref inp (r_secret r)"
    and "\<not> attempts inp"
  shows "moves ref inp g r m (leave_watch ref st now (update_resource ref (\<lambda>_. r') m))"
  unfolding leave_watch_def end_cycle_def
  by (rule movesI [OF located_goto [OF located_update [OF located_update [OF located_self [OF assms(1,2)]]]]])
    (insert assms, simp_all add: local_ok_def same_resource_def)

lemma stay_watch_moves:
  assumes "m_go m ref = Some g" and "m_resources m ref = Some r" and "local_ok (m_opts m) g r"
    and "g_ctrl g = Watching" and "same_resource r r'" and "r_secret r' = observe ref inp (r_secret r)"
    and "\<not> attempts inp"
  shows "moves ref inp g r m (update_resource ref (\<lambda>_. r') m)"
  by (rule movesI [OF located_update [OF located_self [OF assms(1,2)]]])
    (insert assms, simp_all add: local_ok_def same_resource_def)

lemma panic_watch_moves:
  assumes "m_go m ref = Some g" and "m_resources m ref = Some r" and "local_ok (m_opts m) g r"
    and "g_ctrl g = Watching" and "same_resource r r'" and "r_secret r' = observe ref inp (r_secret r)"
    and "\<not> attempts inp"
  shows "moves ref inp g r m
    (recover_cycle ref (update_resource ref (setConnected False) (update_resource ref (\<lambda>_. r') m)))"
  unfolding recover_cycle_def
  by (rule movesI [OF located_goto [OF located_update [OF located_initOnce [OF located_update
    [OF located_update [OF located_self [OF assms(1,2)]]]]]]])
    (insert assms, simp_all add: local_ok_def same_resource_def)

lemma update_resource_id: "m_resources m ref = Some r \<Longrightarrow> update_resource ref (\<lambda>_. r) m = m"
  by (simp add: update_resource_def fun_upd_idem)

lemmas watch_moves = leave_watch_moves stay_watch_moves panic_watch_moves

lemma step_event_moves:
  assumes "m_go m ref = Some g" and "m_resources m ref = Some r" and "local_ok (m_opts m) g r"
    and "g_ctrl g = Watching" and "r_ref r = ref"
  shows "moves ref (WatchEvent ev now) g r m (step_event ref g r ev now m)"
proof -
  obtain ok r' where h: "handleEvent ev now r = (ok, r')" by fastforce
  note w = watch_moves [OF assms(1-4) handleEvent_same [OF h] handleEvent_observe [OF h assms(5)]]
  show ?thesis
    unfolding step_event_def h prod.case Let_def by (cases ok) (simp_all add: w)
qed

lemma step_reconcile_moves:
  assumes "m_go m ref = Some g" and "m_resources m ref = Some r" and "local_ok (m_opts m) g r"
    and "g_ctrl g = Watching" and "r_ref r = ref"
  shows "moves ref (ReconcileAnswer a c e now) g r m (step_reconcile ref g r a c e now m)"
proof (cases "a = Panics")
  case True
  have "moves ref (ReconcileAnswer a c e now) g r m
    (recover_cycle ref (update_resource ref (setConnected False) (update_resource ref (\<lambda>_. r) m)))"
    by (rule panic_watch_moves [OF assms(1-4)]) (simp_all add: True)
  with True show ?thesis by (simp add: step_reconcile_def update_resource_id [OF assms(2)])
next
  case False
  obtain ok r' where h: "reconcile a c now r = (ok, r')" by fastforce
  note w = watch_moves [OF assms(1-4) reconcile_same [OF h] reconcile_observe [OF h assms(5), where e = e]]
  show ?thesis
    unfolding step_reconcile_def if_not_P [OF False] h prod.case Let_def by (simp add: w)
qed

lemma exit_run_moves:
  assumes "m_go m ref = Some g" and "m_resources m ref = Some r" and "local_ok (m_opts m) g r"
    and "g_ctrl g \<noteq> Watching" and "attempts inp \<or> r_initOnce r" and "\<And>s. observe ref inp s = s"
  shows "moves ref inp g r m (exit_run ref m)"
  unfolding exit_run_def
  by (rule movesI [OF located_goto [OF located_initOnce [OF located_self [OF assms(1,2)]]]])
    (insert assms, auto simp: local_ok_def)

lemma goto_moves:
  assumes "m_go m ref = Some g" and "m_resources m ref = Some r" and "local_ok (m_opts m) g r"
    and "g_ctrl g \<noteq> Watching" and "c = LoopHead \<or> c = Listing" and "\<not> attempts inp"
    and "\<And>s. observe ref inp s = s"
  shows "moves ref inp g r m (goto ref c m)"
  by (rule movesI [OF located_goto [OF located_self [OF assms(1,2)]]])
    (insert assms, auto simp: local_ok_def)

lemma step_after_moves:
  assumes "m_go m ref = Some g" and "m_resources m ref = Some r" and "local_ok (m_opts m) g r"
    and "g_ctrl g = CycleDone h" and "opts_ok (m_opts m)"
  shows "\<exists>m'. step_after ref g h c e m = Some m' \<and> moves ref (AfterCycle c e) g r m m'"
proof -
  note self = located_self [OF assms(1,2)]
  have init: "r_initOnce r" using assms(3,4) by (simp add: local_ok_def)
  consider "c" | "\<not> c" "h" | "\<not> c" "\<not> h" by blast
  then show ?thesis
  proof cases
    case 1
    then show ?thesis
      using exit_run_moves [OF assms(1-3), of "AfterCycle c e"] assms(4) init by (simp add: step_after_def)
  next
    case 2
    have "moves ref (AfterCycle c e) g r m (goto ref LoopHead (set_backoff ref (backoff_reset (g_bo g)) m))"
      by (rule movesI [OF located_goto [OF located_set_backoff [OF self]]])
        (insert assms init, simp_all add: local_ok_def backoff_reset_def)
    with 2 show ?thesis by (simp add: step_after_def)
  next
    case 3
    obtain d b where n: "backoff_next e (g_bo g) = (d, b)" by fastforce
    have b: "bo_initial (g_bo g) = InitialBackoff (m_opts m)" "bo_max (g_bo g) = MaxBackoff (m_opts m)"
      "0 \<le> bo_current (g_bo g)" "bo_current (g_bo g) \<le> MaxBackoff (m_opts m)"
      using assms(3) by (simp_all add: local_ok_def)
    note ok = backoff_next_ok [OF n, unfolded b(1,2), OF _ _ _ b(3,4)]
    have o: "0 < InitialBackoff (m_opts m)" "InitialBackoff (m_opts m) \<le> MaxBackoff (m_opts m)"
      "MaxBackoff (m_opts m) < 2 ^ 62"
      using assms(5) by (simp_all add: opts_ok_def)
    obtain x where x: "d = Some x" using ok(6) [OF o] by blast
    have "moves ref (AfterCycle c e) g r m (goto ref (Sleeping x) (set_backoff ref b m))"
    proof (rule movesI [OF located_goto [OF located_set_backoff [OF self]]])
      show "local_ok (m_opts m) (g\<lparr>g_bo := b, g_ctrl := Sleeping x\<rparr>) r"
        using ok(1,2) [OF o] ok(4,5) [OF o] assms(3,4) init by (simp add: local_ok_def)
    qed simp_all
    with 3 show ?thesis by (simp add: step_after_def n x)
  qed
qed

definition goroutines_ok :: "Manager \<Rightarrow> bool" where
  "goroutines_ok m \<longleftrightarrow> (\<forall>ref g r. m_go m ref = Some g \<longrightarrow> m_resources m ref = Some r
     \<longrightarrow> local_ok (m_opts m) g r)"

lemma go_step_moves:
  assumes "go_step ref inp m = Some m'" and "mgr_inv m" and "goroutines_ok m" and "opts_ok (m_opts m)"
  shows "\<exists>g r. m_go m ref = Some g \<and> m_resources m ref = Some r \<and> moves ref inp g r m m'"
proof -
  from assms(1) obtain g r where g: "m_go m ref = Some g" and r: "m_resources m ref = Some r"
    by (auto simp: go_step_def split: option.splits)
  have l: "local_ok (m_opts m) g r" using assms(3) g r by (simp add: goroutines_ok_def)
  have ref: "r_ref r = ref" using shape_resource(1) [OF _ r] assms(2) by (simp add: mgr_inv_def)
  note a = g r l
  have "moves ref inp g r m m'"
  proof (cases "g_ctrl g")
    case LoopHead
    then show ?thesis
      using assms(1) g r exit_run_moves [OF a] goto_moves [OF a]
      by (auto simp: go_step_def split: input.splits if_splits)
  next
    case Listing
    then show ?thesis
      using assms(1) g r step_list_moves [OF a Listing ref] by (auto simp: go_step_def split: input.splits)
  next
    case (Opening rv)
    then show ?thesis
      using assms(1) g r step_open_moves [OF a Opening] by (auto simp: go_step_def split: input.splits)
  next
    case Watching
    then show ?thesis
      using assms(1) g r step_event_moves [OF a Watching ref] step_reconcile_moves [OF a Watching ref]
        leave_watch_moves [OF a Watching same_resource_refl] update_resource_id [OF r]
      by (auto simp: go_step_def split: input.splits)
  next
    case (CycleDone h)
    with assms(1) g r obtain c e where "inp = AfterCycle c e" "step_after ref g h c e m = Some m'"
      by (auto simp: go_step_def split: input.splits)
    then show ?thesis using step_after_moves [OF a CycleDone assms(4), of c e] by simp
  next
    case (Sleeping d)
    moreover have "r_initOnce r" using Sleeping l by (simp add: local_ok_def)
    ultimately show ?thesis
      using assms(1) g r exit_run_moves [OF a] goto_moves [OF a]
      by (auto simp: go_step_def split: input.splits)
  next
    case Exited
    then show ?thesis using assms(1) g r by (simp add: go_step_def)
  qed
  with g r show ?thesis by blast
qed

section \<open>The invariant is kept\<close>

lemma inv_recover_cycle [simp]: "mgr_inv m \<Longrightarrow> mgr_inv (recover_cycle ref m)"
  by (simp add: recover_cycle_def inv_update_resource inv_initOnce_Do)

lemma inv_exit_run [simp]: "mgr_inv m \<Longrightarrow> mgr_inv (exit_run ref m)"
  by (simp add: exit_run_def inv_initOnce_Do)

lemma inv_setConnected [simp]:
  "mgr_inv m \<Longrightarrow> mgr_inv (update_resource ref (setConnected v) m)"
  "mgr_inv m \<Longrightarrow> mgr_inv (update_resource ref recordWatchError m)"
  by (simp_all add: inv_update_resource)

lemma inv_leave_watch [simp]: "mgr_inv m \<Longrightarrow> mgr_inv (end_cycle ref st now m)" "mgr_inv m \<Longrightarrow> mgr_inv (leave_watch ref st now m)"
  by (simp_all add: leave_watch_def end_cycle_def)

lemma inv_set_resource:
  "mgr_inv m \<Longrightarrow> m_resources m ref = Some r \<Longrightarrow> same_resource r r' \<Longrightarrow> mgr_inv (update_resource ref (\<lambda>_. r') m)"
  by (simp add: inv_update_resource keeps_const)

lemma inv_step_list:
  assumes "mgr_inv m" and "m_resources m ref = Some r"
  shows "mgr_inv (step_list ref r a c now st m)"
  using assms inv_set_resource [OF assms list_secret_same]
  by (auto simp: step_list_def Let_def inv_initOnce_Do split: prod.split option.split)

lemma inv_step_open: "mgr_inv m \<Longrightarrow> mgr_inv (step_open ref g a c e1 e2 now m)"
  by (simp add: step_open_def Let_def split: call.split bool.split)

lemma inv_step_event:
  assumes "mgr_inv m" and "m_resources m ref = Some r"
  shows "mgr_inv (step_event ref g r ev now m)"
  using inv_set_resource [OF assms handleEvent_same]
  by (auto simp: step_event_def Let_def split: prod.split)

lemma inv_step_reconcile:
  assumes "mgr_inv m" and "m_resources m ref = Some r"
  shows "mgr_inv (step_reconcile ref g r a c e now m)"
  using assms(1) inv_set_resource [OF assms reconcile_same]
  by (auto simp: step_reconcile_def Let_def split: prod.split)

lemma inv_step_after: "step_after ref g h c e m = Some m' \<Longrightarrow> mgr_inv m \<Longrightarrow> mgr_inv m'"
  by (auto simp: step_after_def split: if_splits prod.splits)

lemmas inv_steps = inv_step_list inv_step_open inv_step_event inv_step_reconcile

lemma inv_go_step: "go_step ref inp m = Some m' \<Longrightarrow> mgr_inv m \<Longrightarrow> mgr_inv m'"
  by (auto simp: go_step_def inv_steps inv_step_after
      split: option.splits ctrl.splits input.splits if_splits)

section \<open>Runs of the Manager\<close>

definition booted :: "SecretRef list \<Rightarrow> Options \<Rightarrow> Manager" where
  "booted refs opts = Start (NewManager refs opts)"

lemma new_resources_spec:
  assumes "new_resources refs (rs, srt) = (rs', srt')" and "dom rs = set srt" and "distinct srt"
  shows "set srt' = set srt \<union> set refs \<and> distinct srt' \<and>
    rs' = (\<lambda>x. if x \<in> set srt then rs x else if x \<in> set refs then Some (new_resource x) else None)"
  using assms
proof (induction refs arbitrary: rs srt)
  case Nil
  then show ?case by (auto simp: fun_eq_iff dom_def)
next
  case (Cons ref refs)
  show ?case
  proof (cases "ref \<in> set srt")
    case True
    with Cons.prems have "rs ref \<noteq> None" by (auto simp: dom_def)
    with Cons.prems True Cons.IH [of rs srt] show ?thesis by (auto simp: fun_eq_iff)
  next
    case False
    then have "rs ref = None" using Cons.prems(2) by blast
    then have step: "new_resources refs (rs(ref \<mapsto> new_resource ref), srt @ [ref]) = (rs', srt')"
      using Cons.prems(1) by simp
    have "set srt' = set (srt @ [ref]) \<union> set refs \<and> distinct srt' \<and>
      rs' = (\<lambda>x. if x \<in> set (srt @ [ref]) then (rs(ref \<mapsto> new_resource ref)) x
        else if x \<in> set refs then Some (new_resource x) else None)"
    proof (rule Cons.IH [OF step])
      show "dom (rs(ref \<mapsto> new_resource ref)) = set (srt @ [ref])"
        using Cons.prems(2) unfolding dom_fun_upd by auto
    qed (simp add: Cons.prems False)
    with False show ?thesis by (auto simp: fun_eq_iff)
  qed
qed

lemma NewManager_simps:
  "m_resources (NewManager refs opts) = (\<lambda>x. if x \<in> set refs then Some (new_resource x) else None)"
  "m_opts (NewManager refs opts) = withDefaults opts" "m_started (NewManager refs opts) = False"
  "m_go (NewManager refs opts) = Map.empty"
  "set (m_sorted (NewManager refs opts)) = set refs" "distinct (m_sorted (NewManager refs opts))"
  "sorted (m_sorted (NewManager refs opts))"
  "m_pending (NewManager refs opts) = int (length (m_sorted (NewManager refs opts)))"
  "m_initialized (NewManager refs opts) = (if refs = [] then Closed else Open)"
proof -
  obtain rs srt where n: "new_resources refs (Map.empty, []) = (rs, srt)" by fastforce
  from new_resources_spec [OF this]
  have "set srt = set refs" "distinct srt" "rs = (\<lambda>x. if x \<in> set refs then Some (new_resource x) else None)"
    by auto
  moreover from this(1) have "srt = [] \<longleftrightarrow> refs = []" by auto
  ultimately show
    "m_resources (NewManager refs opts) = (\<lambda>x. if x \<in> set refs then Some (new_resource x) else None)"
    "m_opts (NewManager refs opts) = withDefaults opts" "m_started (NewManager refs opts) = False"
    "m_go (NewManager refs opts) = Map.empty"
    "set (m_sorted (NewManager refs opts)) = set refs" "distinct (m_sorted (NewManager refs opts))"
    "sorted (m_sorted (NewManager refs opts))"
    "m_pending (NewManager refs opts) = int (length (m_sorted (NewManager refs opts)))"
    "m_initialized (NewManager refs opts) = (if refs = [] then Closed else Open)"
    by (simp_all add: NewManager_def n)
qed

lemma booted_simps:
  "m_resources (booted refs opts) = (\<lambda>x. if x \<in> set refs then Some (new_resource x) else None)"
  "m_opts (booted refs opts) = withDefaults opts"
  "m_go (booted refs opts) = (\<lambda>x. if x \<in> set refs then Some (new_goroutine (withDefaults opts)) else None)"
  "m_sorted (booted refs opts) = m_sorted (NewManager refs opts)"
  "m_pending (booted refs opts) = m_pending (NewManager refs opts)"
  "m_initialized (booted refs opts) = m_initialized (NewManager refs opts)"
  by (simp_all add: booted_def Start_def NewManager_simps fun_eq_iff)

lemma inv_booted: "mgr_inv (booted refs opts)"
proof -
  have "filter (unattempted (booted refs opts)) (m_sorted (NewManager refs opts))
      = m_sorted (NewManager refs opts)"
    by (rule filter_True) (simp add: unattempted_def booted_simps NewManager_simps)
  moreover have "m_sorted (NewManager refs opts) = [] \<longleftrightarrow> refs = []"
    using NewManager_simps(5) [of refs opts] by (metis set_empty)
  ultimately have "pending_ok (booted refs opts)"
    by (simp add: pending_ok_def booted_simps NewManager_simps(8,9))
  moreover have "shape (booted refs opts)"
    by (auto simp: shape_def keyed_def booted_simps NewManager_simps dom_def)
  ultimately show ?thesis by (simp add: mgr_inv_def)
qed

lemma opts_ok_withDefaults:
  assumes "InitialBackoff opts < 2 ^ 62" and "MaxBackoff opts < 2 ^ 62"
  shows "opts_ok (withDefaults opts)"
  using assms
  by (auto simp: opts_ok_def withDefaults_def default_duration_def Let_def second_def minute_def)

lemma goroutines_ok_booted:
  assumes "InitialBackoff opts < 2 ^ 62" and "MaxBackoff opts < 2 ^ 62"
  shows "goroutines_ok (booted refs opts)"
  using opts_ok_withDefaults [OF assms]
  by (auto simp: goroutines_ok_def booted_simps local_ok_def new_goroutine_def opts_ok_def)

text \<open>The inputs of one goroutine in a trace, and what they amount to.\<close>

definition inputs_of :: "SecretRef \<Rightarrow> (SecretRef \<times> input) list \<Rightarrow> input list" where
  "inputs_of ref tr = map snd (filter (\<lambda>x. fst x = ref) tr)"

definition observed :: "SecretRef \<Rightarrow> (SecretRef \<times> input) list \<Rightarrow> Secret" where
  "observed ref tr = fold (observe ref) (inputs_of ref tr) zero_Secret"

lemma inputs_of_snoc [simp]:
  "inputs_of ref (tr @ [(ref', inp)]) = inputs_of ref tr @ (if ref' = ref then [inp] else [])"
  by (simp add: inputs_of_def)

lemma observed_snoc [simp]:
  "observed ref (tr @ [(ref', inp)]) = (if ref' = ref then observe ref inp (observed ref tr) else observed ref tr)"
  by (simp add: observed_def)

definition run_ok :: "Options \<Rightarrow> SecretRef list \<Rightarrow> (SecretRef \<times> input) list \<Rightarrow> Manager \<Rightarrow> bool" where
  "run_ok opts refs tr m \<longleftrightarrow> mgr_inv m \<and> goroutines_ok m \<and> m_opts m = withDefaults opts
     \<and> set (m_sorted m) = set refs \<and> dom (m_go m) = set refs
     \<and> (\<forall>ref r. m_resources m ref = Some r \<longrightarrow>
          r_secret r = observed ref tr \<and> r_initOnce r = list_ex attempts (inputs_of ref tr))"

lemma go_step_run_ok:
  assumes "run_ok opts refs tr m" and "go_step ref inp m = Some m'" and "opts_ok (withDefaults opts)"
  shows "run_ok opts refs (tr @ [(ref, inp)]) m'"
proof -
  have ok: "mgr_inv m" "goroutines_ok m" "m_opts m = withDefaults opts" "set (m_sorted m) = set refs"
    "dom (m_go m) = set refs"
    and obs: "\<And>ref r. m_resources m ref = Some r \<Longrightarrow> r_secret r = observed ref tr"
    and att: "\<And>ref r. m_resources m ref = Some r \<Longrightarrow> r_initOnce r = list_ex attempts (inputs_of ref tr)"
    using assms(1) by (simp_all add: run_ok_def)
  from go_step_moves [OF assms(2) ok(1,2)] assms(3) ok(3)
  obtain g r g' r' where "m_go m ref = Some g" and r: "m_resources m ref = Some r"
    and loc: "located ref g' r' m m'" and l: "local_ok (m_opts m) g' r'"
    and s: "r_secret r' = observe ref inp (r_secret r)" "r_initOnce r' = (r_initOnce r \<or> attempts inp)"
    by (auto simp: moves_def)
  then have "ref \<in> set refs" using ok(5) by blast
  have "goroutines_ok m'"
    unfolding goroutines_ok_def
  proof (intro allI impI)
    fix x gx rx
    assume "m_go m' x = Some gx" "m_resources m' x = Some rx"
    with loc l ok(2) show "local_ok (m_opts m') gx rx"
      by (cases "x = ref") (simp_all add: located_def goroutines_ok_def)
  qed
  moreover have "r_secret rx = observed x (tr @ [(ref, inp)]) \<and>
      r_initOnce rx = list_ex attempts (inputs_of x (tr @ [(ref, inp)]))"
    if "m_resources m' x = Some rx" for x rx
    using that loc s r obs [of x] att [of x] by (cases "x = ref") (simp_all add: located_def)
  ultimately show ?thesis
    using loc ok inv_go_step [OF assms(2) ok(1)] \<open>ref \<in> set refs\<close>
    by (simp add: run_ok_def located_def insert_absorb)
qed

lemma steps_run_ok:
  assumes "steps m0 tr m" and "m0 = booted refs opts"
    and "InitialBackoff opts < 2 ^ 62" and "MaxBackoff opts < 2 ^ 62"
  shows "run_ok opts refs tr m"
  using assms(1,2)
proof (induction rule: steps.induct)
  case (steps_refl m)
  have "dom (m_go (booted refs opts)) = set refs" by (auto simp: booted_simps dom_def)
  then show ?case
    using steps_refl inv_booted [of refs opts] goroutines_ok_booted [OF assms(3,4), of refs]
    by (auto simp: run_ok_def booted_simps NewManager_simps observed_def inputs_of_def split: if_splits)
next
  case (steps_step m tr m' ref inp m'')
  then show ?case using go_step_run_ok opts_ok_withDefaults [OF assms(3,4)] by blast
qed

section \<open>Properties of a run\<close>

lemma run_resource:
  assumes "run_ok opts refs tr m" and "ref \<in> set refs"
  obtains r where "m_resources m ref = Some r" and "r_ref r = ref" and "resource_wf r"
    and "r_secret r = observed ref tr" and "r_initOnce r = list_ex attempts (inputs_of ref tr)"
proof -
  have "ref \<in> dom (m_resources m)" using assms by (simp add: run_ok_def mgr_inv_def shape_def)
  then obtain r where r: "m_resources m ref = Some r" by blast
  have sh: "shape m" using assms(1) by (simp add: run_ok_def mgr_inv_def)
  have "r_secret r = observed ref tr \<and> r_initOnce r = list_ex attempts (inputs_of ref tr)"
    using assms(1) r by (simp add: run_ok_def)
  with r shape_resource(1,2) [OF sh r] that show ?thesis by blast
qed

lemma run_local:
  "run_ok opts refs tr m \<Longrightarrow> m_go m ref = Some g \<Longrightarrow> m_resources m ref = Some r
    \<Longrightarrow> local_ok (m_opts m) g r"
  unfolding run_ok_def goroutines_ok_def by blast

lemma run_unmanaged: "run_ok opts refs tr m \<Longrightarrow> ref \<notin> set refs \<Longrightarrow> m_resources m ref = None"
  unfolding run_ok_def mgr_inv_def shape_def by blast

text \<open>
  C5: refinement. However the goroutines interleave and whatever the API client answers or
  panics, the snapshot that \<^verbatim>\<open>Secret\<close> returns for a managed reference is the result of
  applying, in order, the answers its own goroutine received for it to the unsynchronized state,
  keeping only the last valid observation; a reference that is not managed is reported absent.
\<close>

theorem Manager_Secret_observed:
  assumes "steps (Start (NewManager refs opts)) tr m"
    and "InitialBackoff opts < 2 ^ 62" and "MaxBackoff opts < 2 ^ 62"
  shows "Manager_Secret m ref = (if ref \<in> set refs then observed ref tr else zero_Secret)"
proof -
  have ok: "run_ok opts refs tr m" using steps_run_ok [OF assms(1) _ assms(2,3)] by (simp add: booted_def)
  show ?thesis
  proof (cases "ref \<in> set refs")
    case True
    with run_resource [OF ok] show ?thesis
      by (metis Manager_Secret_def snapshot_def option.simps(5))
  next
    case False
    with run_unmanaged [OF ok] show ?thesis by (simp add: Manager_Secret_def)
  qed
qed

fun carries :: "input \<Rightarrow> k8s_Secret \<Rightarrow> bool" where
  "carries (ListAnswer (Returns (Some l)) c now st) obj \<longleftrightarrow> obj \<in> set (l_Items l)"
| "carries (WatchEvent ev now) obj \<longleftrightarrow> ev_Object ev = SecretObject obj"
| "carries (ReconcileAnswer (Returns (Some s)) c e now) obj \<longleftrightarrow> obj = s"
| "carries inp obj \<longleftrightarrow> False"

lemma observe_cases:
  "observe ref inp s = s \<or> observe ref inp s = snapshot_of None
   \<or> (\<exists>obj. observe ref inp s = snapshot_of (Some obj) \<and> names_ref ref obj \<and> carries inp obj)"
  by (cases "(ref, inp, s)" rule: observe.cases)
    (auto split: option.split api_object.split simp: find_Some_iff)

lemma observed_present:
  assumes "sec_Present (observed ref tr)"
  shows "\<exists>inp obj. inp \<in> set (inputs_of ref tr) \<and> carries inp obj \<and> names_ref ref obj
    \<and> observed ref tr = snapshot_of (Some obj)"
  using assms
proof (induction tr rule: rev_induct)
  case Nil
  then show ?case by (simp add: observed_def inputs_of_def zero_Secret_def)
next
  case (snoc x tr)
  obtain ref' inp where x: "x = (ref', inp)" by fastforce
  consider "observed ref (tr @ [x]) = observed ref tr"
    | obj where "ref' = ref" "observed ref (tr @ [x]) = snapshot_of (Some obj)" "names_ref ref obj"
        "carries inp obj"
    using snoc.prems observe_cases [of ref inp "observed ref tr"] by (auto simp: x split: if_splits)
  then show ?case
  proof cases
    case 1
    with snoc show ?thesis by (auto simp: x)
  next
    case 2
    then show ?thesis by (auto simp: x)
  qed
qed

text \<open>
  C6: provenance. A present snapshot is the copy of an object that the API returned to the goroutine
  of that very reference, whose name is that of the reference and whose namespace is that of the
  reference or was left empty by the API: the check of the code accepts an object without a
  namespace, and none that names another one.
\<close>

theorem Manager_Secret_provenance:
  assumes "steps (Start (NewManager refs opts)) tr m"
    and "InitialBackoff opts < 2 ^ 62" and "MaxBackoff opts < 2 ^ 62"
    and "sec_Present (Manager_Secret m ref)"
  shows "\<exists>inp obj. (ref, inp) \<in> set tr \<and> carries inp obj \<and> names_ref ref obj
    \<and> Manager_Secret m ref = snapshot_of (Some obj)"
proof -
  have ok: "run_ok opts refs tr m" using steps_run_ok [OF assms(1) _ assms(2,3)] by (simp add: booted_def)
  have ref: "ref \<in> set refs"
    using run_unmanaged [OF ok, of ref] assms(4)
    by (cases "ref \<in> set refs") (simp_all add: Manager_Secret_def zero_Secret_def)
  obtain r where r: "m_resources m ref = Some r" "r_secret r = observed ref tr"
    using run_resource [OF ok ref] by blast
  then have "Manager_Secret m ref = observed ref tr" by (simp add: Manager_Secret_def snapshot_def)
  with observed_present [of ref tr] assms(4) show ?thesis by (auto simp: inputs_of_def)
qed

lemma filter_unattempted_run:
  assumes "run_ok opts refs tr m"
  shows "filter (unattempted m) (m_sorted m) = filter (\<lambda>ref. \<not> list_ex attempts (inputs_of ref tr)) (m_sorted m)"
proof (rule filter_cong)
  fix ref
  assume "ref \<in> set (m_sorted m)"
  then have "ref \<in> set refs" using assms by (simp add: run_ok_def)
  with run_resource [OF assms] show "unattempted m ref = (\<not> list_ex attempts (inputs_of ref tr))"
    by (metis (no_types, lifting) unattempted_def option.simps(5))
qed simp

text \<open>
  C7: readiness. The channel behind \<^verbatim>\<open>Initialized\<close> and \<^verbatim>\<open>WaitInitialized\<close> is closed
  exactly when every distinct Secret has completed a first list attempt, or its goroutine has
  left before one; it is never closed twice, and the counter is the number of Secrets still
  without an attempt.
\<close>

theorem Initialized_iff_attempted:
  assumes "steps (Start (NewManager refs opts)) tr m"
    and "InitialBackoff opts < 2 ^ 62" and "MaxBackoff opts < 2 ^ 62"
  shows "Initialized m = list_all (\<lambda>ref. list_ex attempts (inputs_of ref tr)) refs
    \<and> m_initialized m \<noteq> PanickedOnClose
    \<and> m_pending m = int (card {ref. ref \<in> set refs \<and> \<not> list_ex attempts (inputs_of ref tr)})"
proof (intro conjI)
  have ok: "run_ok opts refs tr m" using steps_run_ok [OF assms(1) _ assms(2,3)] by (simp add: booted_def)
  then have "pending_ok m" and sh: "shape m" and srt: "set (m_sorted m) = set refs"
    by (simp_all add: run_ok_def mgr_inv_def)
  then have p: "m_pending m = int (length (filter (\<lambda>ref. \<not> list_ex attempts (inputs_of ref tr)) (m_sorted m)))"
    and i: "m_initialized m = (if m_pending m = 0 then Closed else Open)"
    by (simp_all add: pending_ok_def filter_unattempted_run [OF ok])
  show "m_initialized m \<noteq> PanickedOnClose" by (simp add: i)
  show "Initialized m = list_all (\<lambda>ref. list_ex attempts (inputs_of ref tr)) refs"
    unfolding Initialized_def i p by (auto simp: filter_empty_conv list_all_iff srt)
  have "distinct (m_sorted m)" using sh by (simp add: shape_def)
  then have "length (filter P (m_sorted m)) = card {ref. ref \<in> set refs \<and> P ref}" for P
    by (metis distinct_card distinct_filter set_filter srt)
  then show "m_pending m = int (card {ref. ref \<in> set refs \<and> \<not> list_ex attempts (inputs_of ref tr)})"
    by (simp add: p)
qed


lemmas run_eval = booted_def NewManager_def Start_def withDefaults_def default_duration_def
  new_goroutine_def new_resource_def go_step_def step_list_def list_secret_def step_open_def
  step_event_def handleEvent_def step_reconcile_def step_after_def store_def snapshot_of_def
  zero_Secret_def matches_def names_ref_def recover_cycle_def exit_run_def end_cycle_def leave_watch_def
  initOnce_Do_def initDone_def update_resource_def goto_def set_start_def set_backoff_def
  setConnected_def recordWatchError_def recordSyncError_def list_fails_def rand_N_def jitter_def
  second_def minute_def observed_def inputs_of_def

text \<open>A concrete run: two Secrets, one listed and watched, the other not yet attempted.\<close>

definition ex_ref :: SecretRef where
  "ex_ref = SecretRef ''ns'' ''db''"

definition ex_other :: SecretRef where
  "ex_other = SecretRef ''ns'' ''api''"

definition ex_opts :: Options where
  "ex_opts = \<lparr>ReconcileInterval = 0, RequestTimeout = 0, WatchTimeout = 0, InitialBackoff = 0,
     MaxBackoff = 0, StableWatchDuration = 0\<rparr>"

definition ex_object :: k8s_Secret where
  "ex_object = \<lparr>s_Namespace = ''ns'', s_Name = ''db'', s_ResourceVersion = ''7'', s_UID = ''u'',
     s_Data = [''k'' \<mapsto> ''v'']\<rparr>"

definition ex_trace :: "(SecretRef \<times> input) list" where
  "ex_trace = [(ex_ref, CtxCheck False),
     (ex_ref, ListAnswer (Returns (Some \<lparr>l_Items = [ex_object], l_ResourceVersion = ''9''\<rparr>)) False 5 6),
     (ex_ref, WatchAnswer (Returns True) False 3 4 7),
     (ex_ref, WatchEvent \<lparr>ev_Type = Deleted, ev_Object = SecretObject ex_object\<rparr> 8),
     (ex_ref, WatchEvent \<lparr>ev_Type = Added, ev_Object = SecretObject ex_object\<rparr> 9)]"

definition ex_failed :: "(SecretRef \<times> input) list" where
  "ex_failed = [(ex_ref, CtxCheck False), (ex_ref, ListAnswer Panics False 5 6)]"

lemmas ex_defs = ex_ref_def ex_other_def ex_opts_def ex_object_def ex_trace_def ex_failed_def

lemma ex_run_eval: "case run_trace ex_trace (Start (NewManager [ex_ref, ex_other] ex_opts)) of
    None \<Rightarrow> False | Some m \<Rightarrow> Manager_Secret m ex_ref = snapshot_of (Some ex_object)"
  by (simp add: run_eval ex_defs Manager_Secret_def snapshot_def Let_def)

lemma ex_run: "\<exists>m. run_trace ex_trace (Start (NewManager [ex_ref, ex_other] ex_opts)) = Some m
    \<and> sec_Present (Manager_Secret m ex_ref) \<and> sec_Synced (Manager_Secret m ex_ref)"
  using ex_run_eval by (auto split: option.splits)

lemma ex_failed_run: "\<exists>m g. run_trace ex_failed (Start (NewManager [ex_ref, ex_other] ex_opts)) = Some m
    \<and> m_go m ex_ref = Some g \<and> g_ctrl g = CycleDone False"
  by (simp add: run_eval ex_defs)

lemma ex_opts_small: "InitialBackoff ex_opts < 2 ^ 62" "MaxBackoff ex_opts < 2 ^ 62"
  by (simp_all add: ex_defs)

theorem Manager_Secret_observed_witness:
  "\<exists>m. steps (Start (NewManager [ex_ref, ex_other] ex_opts)) ex_trace m
    \<and> Manager_Secret m ex_ref = snapshot_of (Some ex_object)
    \<and> Manager_Secret m ex_other = zero_Secret"
proof -
  obtain m where m: "steps (Start (NewManager [ex_ref, ex_other] ex_opts)) ex_trace m"
    using ex_run run_trace_steps by blast
  show ?thesis
    using m Manager_Secret_observed [OF m ex_opts_small, of ex_ref]
      Manager_Secret_observed [OF m ex_opts_small, of ex_other]
    by (intro exI [of _ m]) (simp add: ex_defs run_eval)
qed

theorem Manager_Secret_provenance_witness:
  "\<exists>m inp obj. steps (Start (NewManager [ex_ref, ex_other] ex_opts)) ex_trace m
    \<and> (ex_ref, inp) \<in> set ex_trace \<and> carries inp obj \<and> names_ref ex_ref obj
    \<and> Manager_Secret m ex_ref = snapshot_of (Some obj)"
proof -
  obtain m where m: "run_trace ex_trace (Start (NewManager [ex_ref, ex_other] ex_opts)) = Some m"
    and "sec_Present (Manager_Secret m ex_ref)"
    using ex_run by blast
  with Manager_Secret_provenance [OF run_trace_steps [OF m] ex_opts_small] run_trace_steps [OF m]
  show ?thesis by blast
qed

theorem Initialized_iff_attempted_witness:
  "\<exists>m. steps (Start (NewManager [ex_ref, ex_other] ex_opts)) ex_trace m
    \<and> \<not> Initialized m \<and> m_pending m = 1"
proof -
  obtain m where m: "steps (Start (NewManager [ex_ref, ex_other] ex_opts)) ex_trace m"
    using ex_run run_trace_steps by blast
  have "{ref. ref \<in> set [ex_ref, ex_other] \<and> \<not> list_ex attempts (inputs_of ref ex_trace)} = {ex_other}"
    by (auto simp: ex_defs inputs_of_def)
  moreover have "\<not> list_all (\<lambda>ref. list_ex attempts (inputs_of ref ex_trace)) [ex_ref, ex_other]"
    by (simp add: ex_defs inputs_of_def)
  ultimately show ?thesis
    using m Initialized_iff_attempted [OF m ex_opts_small] by (intro exI [of _ m]) simp
qed


text \<open>
  C8: safety. No run-time panic escapes a goroutine: whatever happened before, when a cycle ends
  the retry delay can be drawn (\<^verbatim>\<open>rand.N\<close> gets a positive argument, the doubling does not
  overflow), the goroutine goes on, and the one-shot channels are never closed twice. This needs
  only that the configured back-off bounds are below 2 to the 62 nanoseconds.
\<close>

theorem cycle_end_never_panics:
  assumes "steps (Start (NewManager refs opts)) tr m"
    and "InitialBackoff opts < 2 ^ 62" and "MaxBackoff opts < 2 ^ 62"
    and "m_go m ref = Some g" and "g_ctrl g = CycleDone healthy"
  shows "\<exists>m'. go_step ref (AfterCycle cancelled e) m = Some m'
    \<and> m_initialized m' \<noteq> PanickedOnClose
    \<and> (\<forall>x r. m_resources m' x = Some r \<longrightarrow> r_synced r \<noteq> PanickedOnClose)"
proof -
  have ok: "run_ok opts refs tr m" using steps_run_ok [OF assms(1) _ assms(2,3)] by (simp add: booted_def)
  then have "ref \<in> set refs" using assms(4) unfolding run_ok_def by blast
  then obtain r where r: "m_resources m ref = Some r" using run_resource [OF ok] by blast
  have o: "opts_ok (m_opts m)" using ok opts_ok_withDefaults [OF assms(2,3)] by (simp add: run_ok_def)
  have l: "local_ok (m_opts m) g r" by (rule run_local [OF ok assms(4) r])
  obtain m' where m': "step_after ref g healthy cancelled e m = Some m'"
    using step_after_moves [OF assms(4) r l assms(5) o] by blast
  then have step: "go_step ref (AfterCycle cancelled e) m = Some m'"
    by (simp add: go_step_def assms(4,5) r)
  have "mgr_inv m'" using inv_go_step [OF step] ok by (simp add: run_ok_def)
  then have "shape m'" "m_initialized m' \<noteq> PanickedOnClose"
    by (simp_all add: mgr_inv_def pending_ok_def)
  moreover have "r_synced x \<noteq> PanickedOnClose" if "m_resources m' y = Some x" for x y
    using shape_resource(2) [OF \<open>shape m'\<close> that] by (simp add: resource_wf_def)
  ultimately show ?thesis using step by blast
qed

theorem cycle_end_never_panics_witness:
  "\<exists>m m'. steps (Start (NewManager [ex_ref, ex_other] ex_opts)) ex_failed m
    \<and> go_step ex_ref (AfterCycle False 11) m = Some m' \<and> m_initialized m' \<noteq> PanickedOnClose"
proof -
  obtain m g where m: "run_trace ex_failed (Start (NewManager [ex_ref, ex_other] ex_opts)) = Some m"
    and g: "m_go m ex_ref = Some g" "g_ctrl g = CycleDone False"
    using ex_failed_run by blast
  from cycle_end_never_panics [OF run_trace_steps [OF m] ex_opts_small g] run_trace_steps [OF m]
  show ?thesis by blast
qed

lemma Statuses_map:
  assumes "shape m"
  shows "Statuses m = map (\<lambda>ref. status (the (m_resources m ref))) (m_sorted m)"
proof -
  have "List.map_filter (\<lambda>ref. map_option status (m_resources m ref)) xs
      = map (\<lambda>ref. status (the (m_resources m ref))) xs" if "set xs \<subseteq> dom (m_resources m)" for xs
    using that by (induction xs) (auto simp: map_filter_simps)
  with assms show ?thesis by (simp add: Statuses_def shape_def)
qed

text \<open>
  The two ways to ask agree. \<^verbatim>\<open>WaitSynced\<close> can return without error exactly when the
  snapshot of the reference is established, and its reports what \<^verbatim>\<open>Statuses\<close> lists: one
  entry per distinct reference, in the order of \<^verbatim>\<open>SecretRef.Compare\<close>, with the presence of
  the snapshot, and with a connected watch exactly while the goroutine is in its watch loop.
\<close>

theorem Statuses_and_WaitSynced:
  assumes "steps (Start (NewManager refs opts)) tr m"
    and "InitialBackoff opts < 2 ^ 62" and "MaxBackoff opts < 2 ^ 62"
  shows "map sts_Ref (Statuses m) = sorted_list_of_set (set refs)
    \<and> (\<forall>st \<in> set (Statuses m). sts_Present st = sec_Present (Manager_Secret m (sts_Ref st))
        \<and> sts_Synced st = sec_Synced (Manager_Secret m (sts_Ref st))
        \<and> sts_WatchConnected st = (map_option g_ctrl (m_go m (sts_Ref st)) = Some Watching))
    \<and> (WaitOk \<in> set (WaitSynced cancelled ref m)) = sec_Synced (Manager_Secret m ref)"
proof -
  have ok: "run_ok opts refs tr m" using steps_run_ok [OF assms(1) _ assms(2,3)] by (simp add: booted_def)
  then have sh: "shape m" and srt: "set (m_sorted m) = set refs" "dom (m_go m) = set refs"
    by (simp_all add: run_ok_def mgr_inv_def)
  have "map sts_Ref (Statuses m) = m_sorted m"
    unfolding Statuses_map [OF sh] map_map
  proof (rule map_idI)
    fix x
    assume "x \<in> set (m_sorted m)"
    then obtain r where "m_resources m x = Some r" "r_ref r = x" using srt run_resource [OF ok] by blast
    then show "(sts_Ref \<circ> (\<lambda>ref. status (the (m_resources m ref)))) x = x" by (simp add: status_def)
  qed
  moreover have "sorted_list_of_set (set refs) = m_sorted m"
    using sh srt(1) by (metis shape_def sorted_list_of_set.idem_if_sorted_distinct)
  moreover have "sts_Present st = sec_Present (Manager_Secret m (sts_Ref st))
        \<and> sts_Synced st = sec_Synced (Manager_Secret m (sts_Ref st))
        \<and> sts_WatchConnected st = (map_option g_ctrl (m_go m (sts_Ref st)) = Some Watching)"
    if st: "st \<in> set (Statuses m)" for st
  proof -
    from st obtain x where x: "x \<in> set refs" "st = status (the (m_resources m x))"
      unfolding Statuses_map [OF sh] using srt by auto
    then obtain r where r: "m_resources m x = Some r" "r_ref r = x" using run_resource [OF ok] by blast
    obtain g where g: "m_go m x = Some g" using srt(2) x(1) by blast
    have "local_ok (m_opts m) g r" by (rule run_local [OF ok g r(1)])
    with r g x show ?thesis by (simp add: status_def Manager_Secret_def snapshot_def local_ok_def)
  qed
  moreover have "(WaitOk \<in> set (WaitSynced cancelled ref m)) = sec_Synced (Manager_Secret m ref)"
  proof (cases "m_resources m ref")
    case None
    then show ?thesis by (simp add: WaitSynced_def Manager_Secret_def zero_Secret_def)
  next
    case (Some r)
    with shape_resource(2) [OF sh Some] show ?thesis
      by (simp add: WaitSynced_def Manager_Secret_def snapshot_def resource_wf_def)
  qed
  ultimately show ?thesis by simp
qed

theorem Statuses_and_WaitSynced_witness:
  "\<exists>m. steps (Start (NewManager [ex_ref, ex_other] ex_opts)) ex_trace m
    \<and> map sts_Ref (Statuses m) = sorted_list_of_set {ex_ref, ex_other}
    \<and> WaitOk \<in> set (WaitSynced False ex_ref m)"
proof -
  obtain m where m: "run_trace ex_trace (Start (NewManager [ex_ref, ex_other] ex_opts)) = Some m"
    and "sec_Synced (Manager_Secret m ex_ref)"
    using ex_run by blast
  with Statuses_and_WaitSynced [OF run_trace_steps [OF m] ex_opts_small, of False ex_ref]
    run_trace_steps [OF m]
  show ?thesis by auto
qed

text \<open>
  Isolation. A step of the goroutine of one Secret, including one that ends in a recovered
  panic, leaves the state, the goroutine and every status of all other Secrets untouched.
\<close>

theorem go_step_isolated:
  assumes "steps (Start (NewManager refs opts)) tr m"
    and "InitialBackoff opts < 2 ^ 62" and "MaxBackoff opts < 2 ^ 62"
    and "go_step ref inp m = Some m'" and "other \<noteq> ref"
  shows "m_resources m' other = m_resources m other \<and> m_go m' other = m_go m other
    \<and> Manager_Secret m' other = Manager_Secret m other"
proof -
  have ok: "run_ok opts refs tr m" using steps_run_ok [OF assms(1) _ assms(2,3)] by (simp add: booted_def)
  then have "mgr_inv m" "goroutines_ok m" "opts_ok (m_opts m)"
    using opts_ok_withDefaults [OF assms(2,3)] by (simp_all add: run_ok_def)
  from go_step_moves [OF assms(4) this] assms(5) show ?thesis
    by (auto simp: moves_def located_def Manager_Secret_def)
qed

theorem go_step_isolated_witness:
  "\<exists>m m'. steps (Start (NewManager [ex_ref, ex_other] ex_opts)) ex_failed m
    \<and> go_step ex_other (CtxCheck False) m = Some m' \<and> m_resources m' ex_ref = m_resources m ex_ref"
proof -
  have "case run_trace ex_failed (Start (NewManager [ex_ref, ex_other] ex_opts)) of
    None \<Rightarrow> False | Some m \<Rightarrow> \<exists>m'. go_step ex_other (CtxCheck False) m = Some m'"
    by (simp add: run_eval ex_defs Let_def)
  then obtain m m' where m: "run_trace ex_failed (Start (NewManager [ex_ref, ex_other] ex_opts)) = Some m"
    and m': "go_step ex_other (CtxCheck False) m = Some m'"
    by (auto split: option.splits)
  from go_step_isolated [OF run_trace_steps [OF m] ex_opts_small m', of ex_ref] run_trace_steps [OF m] m'
  show ?thesis by (auto simp: ex_defs)
qed

section \<open>Shutdown\<close>

text \<open>
  After the context is cancelled every check of it says so, and a select may still pick events
  and reconciliation ticks that are ready. \<open>rank\<close> bounds how many other steps are left.
\<close>

fun rank :: "ctrl \<Rightarrow> nat" where
  "rank Listing = 4"
| "rank (Opening rv) = 3"
| "rank Watching = 2"
| "rank (Sleeping d) = 2"
| "rank LoopHead = 1"
| "rank (CycleDone h) = 1"
| "rank Exited = 0"

fun sees_cancel :: "input \<Rightarrow> bool" where
  "sees_cancel (CtxCheck c) = c"
| "sees_cancel (AfterCycle c e) = c"
| "sees_cancel inp = True"

fun in_watch :: "input \<Rightarrow> bool" where
  "in_watch (WatchEvent ev now) = True"
| "in_watch (ReconcileAnswer a c e now) = True"
| "in_watch inp = False"

definition rank_of :: "SecretRef \<Rightarrow> Manager \<Rightarrow> nat" where
  "rank_of ref m = (case m_go m ref of None \<Rightarrow> 0 | Some g \<Rightarrow> rank (g_ctrl g))"

lemma go_initOnce [simp]: "m_go (recover_cycle ref m) = (m_go m)(ref := map_option (g_ctrl_update (\<lambda>_. CycleDone False)) (m_go m ref))"
  by (simp add: recover_cycle_def)

lemma rank_step:
  assumes "go_step ref inp m = Some m'" and "sees_cancel inp"
  shows "rank_of ref m' + (if in_watch inp then 0 else 1) \<le> rank_of ref m"
  using assms
  by (auto simp: go_step_def rank_of_def exit_run_def step_list_def step_open_def leave_watch_def
      end_cycle_def step_event_def step_reconcile_def step_after_def Let_def
      split: option.splits ctrl.splits input.splits if_splits call.splits bool.splits prod.splits)

lemma go_step_other:
  assumes "go_step ref inp m = Some m'" and "other \<noteq> ref"
  shows "m_go m' other = m_go m other"
  using assms
  by (auto simp: go_step_def exit_run_def step_list_def step_open_def leave_watch_def
      end_cycle_def step_event_def step_reconcile_def step_after_def Let_def
      split: option.splits ctrl.splits input.splits if_splits call.splits bool.splits prod.splits)

lemma rank_steps:
  assumes "steps m tr m'" and "list_all sees_cancel (inputs_of ref tr)"
  shows "rank_of ref m' + length (filter (\<lambda>i. \<not> in_watch i) (inputs_of ref tr)) \<le> rank_of ref m"
  using assms
proof (induction rule: steps.induct)
  case (steps_refl m)
  then show ?case by (simp add: inputs_of_def)
next
  case (steps_step m tr m' ref' inp m'')
  show ?case
  proof (cases "ref' = ref")
    case True
    with steps_step rank_step [of ref inp m' m''] show ?thesis by (auto split: if_splits)
  next
    case False
    then have "rank_of ref m'' = rank_of ref m'"
      using go_step_other [OF steps_step.hyps(2), of ref] by (simp add: rank_of_def)
    with False steps_step show ?thesis by simp
  qed
qed

lemma rank_zero: "m_go m ref = Some g \<Longrightarrow> rank_of ref m = 0 \<longleftrightarrow> g_ctrl g = Exited"
  by (cases "g_ctrl g") (simp_all add: rank_of_def)

lemma rank_le_4: "rank c \<le> 4"
  by (cases c) simp_all

lemma rank_le: "rank_of ref m \<le> 4"
  by (simp add: rank_of_def rank_le_4 split: option.split)

text \<open>At every blocking point a cancelled context lets the goroutine go on.\<close>

lemma cancel_progress:
  assumes "m_go m ref = Some g" and "m_resources m ref = Some r" and "g_ctrl g \<noteq> Exited"
  shows "\<exists>inp m'. sees_cancel inp \<and> \<not> in_watch inp \<and> go_step ref inp m = Some m'"
proof -
  define inp where "inp = (case g_ctrl g of
      LoopHead \<Rightarrow> CtxCheck True
    | Listing \<Rightarrow> ListAnswer Panics True 0 0
    | Opening rv \<Rightarrow> WatchAnswer Panics True 0 0 0
    | Watching \<Rightarrow> WatchDeadline 0
    | CycleDone h \<Rightarrow> AfterCycle True 0
    | _ \<Rightarrow> SleepCancelled)"
  show ?thesis
    by (rule exI [of _ inp]) (insert assms, cases "g_ctrl g",
      simp_all add: inp_def go_step_def step_after_def)
qed

text \<open>
  C9: shutdown. Once the context is cancelled a goroutine that has not exited can always take a
  step, and along any run each of its steps except handling an event or a reconciliation that was
  already due brings it closer to its exit: at most four such steps, then it has exited and
  \<^verbatim>\<open>Wait\<close> no longer waits for it.
\<close>

theorem shutdown_terminates:
  assumes "steps (Start (NewManager refs opts)) tr0 m"
    and "InitialBackoff opts < 2 ^ 62" and "MaxBackoff opts < 2 ^ 62"
    and "steps m tr m'" and "list_all sees_cancel (inputs_of ref tr)" and "m_go m' ref = Some g"
  shows "length (filter (\<lambda>i. \<not> in_watch i) (inputs_of ref tr)) \<le> 4
    \<and> (length (filter (\<lambda>i. \<not> in_watch i) (inputs_of ref tr)) = 4 \<longrightarrow> g_ctrl g = Exited)
    \<and> (g_ctrl g = Exited
       \<or> (\<exists>inp m''. sees_cancel inp \<and> \<not> in_watch inp \<and> go_step ref inp m' = Some m''))"
proof -
  have "steps (Start (NewManager refs opts)) (tr0 @ tr) m'"
    using assms(4,1)
  proof (induction rule: steps.induct)
    case (steps_step m tr m' ref inp m'')
    then show ?case
      using steps.steps_step [of "Start (NewManager refs opts)" "tr0 @ tr" m' ref inp m''] by simp
  qed simp
  then have ok: "run_ok opts refs (tr0 @ tr) m'"
    using steps_run_ok [OF _ _ assms(2,3)] by (simp add: booted_def)
  then have "ref \<in> set refs" using assms(6) unfolding run_ok_def by blast
  then obtain r where r: "m_resources m' ref = Some r" using run_resource [OF ok] by blast
  note rk = rank_steps [OF assms(4,5)] rank_le [of ref m] rank_zero [OF assms(6)]
  show ?thesis
    using rk cancel_progress [OF assms(6) r] by auto
qed

theorem shutdown_terminates_witness:
  "\<exists>m m' g. steps (Start (NewManager [ex_ref, ex_other] ex_opts)) ex_failed m
    \<and> steps m [(ex_ref, AfterCycle True 0)] m' \<and> m_go m' ex_ref = Some g
    \<and> (g_ctrl g = Exited
       \<or> (\<exists>inp m''. sees_cancel inp \<and> \<not> in_watch inp \<and> go_step ex_ref inp m' = Some m''))"
proof -
  have "case run_trace ex_failed (Start (NewManager [ex_ref, ex_other] ex_opts)) of
    None \<Rightarrow> False | Some m \<Rightarrow> (case run_trace [(ex_ref, AfterCycle True 0)] m of
    None \<Rightarrow> False | Some m' \<Rightarrow> m_go m' ex_ref \<noteq> None)"
    by (simp add: run_eval ex_defs Let_def)
  then obtain m m' g where m: "run_trace ex_failed (Start (NewManager [ex_ref, ex_other] ex_opts)) = Some m"
    and m': "run_trace [(ex_ref, AfterCycle True 0)] m = Some m'" and g: "m_go m' ex_ref = Some g"
    by (auto split: option.splits)
  note st = run_trace_steps [OF m] run_trace_steps [OF m']
  have "list_all sees_cancel (inputs_of ex_ref [(ex_ref, AfterCycle True 0)])"
    by (simp add: inputs_of_def)
  from shutdown_terminates [OF st(1) ex_opts_small st(2) this g] st g show ?thesis by blast
qed

end
