(* ===== verification/Gateway_Metrics.thy ===== *)
theory Gateway_Metrics
  imports Server Manager
begin

text \<open>
  \<^verbatim>\<open>gateway/internal/metrics/metrics.go\<close>: the request counter and the collector that derives
  the state of the exposures from the resource cache.

  A counter vector of the Prometheus client is a function from label values to the count; the
  registry, the Go and process collectors and the text format belong to that library. A sample
  carries the description it belongs to, its kind, its value and its label values. Values are
  \<^verbatim>\<open>float64\<close> in the code: the conversion of a 64-bit counter or of a time stamp is a
  constructor here, so that no rounding is hidden.
\<close>

section \<open>Request counters\<close>

definition UnknownExposure :: string where
  "UnknownExposure = ''_unknown''"

type_synonym series = "string \<times> string \<times> string"

record Metrics =
  mt_requests :: "series \<Rightarrow> nat"
  mt_names :: "string set"

definition Metrics_New :: "Exposure list \<Rightarrow> Metrics" where
  "Metrics_New exposures = \<lparr>mt_requests = (\<lambda>_. 0), mt_names = set (map exp_Name exposures)\<rparr>"

definition status_code :: "int \<Rightarrow> string" where
  "status_code st = (if 100 \<le> st \<and> st \<le> 599 then int_string st else ''other'')"

definition ObserveRequest :: "string \<Rightarrow> int \<Rightarrow> string \<Rightarrow> Metrics \<Rightarrow> Metrics" where
  "ObserveRequest name st why m =
     (let name' = (if name \<in> mt_names m then name else UnknownExposure);
          s = (name', status_code st, why)
      in m\<lparr>mt_requests := (mt_requests m)(s := Suc (mt_requests m s))\<rparr>)"

section \<open>State metrics\<close>

datatype desc =
    sourcePresentDesc
  | authPresentDesc
  | authValidDesc
  | expectedKeyDesc
  | exposureHealthyDesc
  | watchConnectedDesc
  | lastSyncDesc
  | watchErrorsDesc
  | syncErrorsDesc

datatype value_type = GaugeValue | CounterValue

datatype float_value = Zero | One | OfUint64 "64 word" | OfNanoseconds int

definition boolValue :: "bool \<Rightarrow> float_value" where
  "boolValue b = (if b then One else Zero)"

datatype sample = Sample desc value_type float_value "string list"

definition Describe :: "desc list" where
  "Describe = [sourcePresentDesc, authPresentDesc, authValidDesc, expectedKeyDesc, exposureHealthyDesc,
     watchConnectedDesc, lastSyncDesc, watchErrorsDesc, syncErrorsDesc]"

definition collect_status :: "Status \<Rightarrow> sample list" where
  "collect_status st =
     (let ns = Namespace (sts_Ref st); name = Name (sts_Ref st);
          lastSync = (case sts_LastSuccessfulSync st of None \<Rightarrow> Zero | Some t \<Rightarrow> OfNanoseconds t)
      in [Sample watchConnectedDesc GaugeValue (boolValue (sts_WatchConnected st)) [ns, name],
          Sample lastSyncDesc GaugeValue lastSync [ns, name],
          Sample watchErrorsDesc CounterValue (OfUint64 (sts_WatchErrors st)) [ns, name],
          Sample syncErrorsDesc CounterValue (OfUint64 (sts_SyncErrors st)) [ns, name]])"

fun collect_keys :: "string \<Rightarrow> (string \<rightharpoonup> bytes) \<Rightarrow> string list \<Rightarrow> bool \<Rightarrow> sample list \<times> bool" where
  "collect_keys name data [] healthy = ([], healthy)"
| "collect_keys name data (key # keys) healthy =
     (let present = data key \<noteq> None in
      case collect_keys name data keys (healthy \<and> present) of (out, healthy') \<Rightarrow>
        (Sample expectedKeyDesc GaugeValue (boolValue present) [name, key] # out, healthy'))"

definition collect_exposure :: "(SecretRef \<Rightarrow> Secret) \<Rightarrow> Exposure \<Rightarrow> sample list" where
  "collect_exposure secret e =
     (let src = secret (exp_Source e);
          aref = Auth_SecretRef (exp_Auth e);
          authSecret = secret aref;
          authValid = (sec_Present authSecret \<and> \<not> isl (NewBasic (sec_Data authSecret)))
      in case collect_keys (exp_Name e) (sec_Data src) (exp_Keys e) (sec_Present src \<and> authValid) of
          (keys, healthy) \<Rightarrow>
        [Sample sourcePresentDesc GaugeValue (boolValue (sec_Present src))
           [exp_Name e, Namespace (exp_Source e), Name (exp_Source e)],
         Sample authPresentDesc GaugeValue (boolValue (sec_Present authSecret))
           [exp_Name e, Namespace aref, Name aref],
         Sample authValidDesc GaugeValue (boolValue authValid) [exp_Name e, Namespace aref, Name aref]]
        @ keys @ [Sample exposureHealthyDesc GaugeValue (boolValue healthy) [exp_Name e]])"

definition Collect :: "Exposure list \<Rightarrow> Manager \<Rightarrow> sample list" where
  "Collect exposures m =
     concat (map collect_status (Statuses m)) @ concat (map (collect_exposure (Manager_Secret m)) exposures)"

section \<open>Cardinality\<close>

fun observe_all :: "finished list \<Rightarrow> Metrics \<Rightarrow> Metrics" where
  "observe_all [] m = m"
| "observe_all (f # fs) m =
     observe_all fs (ObserveRequest (f_name f) (int (f_status f)) (opt_reason (f_reason f)) m)"

lemma ObserveRequest_names [simp]: "mt_names (ObserveRequest n st why m) = mt_names m"
  by (simp add: ObserveRequest_def Let_def)

lemma observe_all_names [simp]: "mt_names (observe_all fs m) = mt_names m"
  by (induction fs arbitrary: m) simp_all

definition series_of :: "string set \<Rightarrow> finished \<Rightarrow> series" where
  "series_of names f = (if f_name f \<in> names then f_name f else UnknownExposure,
     status_code (int (f_status f)), opt_reason (f_reason f))"

lemma observe_all_count:
  "mt_requests (observe_all fs m) s
    = mt_requests m s + length (filter (\<lambda>f. series_of (mt_names m) f = s) fs)"
  by (induction fs arbitrary: m) (simp_all add: ObserveRequest_def series_of_def Let_def)

definition all_reasons :: "reason list" where
  "all_reasons = [ReasonServed, ReasonNotModified, ReasonMethodNotAllowed, ReasonNoRoute,
     ReasonUnknownExposure, ReasonClientNotAllowed, ReasonClientAddressUnresolved,
     ReasonAuthSecretUnavailable, ReasonAuthSecretMalformed, ReasonUnauthorized,
     ReasonSourceSecretUnavailable, ReasonConfiguredKeyMissing, ReasonInternalError]"

lemma all_reasons: "why \<in> set all_reasons"
  by (cases why) (simp_all add: all_reasons_def)

definition served_series :: "Exposure list \<Rightarrow> series set" where
  "served_series exposures = insert UnknownExposure (exp_Name ` set exposures)
     \<times> int_string ` {200, 304, 401, 404, 405, 500, 503} \<times> reason_string ` set all_reasons"

lemma documented_status:
  "documented st why \<Longrightarrow> int st \<in> {200, 304, 401, 404, 405, 500, 503}"
  by (cases why) (simp_all add: documented_def)

text \<open>
  C38: bounded series. Whatever requests clients send, to whatever handler was built from the same
  exposures, the request counter only ever has series of a fixed finite set: a configured name or
  the unknown marker, one of seven status codes, one of the thirteen reasons. Each request adds one
  to exactly one of them.
\<close>

theorem request_series_bounded:
  assumes "list_all (\<lambda>(h, r, elapsed, w, f). keys_nonempty h \<and> ServeHTTP V h r elapsed = Inr (w, f)) reqs"
    and "fs = map (\<lambda>(h, r, elapsed, w, f). f) reqs"
  shows "set (map (series_of (set (map exp_Name exposures))) fs) \<subseteq> served_series exposures
    \<and> mt_requests (observe_all fs (Metrics_New exposures)) s
      = length (filter (\<lambda>f. series_of (set (map exp_Name exposures)) f = s) fs)"
proof
  show "set (map (series_of (set (map exp_Name exposures))) fs) \<subseteq> served_series exposures"
  proof
    fix x
    assume "x \<in> set (map (series_of (set (map exp_Name exposures))) fs)"
    then obtain h r elapsed w f where x: "x = series_of (set (map exp_Name exposures)) f"
      and req: "keys_nonempty h" "ServeHTTP V h r elapsed = Inr (w, f)"
      using assms by (auto simp: list_all_iff)
    obtain why where why: "f_reason f = Some why" "documented (f_status f) why"
      using finished_ok [OF req] by auto
    have code: "int (f_status f) \<in> {200, 304, 401, 404, 405, 500, 503}"
      by (rule documented_status [OF why(2)])
    then have "status_code (int (f_status f)) = int_string (int (f_status f))"
      by (auto simp: status_code_def)
    moreover have "int_string (int (f_status f)) \<in> int_string ` {200, 304, 401, 404, 405, 500, 503}"
      using code by (rule imageI)
    moreover have "reason_string why \<in> reason_string ` set all_reasons"
      using all_reasons by (rule imageI)
    ultimately show "x \<in> served_series exposures"
      unfolding x served_series_def series_of_def opt_reason_def why(1) option.case mem_Times_iff
      by (simp only: fst_conv snd_conv simp_thms) auto
  qed
qed (simp add: observe_all_count Metrics_New_def)

theorem request_series_bounded_witness:
  "\<exists>w f. ServeHTTP ex_V ex_handler (ex_login ''p'') 3 = Inr (w, f)
    \<and> mt_requests (observe_all [f] (Metrics_New [ex_exposure])) (series_of {''app''} f) = 1"
proof -
  obtain w f where f: "ServeHTTP ex_V ex_handler (ex_login ''p'') 3 = Inr (w, f)"
    using ex_served_finished by blast
  have "set (map exp_Name [ex_exposure]) = {''app''}" by (simp add: ex_exposure_def)
  with request_series_bounded [of ex_V "[(ex_handler, ex_login ''p'', 3, w, f)]" "[f]" "[ex_exposure]"
      "series_of {''app''} f"] f ex_keys
  show ?thesis by auto
qed

section \<open>Health\<close>

lemma collect_keys_healthy:
  "snd (collect_keys n data keys healthy) \<longleftrightarrow> healthy \<and> list_all (\<lambda>k. data k \<noteq> None) keys"
  by (induction keys arbitrary: healthy) (auto simp: Let_def case_prod_beta)

definition healthy :: "(SecretRef \<Rightarrow> Secret) \<Rightarrow> Exposure \<Rightarrow> bool" where
  "healthy secret e \<longleftrightarrow> Sample exposureHealthyDesc GaugeValue One [exp_Name e] \<in> set (collect_exposure secret e)"

lemma collect_keys_descs:
  "Sample d t v ls \<in> set (fst (collect_keys n data keys h)) \<Longrightarrow> d = expectedKeyDesc"
  by (induction keys arbitrary: h) (auto simp: Let_def case_prod_beta)

lemma healthy_iff:
  "healthy secret e \<longleftrightarrow> sec_Present (secret (exp_Source e))
    \<and> list_all (\<lambda>k. sec_Data (secret (exp_Source e)) k \<noteq> None) (exp_Keys e)
    \<and> sec_Present (secret (Auth_SecretRef (exp_Auth e)))
    \<and> (\<exists>v. NewBasic (sec_Data (secret (Auth_SecretRef (exp_Auth e)))) = Inr v)"
proof -
  let ?auth = "secret (Auth_SecretRef (exp_Auth e))" and ?src = "secret (exp_Source e)"
  let ?h = "sec_Present ?src \<and> sec_Present ?auth \<and> \<not> isl (NewBasic (sec_Data ?auth))"
  obtain keys ok where k: "collect_keys (exp_Name e) (sec_Data ?src) (exp_Keys e) ?h = (keys, ok)"
    by fastforce
  have "Sample exposureHealthyDesc GaugeValue One [exp_Name e] \<notin> set keys"
    using collect_keys_descs [of exposureHealthyDesc GaugeValue One "[exp_Name e]" "exp_Name e"
        "sec_Data ?src" "exp_Keys e" ?h] by (auto simp: k)
  then have "healthy secret e \<longleftrightarrow> ok"
    by (auto simp: healthy_def collect_exposure_def Let_def k boolValue_def)
  also have "\<dots> \<longleftrightarrow> ?h \<and> list_all (\<lambda>k. sec_Data ?src k \<noteq> None) (exp_Keys e)"
    using collect_keys_healthy [of "exp_Name e" "sec_Data ?src" "exp_Keys e" ?h] by (simp add: k)
  also have "\<not> isl (NewBasic (sec_Data ?auth)) \<longleftrightarrow> (\<exists>v. NewBasic (sec_Data ?auth) = Inr v)"
    by (cases "NewBasic (sec_Data ?auth)") auto
  finally show ?thesis by auto
qed

text \<open>
  C37: the health metric is honest. For a handler on the same cache, a request that is admitted to
  an exposure is answered with a body or a 304 exactly when the gauge \<^verbatim>\<open>exposure_healthy\<close> of the
  exposure is 1 and the request has the credentials of the authentication Secret: while the gauge is
  1 those credentials are enough, and while it is 0 no request for the exposure is served.
\<close>

theorem healthy_serves:
  assumes "keys_nonempty h" and "h_secrets h = Inr \<circ> Manager_Secret m" and "admitted V h r e"
  shows "(\<exists>w. response V h r = Some w \<and> (rw_status w = 200 \<or> rw_status w = 304))
    \<longleftrightarrow> healthy (Manager_Secret m) e \<and> authorized (h_secrets h) e r"
proof -
  have "(\<exists>s. available (h_secrets h) e s) \<and> authorized (h_secrets h) e r
      \<longleftrightarrow> healthy (Manager_Secret m) e \<and> authorized (h_secrets h) e r"
    by (auto simp: healthy_iff available_def authorized_def assms(2))
  moreover have "(\<exists>w. response V h r = Some w \<and> (rw_status w = 200 \<or> rw_status w = 304))
      \<longleftrightarrow> (\<exists>s. available (h_secrets h) e s) \<and> authorized (h_secrets h) e r"
    using response_status_served [OF _ _ assms(1), of V r] response_served [OF assms(3) _ _ assms(1)]
      admitted_unique [OF assms(3)]
    by (fastforce simp: body_response_def)
  ultimately show ?thesis by simp
qed

text \<open>A cache that holds both Secrets of the exposure.\<close>

definition ex_cache :: Manager where
  "ex_cache = (NewManager [SecretRef ''ns'' ''creds'', SecretRef ''ns'' ''db''] ex_opts)
     \<lparr>m_resources := [SecretRef ''ns'' ''creds'' \<mapsto> (new_resource (SecretRef ''ns'' ''creds''))\<lparr>r_secret := ex_creds\<rparr>,
        SecretRef ''ns'' ''db'' \<mapsto> (new_resource (SecretRef ''ns'' ''db''))\<lparr>r_secret := ex_source\<rparr>]\<rparr>"

lemma ex_cache_secrets: "Inr \<circ> Manager_Secret ex_cache = ex_secrets"
  by (auto simp: fun_eq_iff ex_cache_def Manager_Secret_def snapshot_def new_resource_def ex_secrets_def)

lemma ex_cache_healthy: "healthy (Manager_Secret ex_cache) ex_exposure"
  by (simp add: healthy_iff Manager_Secret_def ex_cache_def snapshot_def new_resource_def ex_exposure_def
      ex_source_def ex_creds_def NewBasic_Inr UsernameKey_def PasswordKey_def)

theorem healthy_serves_witness:
  "keys_nonempty ex_handler \<and> h_secrets ex_handler = Inr \<circ> Manager_Secret ex_cache
    \<and> admitted ex_V ex_handler (ex_login ''p'') ex_exposure
    \<and> Sample exposureHealthyDesc GaugeValue One [''app''] \<in> set (collect_exposure (Manager_Secret ex_cache) ex_exposure)
    \<and> (\<exists>w. response ex_V ex_handler (ex_login ''p'') = Some w \<and> (rw_status w = 200 \<or> rw_status w = 304))
    \<and> \<not> (\<exists>w. response ex_V ex_handler (ex_request []) = Some w \<and> (rw_status w = 200 \<or> rw_status w = 304))"
proof -
  have src: "h_secrets ex_handler = Inr \<circ> Manager_Secret ex_cache"
    by (simp add: ex_cache_secrets ex_handler_secrets)
  have "exp_Name ex_exposure = ''app''" by (simp add: ex_exposure_def)
  then show ?thesis
    using ex_keys src ex_admitted [of "''p''"] healthy_serves [OF ex_keys src ex_admitted, of "''p''"] ex_cache_healthy ex_authorized
      healthy_serves [OF ex_keys src, of ex_V "ex_request []" ex_exposure] ex_anonymous
    by (simp add: ex_handler_secrets ex_anonymous_admitted healthy_def)
qed

end
