(* ===== verification/Metrics_Listener.thy ===== *)
theory Metrics_Listener
  imports Server
begin

text \<open>
  \<^verbatim>\<open>gateway/internal/server/metrics.go\<close>: the handler of the metrics listener, with the
  liveness and readiness probes and the optional authentication of \<^verbatim>\<open>/metrics\<close>. The
  Prometheus handler it forwards to and the readiness function are parameters. There is no recover
  here: a panic of the Secret source goes to \<^verbatim>\<open>net/http\<close>.
\<close>

section \<open>Model\<close>

record 'w metricsHandler =
  mh_metrics :: "Request \<Rightarrow> 'w \<Rightarrow> 'w"
  mh_ready :: bool
  mh_auth :: "Auth option"
  mh_secrets :: "SecretSource option"

text \<open>The first two arguments tell whether the handler and the readiness function, and the logger, are set.\<close>

definition NewMetricsHandler :: "bool \<Rightarrow> bool \<Rightarrow> 'w metricsHandler \<Rightarrow> 'w metricsHandler option" where
  "NewMetricsHandler required logger opts =
     (if \<not> required \<or> \<not> logger \<or> (mh_auth opts \<noteq> None \<and> mh_secrets opts = None) then None
      else Some opts)"

definition probe :: "'w http_writer \<Rightarrow> bool \<Rightarrow> 'w \<Rightarrow> 'w" where
  "probe W ok w =
     (let w1 = hw_set W ''Cache-Control'' ''no-store'' (hw_set W ''Content-Type'' ''text/plain; charset=utf-8'' w)
      in if \<not> ok then hw_Write W (''not ready'' @ [CHR 0x0A]) (hw_WriteHeader W 503 w1)
         else hw_Write W (''ok'' @ [CHR 0x0A]) w1)"

text \<open>Whether the request may go on, and the response so far.\<close>

definition authorize :: "'w http_writer \<Rightarrow> 'w metricsHandler \<Rightarrow> Request \<Rightarrow> 'w \<Rightarrow> panic_value + bool \<times> 'w" where
  "authorize W h r w = (case mh_auth h of
      None \<Rightarrow> Inr (True, w)
    | Some a \<Rightarrow> (case mh_secrets h of
        None \<Rightarrow> Inl OtherPanic
      | Some secrets \<Rightarrow> (case secrets (Auth_SecretRef a) of
          Inl p \<Rightarrow> Inl p
        | Inr secret \<Rightarrow>
          if \<not> sec_Present secret then Inr (False, writeError W 503 w)
          else case NewBasic (sec_Data secret) of
              Inl err \<Rightarrow> Inr (False, writeError W 503 w)
            | Inr verifier \<Rightarrow>
              if \<not> Verify verifier r
              then Inr (False, writeError W 401 (hw_set W ''WWW-Authenticate'' (Challenge verifier) w))
              else Inr (True, w))))"

definition metrics_ServeHTTP :: "'w http_writer \<Rightarrow> 'w metricsHandler \<Rightarrow> Request \<Rightarrow> 'w \<Rightarrow> panic_value + 'w" where
  "metrics_ServeHTTP W h r w =
     (let path = EscapedPath (req_URL r) in
      if path \<noteq> ''/healthz'' \<and> path \<noteq> ''/readyz'' \<and> path \<noteq> ''/metrics'' then Inr (writeError W 404 w)
      else if req_Method r \<noteq> ''GET'' \<and> req_Method r \<noteq> ''HEAD''
      then Inr (writeError W 405 (hw_set W ''Allow'' ''GET, HEAD'' w))
      else if path = ''/healthz'' then Inr (probe W True w)
      else if path = ''/readyz'' then Inr (probe W (mh_ready h) w)
      else case authorize W h r w of
          Inl p \<Rightarrow> Inl p
        | Inr (ok, w') \<Rightarrow> Inr (if ok then mh_metrics h r w' else w'))"

section \<open>Properties\<close>

definition metrics_authorized :: "'w metricsHandler \<Rightarrow> Request \<Rightarrow> bool" where
  "metrics_authorized h r = (case mh_auth h of
      None \<Rightarrow> True
    | Some a \<Rightarrow> (case mh_secrets h of
        None \<Rightarrow> False
      | Some secrets \<Rightarrow> (case secrets (Auth_SecretRef a) of
          Inl p \<Rightarrow> False
        | Inr s \<Rightarrow> sec_Present s \<and> (case NewBasic (sec_Data s) of Inl e \<Rightarrow> False | Inr v \<Rightarrow> Verify v r))))"

lemma authorize_iff:
  "(\<exists>w'. authorize W h r w = Inr (True, w')) = metrics_authorized h r"
  "metrics_authorized h r \<Longrightarrow> authorize W h r w = Inr (True, w)"
  by (auto simp: authorize_def metrics_authorized_def split: option.splits sum.splits if_splits)

lemma authorize_indep: "authorize W (h\<lparr>mh_metrics := f\<rparr>) r w = authorize W h r w"
  by (simp add: authorize_def split: option.split)

text \<open>
  C39: metrics stay protected. Unless the request carries the credentials of the configured
  authentication Secret, or no authentication is configured, the response does not depend on what
  the Prometheus handler would have written; with them, a GET or HEAD of \<^verbatim>\<open>/metrics\<close> is
  answered by exactly that handler. An unusable authentication Secret fails closed.
\<close>

theorem metrics_protected:
  "(if metrics_authorized h r
    then EscapedPath (req_URL r) = ''/metrics'' \<and> (req_Method r = ''GET'' \<or> req_Method r = ''HEAD'') \<longrightarrow>
      metrics_ServeHTTP W h r w = Inr (mh_metrics h r w)
    else metrics_ServeHTTP W (h\<lparr>mh_metrics := other\<rparr>) r w = metrics_ServeHTTP W h r w)"
proof (cases "metrics_authorized h r")
  case True
  with authorize_iff(2) [OF True, of W w] show ?thesis
    by (auto simp: metrics_ServeHTTP_def Let_def)
next
  case False
  then have "\<And>w'. authorize W h r w \<noteq> Inr (True, w')"
    using authorize_iff(1) [of W h r w] by blast
  with False show ?thesis
    by (auto simp: metrics_ServeHTTP_def Let_def authorize_indep split: sum.split)
qed

definition get_request :: "string \<Rightarrow> Request" where
  "get_request path = (ex_request [])\<lparr>req_URL := \<lparr>url_Path = path, url_RawPath = [], url_ForceQuery = False,
     url_RawQuery = []\<rparr>\<rparr>"

theorem metrics_protected_witness:
  "metrics_ServeHTTP net_http_writer \<lparr>mh_metrics = (\<lambda>r w. rw_Write ''m'' w), mh_ready = True, mh_auth = None,
      mh_secrets = None\<rparr> (get_request ''/metrics'') (new_response ''GET'')
    = Inr (rw_Write ''m'' (new_response ''GET''))"
  using metrics_protected [of "\<lparr>mh_metrics = (\<lambda>r w. rw_Write ''m'' w), mh_ready = True, mh_auth = None,
      mh_secrets = None\<rparr>" "get_request ''/metrics''" net_http_writer "new_response ''GET''"]
  by (simp add: metrics_authorized_def get_request_def ex_request_def EscapedPath_def shouldEscape_def
      is_alnum_def eval_simps)

text \<open>
  Probes. For GET and HEAD, \<^verbatim>\<open>/healthz\<close> answers 200 and \<^verbatim>\<open>/readyz\<close> answers 200 or
  503 as the readiness function says, whatever authentication is configured and whatever the
  Secrets are; neither may be cached.
\<close>

theorem probes_status:
  assumes "req_Method r = ''GET'' \<or> req_Method r = ''HEAD''"
    and "EscapedPath (req_URL r) = ''/healthz'' \<or> EscapedPath (req_URL r) = ''/readyz''"
  shows "\<exists>w. metrics_ServeHTTP net_http_writer h r (new_response (req_Method r)) = Inr w
    \<and> rw_status w = (if EscapedPath (req_URL r) = ''/healthz'' \<or> mh_ready h then 200 else 503)
    \<and> map_of (rw_sent w) ''Cache-Control'' = Some ''no-store''"
  using assms
  by (auto simp: metrics_ServeHTTP_def probe_def new_response_def rw_set_def header_set_def
      rw_WriteHeader_def rw_Write_def Let_def)

theorem probes_status_witness:
  "\<exists>w. metrics_ServeHTTP net_http_writer \<lparr>mh_metrics = (\<lambda>r w. w), mh_ready = False,
      mh_auth = Some (Auth (SecretRef ''ns'' ''creds'')), mh_secrets = Some (\<lambda>_. Inl OtherPanic)\<rparr>
      (get_request ''/readyz'') (new_response ''GET'') = Inr w \<and> rw_status w = 503"
proof -
  have "EscapedPath (req_URL (get_request ''/readyz'')) = ''/readyz''" "req_Method (get_request ''/readyz'') = ''GET''"
    by (simp_all add: get_request_def ex_request_def EscapedPath_def shouldEscape_def is_alnum_def eval_simps)
  with probes_status [of "get_request ''/readyz''" "\<lparr>mh_metrics = (\<lambda>r w. w), mh_ready = False,
      mh_auth = Some (Auth (SecretRef ''ns'' ''creds'')), mh_secrets = Some (\<lambda>_. Inl OtherPanic)\<rparr>"]
  show ?thesis by auto
qed

end
