(* ===== verification/Tls.thy ===== *)
theory Tls
  imports Auth
begin

text \<open>
  \<^verbatim>\<open>gateway/internal/server/tls.go\<close>: the certificate reloader. Reading a file and
  \<^verbatim>\<open>tls.X509KeyPair\<close> are parameters; a certificate is a value of a type \<open>'c\<close>. A round of
  \<^verbatim>\<open>Run\<close> is one call of \<open>reload\<close> on the files as they are at that moment.
\<close>

section \<open>Model\<close>

record 'c CertificateReloader =
  cr_certFile :: string
  cr_keyFile :: string
  cr_cert :: "'c option"
  cr_digest :: "bytes \<times> bytes"

datatype reload_error = ReadCertificate | ReadPrivateKey | LoadKeyPair

type_synonym files = "string \<rightharpoonup> bytes"

definition reload :: "(bytes \<Rightarrow> bytes \<Rightarrow> 'c option) \<Rightarrow> files \<Rightarrow> 'c CertificateReloader
    \<Rightarrow> (reload_error + bool) \<times> 'c CertificateReloader" where
  "reload X509KeyPair fs r = (case fs (cr_certFile r) of
      None \<Rightarrow> (Inl ReadCertificate, r)
    | Some certPEM \<Rightarrow> (case fs (cr_keyFile r) of
        None \<Rightarrow> (Inl ReadPrivateKey, r)
      | Some keyPEM \<Rightarrow>
        let digest = (Sum256 certPEM, Sum256 keyPEM) in
        if cr_cert r \<noteq> None \<and> digest = cr_digest r then (Inr False, r)
        else case X509KeyPair certPEM keyPEM of
            None \<Rightarrow> (Inl LoadKeyPair, r)
          | Some cert \<Rightarrow> (Inr True, r\<lparr>cr_cert := Some cert, cr_digest := digest\<rparr>)))"

definition NewCertificateReloader :: "(bytes \<Rightarrow> bytes \<Rightarrow> 'c option) \<Rightarrow> files \<Rightarrow> string \<Rightarrow> string
    \<Rightarrow> reload_error + 'c CertificateReloader" where
  "NewCertificateReloader X509KeyPair fs certFile keyFile =
     (case reload X509KeyPair fs \<lparr>cr_certFile = certFile, cr_keyFile = keyFile, cr_cert = None,
          cr_digest = ([], [])\<rparr> of
        (Inl err, r) \<Rightarrow> Inl err
      | (Inr changed, r) \<Rightarrow> Inr r)"

definition GetCertificate :: "'c CertificateReloader \<Rightarrow> 'c option" where
  "GetCertificate r = cr_cert r"

text \<open>\<^verbatim>\<open>Run\<close>: the ticks until the context ends, each with the files it finds.\<close>

fun Run :: "(bytes \<Rightarrow> bytes \<Rightarrow> 'c option) \<Rightarrow> files list \<Rightarrow> 'c CertificateReloader \<Rightarrow> 'c CertificateReloader" where
  "Run X509KeyPair [] r = r"
| "Run X509KeyPair (fs # ticks) r = Run X509KeyPair ticks (snd (reload X509KeyPair fs r))"

section \<open>The pair in use is the last one that loaded\<close>

definition load :: "(bytes \<Rightarrow> bytes \<Rightarrow> 'c option) \<Rightarrow> string \<Rightarrow> string \<Rightarrow> files \<Rightarrow> 'c option" where
  "load X cf kf fs = Option.bind (fs cf) (\<lambda>c. Option.bind (fs kf) (X c))"

fun last_loaded :: "(bytes \<Rightarrow> bytes \<Rightarrow> 'c option) \<Rightarrow> string \<Rightarrow> string \<Rightarrow> files list \<Rightarrow> 'c option \<Rightarrow> 'c option" where
  "last_loaded X cf kf [] cert = cert"
| "last_loaded X cf kf (fs # rest) cert =
     last_loaded X cf kf rest (case load X cf kf fs of None \<Rightarrow> cert | Some c \<Rightarrow> Some c)"

text \<open>The contents in use: what was read when the certificate was loaded.\<close>

definition in_use :: "(bytes \<Rightarrow> bytes \<Rightarrow> 'c option) \<Rightarrow> bytes \<Rightarrow> bytes \<Rightarrow> 'c CertificateReloader \<Rightarrow> bool" where
  "in_use X c k r \<longleftrightarrow> X c k = cr_cert r \<and> cr_cert r \<noteq> None \<and> cr_digest r = (Sum256 c, Sum256 k)"

text \<open>All contents that appear; SHA-256 is assumed to tell these apart.\<close>

definition contents :: "string \<Rightarrow> files list \<Rightarrow> bytes set" where
  "contents f ticks = {b. \<exists>fs \<in> set ticks. fs f = Some b}"

definition told_apart :: "bytes set \<Rightarrow> bool" where
  "told_apart S \<longleftrightarrow> (\<forall>x \<in> S. \<forall>y \<in> S. no_collision x y)"

lemma told_apart_mono: "told_apart T \<Longrightarrow> S \<subseteq> T \<Longrightarrow> told_apart S"
  unfolding told_apart_def by blast

lemma contents_Cons: "contents f (fs # ticks) = contents f [fs] \<union> contents f ticks"
  by (auto simp: contents_def)

lemma reload_files [simp]:
  "cr_certFile (snd (reload X fs r)) = cr_certFile r" "cr_keyFile (snd (reload X fs r)) = cr_keyFile r"
  by (auto simp: reload_def Let_def split: option.split)

lemma reload_in_use:
  assumes "in_use X c k r" and "told_apart (insert c (contents (cr_certFile r) [fs]))"
    and "told_apart (insert k (contents (cr_keyFile r) [fs]))"
  shows "\<exists>c' k'. in_use X c' k' (snd (reload X fs r))
    \<and> c' \<in> insert c (contents (cr_certFile r) [fs]) \<and> k' \<in> insert k (contents (cr_keyFile r) [fs])
    \<and> cr_cert (snd (reload X fs r)) = (case load X (cr_certFile r) (cr_keyFile r) fs of
        None \<Rightarrow> cr_cert r | Some x \<Rightarrow> Some x)"
proof (cases "fs (cr_certFile r)")
  case None
  with assms(1) show ?thesis by (auto simp: reload_def load_def)
next
  case (Some c1)
  note c1 = this
  show ?thesis
  proof (cases "fs (cr_keyFile r)")
    case None
    with c1 assms(1) show ?thesis by (auto simp: reload_def load_def)
  next
    case (Some k1)
    have c: "no_collision c1 c" and k: "no_collision k1 k"
      using assms(2,3) c1 Some by (auto simp: told_apart_def contents_def)
    show ?thesis
    proof (cases "(Sum256 c1, Sum256 k1) = cr_digest r")
      case True
      with assms(1) c k have "c1 = c" "k1 = k" by (auto simp: in_use_def no_collision_def)
      with c1 Some True assms(1) show ?thesis
        by (intro exI [of _ c] exI [of _ k])
          (auto simp: reload_def load_def in_use_def Let_def split: option.split)
    next
      case False
      with c1 Some assms(1) show ?thesis
        by (cases "X c1 k1") (auto simp: reload_def load_def in_use_def contents_def Let_def)
    qed
  qed
qed

lemma Run_last_loaded:
  assumes "in_use X c k r" and "told_apart (insert c (contents (cr_certFile r) ticks))"
    and "told_apart (insert k (contents (cr_keyFile r) ticks))"
  shows "cr_cert (Run X ticks r) = last_loaded X (cr_certFile r) (cr_keyFile r) ticks (cr_cert r)"
  using assms
proof (induction ticks arbitrary: r c k)
  case (Cons fs ticks)
  have sub: "told_apart (insert c (contents (cr_certFile r) [fs]))" "told_apart (insert k (contents (cr_keyFile r) [fs]))"
    by (rule told_apart_mono [OF Cons.prems(2)], force simp: contents_Cons [of _ fs ticks])
      (rule told_apart_mono [OF Cons.prems(3)], force simp: contents_Cons [of _ fs ticks])
  from reload_in_use [OF Cons.prems(1) sub] obtain c' k' where
    r': "in_use X c' k' (snd (reload X fs r))" "c' \<in> insert c (contents (cr_certFile r) [fs])"
      "k' \<in> insert k (contents (cr_keyFile r) [fs])"
      "cr_cert (snd (reload X fs r)) = (case load X (cr_certFile r) (cr_keyFile r) fs of
        None \<Rightarrow> cr_cert r | Some x \<Rightarrow> Some x)" by blast
  have "told_apart (insert c' (contents (cr_certFile r) ticks))" "told_apart (insert k' (contents (cr_keyFile r) ticks))"
    by (rule told_apart_mono [OF Cons.prems(2)], insert r'(2), force simp: contents_Cons [of _ fs ticks])
      (rule told_apart_mono [OF Cons.prems(3)], insert r'(3), force simp: contents_Cons [of _ fs ticks])
  with Cons.IH [OF r'(1)] r'(4) show ?case by simp
qed simp

text \<open>
  C40: certificate renewal. From a successful start on, whatever the files are at each tick, missing,
  half written or mismatched, the certificate served is the one of the last tick at which both
  files could be read and formed a valid pair, so there is always one; only distinct file contents
  with the same SHA-256 digest could break this.
\<close>

theorem serves_last_loadable:
  assumes "NewCertificateReloader X fs0 cf kf = Inr r"
    and "told_apart (contents cf (fs0 # ticks))" and "told_apart (contents kf (fs0 # ticks))"
  shows "GetCertificate (Run X ticks r) = last_loaded X cf kf (fs0 # ticks) None
    \<and> GetCertificate (Run X ticks r) \<noteq> None"
proof -
  obtain c k where c: "fs0 cf = Some c" "fs0 kf = Some k" and u: "in_use X c k r"
    and f: "cr_certFile r = cf" "cr_keyFile r = kf" "load X cf kf fs0 = cr_cert r"
    using assms(1)
    by (auto simp: NewCertificateReloader_def reload_def load_def in_use_def Let_def split: option.splits)
  have t: "told_apart (insert c (contents (cr_certFile r) ticks))" "told_apart (insert k (contents (cr_keyFile r) ticks))"
    by (rule told_apart_mono [OF assms(2)], insert c f, force simp: contents_def)
      (rule told_apart_mono [OF assms(3)], insert c f, force simp: contents_def)
  have keep: "cert \<noteq> None \<Longrightarrow> last_loaded X cf kf tk cert \<noteq> None" for cert tk
    by (induction tk arbitrary: cert) (auto split: option.splits)
  have "cr_cert r \<noteq> None" using u by (simp add: in_use_def)
  then show ?thesis
    using Run_last_loaded [OF u t] f keep [of "cr_cert r" ticks] by (auto simp: GetCertificate_def)
qed

theorem serves_last_loadable_witness:
  "\<exists>r. NewCertificateReloader (\<lambda>c k. Some (c, k)) [''crt'' \<mapsto> ''C'', ''key'' \<mapsto> ''K''] ''crt'' ''key'' = Inr r
    \<and> GetCertificate (Run (\<lambda>c k. Some (c, k)) [Map.empty, [''crt'' \<mapsto> ''C'', ''key'' \<mapsto> ''K'']] r)
      = Some (''C'', ''K'')"
proof -
  let ?X = "\<lambda>c k. Some (c, k)" and ?fs = "[''crt'' \<mapsto> ''C'', ''key'' \<mapsto> ''K'']"
  obtain r where r: "NewCertificateReloader ?X ?fs ''crt'' ''key'' = Inr r"
    by (simp add: NewCertificateReloader_def reload_def Let_def)
  have "contents ''crt'' [?fs, Map.empty, ?fs] = {''C''}" "contents ''key'' [?fs, Map.empty, ?fs] = {''K''}"
    by (auto simp: contents_def)
  then have "told_apart (contents ''crt'' [?fs, Map.empty, ?fs])" "told_apart (contents ''key'' [?fs, Map.empty, ?fs])"
    by (simp_all add: told_apart_def)
  from serves_last_loadable [OF r this] r show ?thesis by (auto simp: load_def)
qed

end
