(* ===== verification/Kube_Client.thy ===== *)
theory Kube_Client
  imports Exposure
begin

text \<open>
  \<^verbatim>\<open>gateway/internal/kubernetes/client.go\<close>: which requests the gateway sends to the Kubernetes API.
  A call is refused or becomes one request of \<^verbatim>\<open>client-go\<close>, whose answer is passed on unchanged;
  the answers are inputs of the resource manager. The text of a field selector is made by
  \<^verbatim>\<open>apimachinery\<close> and is a parameter, as are the loading of the client configuration and
  the creation of the client.
\<close>

record ListOptions =
  lo_FieldSelector :: string
  lo_ResourceVersion :: string
  lo_AllowWatchBookmarks :: bool
  lo_TimeoutSeconds :: "int option"

datatype kube_request =
    KubeList string ListOptions
  | KubeWatch string ListOptions
  | KubeGet string string

datatype ref_error = errIncompleteRef

definition checkRef :: "SecretRef \<Rightarrow> ref_error option" where
  "checkRef ref = (if Namespace ref = [] \<or> Name ref = [] then Some errIncompleteRef else None)"

definition nameSelector :: "(string \<Rightarrow> string \<Rightarrow> string) \<Rightarrow> string \<Rightarrow> string" where
  "nameSelector OneTermEqualSelector name = OneTermEqualSelector ''metadata.name'' name"

definition ListSecret :: "(string \<Rightarrow> string \<Rightarrow> string) \<Rightarrow> SecretRef \<Rightarrow> ref_error + kube_request" where
  "ListSecret sel ref = (case checkRef ref of
      Some err \<Rightarrow> Inl err
    | None \<Rightarrow> Inr (KubeList (Namespace ref) \<lparr>lo_FieldSelector = nameSelector sel (Name ref), lo_ResourceVersion = [],
        lo_AllowWatchBookmarks = False, lo_TimeoutSeconds = None\<rparr>))"

definition WatchSecret :: "(string \<Rightarrow> string \<Rightarrow> string) \<Rightarrow> SecretRef \<Rightarrow> string \<Rightarrow> duration \<Rightarrow> ref_error + kube_request" where
  "WatchSecret sel ref resourceVersion timeout = (case checkRef ref of
      Some err \<Rightarrow> Inl err
    | None \<Rightarrow> (let timeoutSeconds = go_div timeout second in
        Inr (KubeWatch (Namespace ref) \<lparr>lo_FieldSelector = nameSelector sel (Name ref), lo_ResourceVersion = resourceVersion,
          lo_AllowWatchBookmarks = True, lo_TimeoutSeconds = Some timeoutSeconds\<rparr>)))"

definition GetSecret :: "SecretRef \<Rightarrow> ref_error + kube_request" where
  "GetSecret ref = (case checkRef ref of
      Some err \<Rightarrow> Inl err
    | None \<Rightarrow> Inr (KubeGet (Namespace ref) (Name ref)))"

text \<open>The fields of the client configuration that the gateway sets; the others are as loaded.\<close>

record rest_Config =
  rc_UserAgent :: string
  rc_QPS :: nat
  rc_Burst :: nat

definition RESTConfig :: "(string \<Rightarrow> string + 'k rest_Config_scheme) \<Rightarrow> string \<Rightarrow> string \<Rightarrow> string + 'k rest_Config_scheme" where
  "RESTConfig ClientConfig kubeconfig userAgent = (case ClientConfig kubeconfig of
      Inl err \<Rightarrow> Inl (''load Kubernetes client configuration: '' @ err)
    | Inr cfg \<Rightarrow> Inr (cfg\<lparr>rc_UserAgent := userAgent, rc_QPS := 20, rc_Burst := 50\<rparr>))"

definition NewClientset :: "('k rest_Config_scheme \<Rightarrow> string + 's) \<Rightarrow> 'k rest_Config_scheme \<Rightarrow> string + 's" where
  "NewClientset NewForConfig cfg = (case NewForConfig cfg of
      Inl err \<Rightarrow> Inl (''create Kubernetes client: '' @ err)
    | Inr cs \<Rightarrow> Inr cs)"

text \<open>The request is for one Secret by its name, inside one namespace.\<close>

definition exact_request :: "(string \<Rightarrow> string \<Rightarrow> string) \<Rightarrow> SecretRef \<Rightarrow> kube_request \<Rightarrow> bool" where
  "exact_request sel ref req \<longleftrightarrow> Namespace ref \<noteq> [] \<and> Name ref \<noteq> [] \<and> (case req of
      KubeList ns opts \<Rightarrow> ns = Namespace ref \<and> lo_FieldSelector opts = sel ''metadata.name'' (Name ref)
    | KubeWatch ns opts \<Rightarrow> ns = Namespace ref \<and> lo_FieldSelector opts = sel ''metadata.name'' (Name ref)
        \<and> lo_AllowWatchBookmarks opts
    | KubeGet ns name \<Rightarrow> ns = Namespace ref \<and> name = Name ref)"

lemma requests_exact:
  "ListSecret sel ref = Inr req \<Longrightarrow> exact_request sel ref req"
  "WatchSecret sel ref rv timeout = Inr req \<Longrightarrow> exact_request sel ref req"
  "GetSecret ref = Inr req \<Longrightarrow> exact_request sel ref req"
  by (auto simp: ListSecret_def WatchSecret_def GetSecret_def checkRef_def exact_request_def nameSelector_def Let_def
      split: if_splits)

lemma requests_sent:
  assumes "Namespace ref \<noteq> []" and "Name ref \<noteq> []"
  shows "\<exists>req. ListSecret sel ref = Inr req" "\<exists>req. WatchSecret sel ref rv timeout = Inr req" "\<exists>req. GetSecret ref = Inr req"
  using assms by (simp_all add: ListSecret_def WatchSecret_def GetSecret_def checkRef_def Let_def)

lemma WatchSecret_timeout:
  assumes "WatchSecret sel ref rv timeout = Inr (KubeWatch ns opts)" and "second \<le> timeout"
  shows "\<exists>s. lo_TimeoutSeconds opts = Some s \<and> 0 < s \<and> s * second \<le> timeout"
proof -
  have "lo_TimeoutSeconds opts = Some (timeout div second)" "0 < timeout div second" "timeout div second * second \<le> timeout"
    using assms by (auto simp: WatchSecret_def checkRef_def Let_def second_def pos_imp_zdiv_pos_iff split: if_splits)
  then show ?thesis by blast
qed

end
