(* ===== verification/Go_Case.thy ===== *)
theory Go_Case
  imports Go_Strings
begin

text \<open>
  Case mappings and \<^verbatim>\<open>log/slog\<close> levels, as the two commands use them. The result of
  \<^verbatim>\<open>strings.ToLower\<close> and \<^verbatim>\<open>strings.ToUpper\<close> is only compared with words of ASCII letters, so it
  is the list of its code points, in which letters outside ASCII are mapped only where they become
  ASCII: these are U+0130 and U+212A, and U+0131 and U+017F.
\<close>

function runes :: "string \<Rightarrow> nat list" where
  "runes s = (if s = [] then [] else fst (DecodeRune s) # runes (drop (snd (DecodeRune s)) s))"
  by pat_completeness auto
termination
  by (relation "measure length") auto

declare runes.simps [simp del]

lemma runes_Nil [simp]: "runes [] = []"
  by (simp add: runes.simps)

lemma runes_ascii [simp]: "byte_of c < 0x80 \<Longrightarrow> runes (c # cs) = byte_of c # runes cs"
  by (subst runes.simps) simp

definition lower_rune :: "nat \<Rightarrow> nat" where
  "lower_rune r = (if 65 \<le> r \<and> r \<le> 90 then r + 32 else if r = 0x130 then 0x69 else if r = 0x212A then 0x6B else r)"

definition upper_rune :: "nat \<Rightarrow> nat" where
  "upper_rune r = (if 97 \<le> r \<and> r \<le> 122 then r - 32 else if r = 0x131 then 0x49 else if r = 0x17F then 0x53 else r)"

definition ToLower_is :: "string \<Rightarrow> string \<Rightarrow> bool" where
  "ToLower_is s word = (map lower_rune (runes s) = map byte_of word)"

definition ToUpper_is :: "string \<Rightarrow> string \<Rightarrow> bool" where
  "ToUpper_is s word = (map upper_rune (runes s) = map byte_of word)"

text \<open>A \<^verbatim>\<open>slog.Level\<close> is an \<^verbatim>\<open>int\<close> of 64 bits.\<close>

type_synonym slog_Level = int

definition slog_LevelDebug :: slog_Level where
  "slog_LevelDebug = -4"

definition slog_LevelInfo :: slog_Level where
  "slog_LevelInfo = 0"

definition slog_LevelWarn :: slog_Level where
  "slog_LevelWarn = 4"

definition slog_LevelError :: slog_Level where
  "slog_LevelError = 8"

definition Atoi :: "string \<Rightarrow> int option" where
  "Atoi s = (case s of
      [] \<Rightarrow> None
    | c # cs \<Rightarrow>
      let digits = (if c = CHR ''+'' \<or> c = CHR ''-'' then cs else s) in
      (case ParseUint digits 10 64 of
         None \<Rightarrow> None
       | Some n \<Rightarrow>
         if c = CHR ''-'' then (if n \<le> 2 ^ 63 then Some (- int n) else None)
         else if n < 2 ^ 63 then Some (int n) else None))"

text \<open>\<^verbatim>\<open>Level.UnmarshalText\<close>: a name in any case, with an optional offset.\<close>

definition level_name :: "string \<Rightarrow> slog_Level option" where
  "level_name name =
     (if ToUpper_is name ''DEBUG'' then Some slog_LevelDebug
      else if ToUpper_is name ''INFO'' then Some slog_LevelInfo
      else if ToUpper_is name ''WARN'' then Some slog_LevelWarn
      else if ToUpper_is name ''ERROR'' then Some slog_LevelError
      else None)"

definition UnmarshalText :: "string \<Rightarrow> slog_Level option" where
  "UnmarshalText s =
     (let name = takeWhile (\<lambda>c. c \<noteq> CHR ''+'' \<and> c \<noteq> CHR ''-'') s;
          rest = dropWhile (\<lambda>c. c \<noteq> CHR ''+'' \<and> c \<noteq> CHR ''-'') s
      in case (if rest = [] then Some 0 else Atoi rest) of
           None \<Rightarrow> None
         | Some offset \<Rightarrow> map_option (\<lambda>l. wrap64 (l + offset)) (level_name name))"

end
