(* ===== verification/Gateway_Main.thy ===== *)
theory Gateway_Main
  imports Gateway_Config Gateway_Metrics Metrics_Listener Tls Kube_Client Go_Case
begin

text \<open>
  \<^verbatim>\<open>gateway/cmd/kube-secret-gateway/main.go\<close>: how the parts of the gateway are put together, and its
  exit codes. The command line, the YAML decoder, reading of files, certificate parsing, the
  Kubernetes client configuration, registration of metrics and listening, which is told the
  addresses already listened on, are parameters. What is
  logged is not modelled, except the counts after the first synchronization.
\<close>

section \<open>Model\<close>

record gateway_flags =
  gf_config :: string
  gf_kubeconfig :: string
  gf_logLevel :: string
  gf_logFormat :: string

record ('c, 'k) gateway_env =
  ge_parse :: "string list \<Rightarrow> (gateway_flags \<times> string list) option"
  ge_V :: k8s_validation
  ge_first :: "bytes \<Rightarrow> document decoded"
  ge_second :: "bytes \<Rightarrow> unit decoded"
  ge_readFile :: "string \<Rightarrow> string + bytes"
  ge_files :: files
  ge_X509KeyPair :: "bytes \<Rightarrow> bytes \<Rightarrow> 'c option"
  ge_version :: string
  ge_ClientConfig :: "string \<Rightarrow> string + 'k rest_Config_scheme"
  ge_NewForConfig :: "'k rest_Config_scheme \<Rightarrow> string + unit"
  ge_register :: bool
  ge_listen :: "string list \<Rightarrow> string \<Rightarrow> bool"

definition parseLevel :: "string \<Rightarrow> slog_Level option" where
  "parseLevel s = UnmarshalText s"

datatype gateway_logger = JSONLogger slog_Level | TextLogger slog_Level

definition newLogger :: "slog_Level \<Rightarrow> string \<Rightarrow> gateway_logger option" where
  "newLogger level format =
     (if format = ''json'' then Some (JSONLogger level)
      else if format = ''text'' then Some (TextLogger level)
      else None)"

definition loadTLS :: "(bytes \<Rightarrow> bytes \<Rightarrow> 'c option) \<Rightarrow> files \<Rightarrow> TLS option \<Rightarrow> reload_error + 'c CertificateReloader option" where
  "loadTLS X509KeyPair fs files = (case files of
      None \<Rightarrow> Inr None
    | Some t \<Rightarrow> map_sum id Some (NewCertificateReloader X509KeyPair fs (CertFile t) (KeyFile t)))"

definition gateway_refs :: "Config \<Rightarrow> SecretRef list" where
  "gateway_refs cfg = ReferencedSecrets (cfg_Exposures cfg)
     @ (case met_Auth (cfg_Metrics cfg) of None \<Rightarrow> [] | Some a \<Rightarrow> [Auth_SecretRef a])"

definition manager_options :: "Config \<Rightarrow> Options" where
  "manager_options cfg = \<lparr>ReconcileInterval = cfg_ReconcileInterval cfg, RequestTimeout = 0, WatchTimeout = 0,
     InitialBackoff = 0, MaxBackoff = 0, StableWatchDuration = 0\<rparr>"

text \<open>The handler over the manager as it is at the moment of a request.\<close>

definition secretsHandler :: "Config \<Rightarrow> Manager \<Rightarrow> new_error + Handler" where
  "secretsHandler cfg m = New True (cfg_Exposures cfg) (\<lambda>ref. Inr (Manager_Secret m ref))
     (NewResolver (srv_TrustedProxies (cfg_Server cfg)))"

definition ready :: "bool \<Rightarrow> Manager \<Rightarrow> bool" where
  "ready shuttingDown m \<longleftrightarrow> \<not> shuttingDown \<and> Initialized m"

definition metrics_handler :: "(Request \<Rightarrow> 'w \<Rightarrow> 'w) \<Rightarrow> Config \<Rightarrow> bool \<Rightarrow> Manager \<Rightarrow> 'w metricsHandler option" where
  "metrics_handler metrics cfg shuttingDown m = NewMetricsHandler True True \<lparr>mh_metrics = metrics, mh_ready = ready shuttingDown m,
     mh_auth = met_Auth (cfg_Metrics cfg), mh_secrets = Some (\<lambda>ref. Inr (Manager_Secret m ref))\<rparr>"

record 'c gateway =
  gs_cfg :: Config
  gs_secretsTLS :: "'c CertificateReloader option"
  gs_metricsTLS :: "'c CertificateReloader option"
  gs_manager :: Manager
  gs_metrics :: Metrics

definition appName :: string where
  "appName = ''kube-secret-gateway''"

text \<open>Whether the Kubernetes client can be made.\<close>

definition kube_clientset :: "('c, 'k) gateway_env \<Rightarrow> gateway_flags \<Rightarrow> bool" where
  "kube_clientset env flags = (case RESTConfig (ge_ClientConfig env) (gf_kubeconfig flags) (appName @ ''/'' @ ge_version env) of
      Inl _ \<Rightarrow> False
    | Inr cfg \<Rightarrow> (case NewClientset (ge_NewForConfig env) cfg of Inl _ \<Rightarrow> False | Inr _ \<Rightarrow> True))"

text \<open>From the configuration to the two listeners; \<^const>\<open>None\<close> is exit code 1.\<close>

definition gateway_build :: "('c, 'k) gateway_env \<Rightarrow> gateway_flags \<Rightarrow> Config \<Rightarrow> 'c gateway option" where
  "gateway_build env flags cfg =
     (case loadTLS (ge_X509KeyPair env) (ge_files env) (srv_TLS (cfg_Server cfg)) of
        Inl _ \<Rightarrow> None
      | Inr secretsTLS \<Rightarrow> (case loadTLS (ge_X509KeyPair env) (ge_files env) (met_TLS (cfg_Metrics cfg)) of
          Inl _ \<Rightarrow> None
        | Inr metricsTLS \<Rightarrow>
          if \<not> kube_clientset env flags then None
          else let manager = NewManager (gateway_refs cfg) (manager_options cfg) in
            if \<not> ge_register env then None
            else case secretsHandler cfg manager of
                Inl _ \<Rightarrow> None
              | Inr _ \<Rightarrow>
                if metrics_handler (\<lambda>_ w :: RespWriter. w) cfg False manager = None then None
                else if \<not> ge_listen env [] (srv_ListenAddress (cfg_Server cfg)) then None
                else if \<not> ge_listen env [srv_ListenAddress (cfg_Server cfg)] (met_ListenAddress (cfg_Metrics cfg)) then None
                else Some \<lparr>gs_cfg = cfg, gs_secretsTLS = secretsTLS, gs_metricsTLS = metricsTLS,
                  gs_manager = Start manager, gs_metrics = Metrics_New (cfg_Exposures cfg)\<rparr>))"

definition gateway_start :: "('c, 'k) gateway_env \<Rightarrow> string list \<Rightarrow> nat + 'c gateway" where
  "gateway_start env args = (case ge_parse env args of
      None \<Rightarrow> Inl 2
    | Some (flags, rest) \<Rightarrow>
      if rest \<noteq> [] then Inl 2
      else case parseLevel (gf_logLevel flags) of
          None \<Rightarrow> Inl 2
        | Some level \<Rightarrow>
          if newLogger level (gf_logFormat flags) = None then Inl 2
          else case Load (ge_V env) (ge_first env) (ge_second env) (ge_readFile env) (gf_config flags) of
              Inl _ \<Rightarrow> Inl 1
            | Inr cfg \<Rightarrow> (case gateway_build env flags cfg of None \<Rightarrow> Inl 1 | Some g \<Rightarrow> Inr g))"

text \<open>The level of the logger that \<^verbatim>\<open>client-go\<close> gets.\<close>

definition client_go_level :: "slog_Level \<Rightarrow> slog_Level" where
  "client_go_level level = max level slog_LevelInfo"

datatype metrics_auth_error = CouldNotBeRead | DoesNotExist | NotUsable auth_error

text \<open>\<^verbatim>\<open>checkMetricsAuth\<close> by the result of \<^verbatim>\<open>WaitSynced\<close> and the manager at that moment.\<close>

definition checkMetricsAuth :: "wait_result \<Rightarrow> Manager \<Rightarrow> Auth \<Rightarrow> metrics_auth_error option" where
  "checkMetricsAuth waited m a =
     (if waited \<noteq> WaitOk then Some CouldNotBeRead
      else let s = Manager_Secret m (Auth_SecretRef a) in
        if \<not> sec_Present s then Some DoesNotExist
        else case NewBasic (sec_Data s) of Inl err \<Rightarrow> Some (NotUsable err) | Inr _ \<Rightarrow> None)"

text \<open>The last check before the listeners are served: exit code 1, or go on.\<close>

definition metrics_auth_exit :: "wait_result \<Rightarrow> Manager \<Rightarrow> Config \<Rightarrow> nat option" where
  "metrics_auth_exit waited m cfg = (case met_Auth (cfg_Metrics cfg) of
      None \<Rightarrow> None
    | Some a \<Rightarrow> if checkMetricsAuth waited m a \<noteq> None then Some 1 else None)"

text \<open>
  The rest of \<^verbatim>\<open>run\<close>, from the start of the manager to the exit code: what it waits for in turn,
  the flag \<^verbatim>\<open>shuttingDown\<close>, whether the background context is alive, and \<^verbatim>\<open>exitCode\<close>. Of each
  \<^verbatim>\<open>http.Server\<close>: whether it accepts connections, whether it may have open ones, and the number of
  its requests in flight.
\<close>

datatype run_phase = CheckingAuth | Serving | ShutdownSecrets | ShutdownMetrics | Returned nat

datatype server = SecretsServer | MetricsServer

record run_state =
  rs_phase :: run_phase
  rs_shuttingDown :: bool
  rs_background :: bool
  rs_accepting :: "server \<Rightarrow> bool"
  rs_open :: "server \<Rightarrow> bool"
  rs_requests :: "server \<Rightarrow> nat"
  rs_exitCode :: nat

definition run_started :: run_state where
  "run_started = \<lparr>rs_phase = CheckingAuth, rs_shuttingDown = False, rs_background = True, rs_accepting = (\<lambda>_. False),
     rs_open = (\<lambda>_. False), rs_requests = (\<lambda>_. 0), rs_exitCode = 0\<rparr>"

text \<open>
  What happens to it. Events of \<^verbatim>\<open>run\<close> itself: the wait for the credentials of the metrics ends, a
  signal arrives, the failure of a server is received, a call of \<^verbatim>\<open>Shutdown\<close> returns, completely
  or with an error. Events of the servers: a call of \<^verbatim>\<open>Serve\<close> fails, a request begins or ends.
\<close>

datatype run_event =
    AuthWaited wait_result Manager
  | CtxDone
  | ServeErr server
  | ShutdownDone bool
  | ServeFails server
  | RequestBegins server
  | RequestEnds server

text \<open>Both servers are started; each accepts connections from now on.\<close>

definition start_servers :: "run_state \<Rightarrow> run_state" where
  "start_servers s = s\<lparr>rs_phase := Serving, rs_accepting := (\<lambda>_. True), rs_open := (\<lambda>_. True)\<rparr>"

text \<open>A server that no longer accepts connections keeps the open ones and their requests.\<close>

definition stop_accepting :: "server \<Rightarrow> run_state \<Rightarrow> run_state" where
  "stop_accepting srv s = s\<lparr>rs_accepting := (rs_accepting s)(srv := False)\<rparr>"

definition begin_shutdown :: "nat \<Rightarrow> run_state \<Rightarrow> run_state" where
  "begin_shutdown code s = stop_accepting SecretsServer
     (s\<lparr>rs_phase := ShutdownSecrets, rs_shuttingDown := True, rs_exitCode := code\<rparr>)"

text \<open>
  \<^verbatim>\<open>Shutdown\<close> returns without an error only when no request is in flight and every connection is
  closed. When it returns an error, at the deadline, whatever was in flight goes on.
\<close>

definition note_shutdown :: "server \<Rightarrow> bool \<Rightarrow> run_state \<Rightarrow> run_state option" where
  "note_shutdown srv whole s =
     (if \<not> whole then Some (s\<lparr>rs_exitCode := 1\<rparr>)
      else if rs_requests s srv = 0 then Some (s\<lparr>rs_open := (rs_open s)(srv := False)\<rparr>)
      else None)"

definition stop_background :: "run_state \<Rightarrow> run_state" where
  "stop_background s = s\<lparr>rs_background := False, rs_phase := Returned (rs_exitCode s)\<rparr>"

fun returned :: "run_phase \<Rightarrow> bool" where
  "returned (Returned code) = True"
| "returned _ = False"

fun run_step :: "Config \<Rightarrow> run_event \<Rightarrow> run_state \<Rightarrow> run_state option" where
  "run_step cfg (AuthWaited waited m) s =
     (if rs_phase s \<noteq> CheckingAuth then None
      else case metrics_auth_exit waited m cfg of
          Some code \<Rightarrow> Some (stop_background (s\<lparr>rs_exitCode := code\<rparr>))
        | None \<Rightarrow> Some (start_servers s))"
| "run_step cfg CtxDone s = (if rs_phase s = Serving then Some (begin_shutdown 0 s) else None)"
| "run_step cfg (ServeErr srv) s =
     (if rs_phase s = Serving \<and> \<not> rs_accepting s srv then Some (begin_shutdown 1 s) else None)"
| "run_step cfg (ShutdownDone whole) s =
     (if rs_phase s = ShutdownSecrets
      then map_option (\<lambda>s. stop_accepting MetricsServer (s\<lparr>rs_phase := ShutdownMetrics\<rparr>)) (note_shutdown SecretsServer whole s)
      else if rs_phase s = ShutdownMetrics
      then map_option stop_background (note_shutdown MetricsServer whole s)
      else None)"
| "run_step cfg (ServeFails srv) s =
     (if rs_accepting s srv \<and> \<not> returned (rs_phase s) then Some (stop_accepting srv s) else None)"
| "run_step cfg (RequestBegins srv) s =
     (if rs_open s srv \<and> \<not> returned (rs_phase s)
      then Some (s\<lparr>rs_requests := (rs_requests s)(srv := rs_requests s srv + 1)\<rparr>) else None)"
| "run_step cfg (RequestEnds srv) s =
     (if 0 < rs_requests s srv \<and> \<not> returned (rs_phase s)
      then Some (s\<lparr>rs_requests := (rs_requests s)(srv := rs_requests s srv - 1)\<rparr>) else None)"

inductive runs :: "Config \<Rightarrow> run_event list \<Rightarrow> run_state \<Rightarrow> bool" for cfg where
  runs_start: "runs cfg [] run_started"
| runs_step: "runs cfg evs s \<Longrightarrow> run_step cfg ev s = Some s' \<Longrightarrow> runs cfg (evs @ [ev]) s'"

text \<open>\<^verbatim>\<open>logInitialSync\<close>: the numbers of present, absent and failed Secrets.\<close>

fun count_statuses :: "Status list \<Rightarrow> nat \<times> nat \<times> nat \<Rightarrow> nat \<times> nat \<times> nat" where
  "count_statuses [] c = c"
| "count_statuses (st # sts) (present, absent, failed) =
     count_statuses sts (if \<not> sts_Synced st then (present, absent, Suc failed)
       else if sts_Present st then (Suc present, absent, failed)
       else (present, Suc absent, failed))"

definition logInitialSync :: "Manager \<Rightarrow> nat \<times> nat \<times> nat" where
  "logInitialSync m = count_statuses (Statuses m) (0, 0, 0)"

section \<open>Start\<close>

lemma add_exposures_distinct:
  "distinct (map exp_Name es) \<Longrightarrow> \<forall>e \<in> set es. m (exp_Name e) = None
    \<Longrightarrow> add_exposures es m = Inr (m ++ map_of (map (\<lambda>e. (exp_Name e, e)) es))"
proof (induction es arbitrary: m)
  case (Cons e es)
  have "(m(exp_Name e \<mapsto> e)) ++ map_of (map (\<lambda>e. (exp_Name e, e)) es)
      = (m ++ map_of (map (\<lambda>e. (exp_Name e, e)) es))(exp_Name e \<mapsto> e)"
    using Cons.prems(1) by (intro map_add_upd_left) (auto simp: dom_map_of_conv_image_fst)
  moreover have "add_exposures es (m(exp_Name e \<mapsto> e))
      = Inr ((m(exp_Name e \<mapsto> e)) ++ map_of (map (\<lambda>e. (exp_Name e, e)) es))"
    using Cons.prems by (intro Cons.IH) (auto simp: image_iff)
  ultimately show ?case using Cons.prems(2) by (auto simp: fun_eq_iff map_add_def split: if_splits)
qed simp

text \<open>The handler of a valid configuration.\<close>

definition handler_of :: "Config \<Rightarrow> Manager \<Rightarrow> Handler" where
  "handler_of cfg m = \<lparr>h_exposures = map_of (map (\<lambda>e. (exp_Name e, e)) (cfg_Exposures cfg)),
     h_secrets = (\<lambda>ref. Inr (Manager_Secret m ref)), h_clientIP = NewResolver (srv_TrustedProxies (cfg_Server cfg))\<rparr>"

lemma secretsHandler_ok: "config_ok V cfg \<Longrightarrow> secretsHandler cfg m = Inr (handler_of cfg m)"
  by (simp add: secretsHandler_def New_def config_ok_def add_exposures_distinct handler_of_def)

lemma handler_of_exposures:
  assumes "config_ok V cfg"
  shows "h_exposures (handler_of cfg m) name = Some e \<longleftrightarrow> e \<in> set (cfg_Exposures cfg) \<and> exp_Name e = name"
  using assms by (auto simp: handler_of_def config_ok_def map_of_eq_Some_iff map_of_SomeD distinct_map o_def
      inj_on_def image_iff)

lemma metrics_handler_ok: "metrics_handler metrics cfg down m \<noteq> None"
  by (simp add: metrics_handler_def NewMetricsHandler_def)

definition tls_ready :: "('c, 'k) gateway_env \<Rightarrow> TLS option \<Rightarrow> bool" where
  "tls_ready env t = pred_option (\<lambda>t. load (ge_X509KeyPair env) (CertFile t) (KeyFile t) (ge_files env) \<noteq> None) t"

lemma loadTLS_ready: "(\<exists>r. loadTLS (ge_X509KeyPair env) (ge_files env) t = Inr r) \<longleftrightarrow> tls_ready env t"
  by (cases t) (auto simp: loadTLS_def tls_ready_def NewCertificateReloader_def reload_def load_def Let_def split: option.splits)

lemma Load_config_ok: "Load V first_doc second_doc readFile path = Inr cfg \<Longrightarrow> config_ok V cfg"
  using resolve_ok(1) by (auto simp: Load_def Parse_def split: sum.splits decoded.splits)

definition build_ready :: "('c, 'k) gateway_env \<Rightarrow> gateway_flags \<Rightarrow> Config \<Rightarrow> bool" where
  "build_ready env flags cfg \<longleftrightarrow> tls_ready env (srv_TLS (cfg_Server cfg)) \<and> tls_ready env (met_TLS (cfg_Metrics cfg))
     \<and> kube_clientset env flags \<and> ge_register env \<and> ge_listen env [] (srv_ListenAddress (cfg_Server cfg))
     \<and> ge_listen env [srv_ListenAddress (cfg_Server cfg)] (met_ListenAddress (cfg_Metrics cfg))"

lemma gateway_build_ready:
  assumes "config_ok V cfg"
  shows "(\<exists>g. gateway_build env flags cfg = Some g) \<longleftrightarrow> build_ready env flags cfg"
  using loadTLS_ready [of env "srv_TLS (cfg_Server cfg)"] loadTLS_ready [of env "met_TLS (cfg_Metrics cfg)"]
  by (auto simp: gateway_build_def build_ready_def secretsHandler_ok [OF assms] metrics_handler_ok Let_def split: sum.splits)

definition usage_ok :: "('c, 'k) gateway_env \<Rightarrow> string list \<Rightarrow> gateway_flags \<Rightarrow> bool" where
  "usage_ok env args flags \<longleftrightarrow> ge_parse env args = Some (flags, []) \<and> parseLevel (gf_logLevel flags) \<noteq> None
     \<and> (gf_logFormat flags = ''json'' \<or> gf_logFormat flags = ''text'')"

lemma newLogger_None: "newLogger level format = None \<longleftrightarrow> format \<noteq> ''json'' \<and> format \<noteq> ''text''"
  by (simp add: newLogger_def)

lemma gateway_start_usage:
  "usage_ok env args flags \<Longrightarrow> gateway_start env args =
    (case Load (ge_V env) (ge_first env) (ge_second env) (ge_readFile env) (gf_config flags) of
        Inl _ \<Rightarrow> Inl 1
      | Inr cfg \<Rightarrow> (case gateway_build env flags cfg of None \<Rightarrow> Inl 1 | Some g \<Rightarrow> Inr g))"
  "\<nexists>flags. usage_ok env args flags \<Longrightarrow> gateway_start env args = Inl 2"
  by (auto simp: gateway_start_def usage_ok_def newLogger_None split: option.splits)

text \<open>
  C15: exit codes of the start. The gateway exits with 2 exactly when its command line is not
  usable, and with 1 for any other failure. It starts exactly when the configuration loads, the
  configured certificates load, the Kubernetes client can be made, the metrics register and both
  addresses can be listened on; a configuration that loads is never refused by the handlers.
\<close>

theorem gateway_start_complete:
  "(gateway_start env args = Inl 2 \<longleftrightarrow> (\<nexists>flags. usage_ok env args flags))
   \<and> ((\<exists>g. gateway_start env args = Inr g) \<longleftrightarrow> (\<exists>flags cfg. usage_ok env args flags
        \<and> Load (ge_V env) (ge_first env) (ge_second env) (ge_readFile env) (gf_config flags) = Inr cfg
        \<and> build_ready env flags cfg))
   \<and> (gateway_start env args = Inl 1 \<or> gateway_start env args = Inl 2 \<or> (\<exists>g. gateway_start env args = Inr g))"
proof (cases "\<exists>flags. usage_ok env args flags")
  case True
  then obtain flags where flags: "usage_ok env args flags" by blast
  then have unique: "usage_ok env args f \<longleftrightarrow> f = flags" for f by (auto simp: usage_ok_def)
  show ?thesis
  proof (cases "Load (ge_V env) (ge_first env) (ge_second env) (ge_readFile env) (gf_config flags)")
    case (Inr cfg)
    then show ?thesis
      using gateway_build_ready [OF Load_config_ok [OF Inr], of env flags]
      by (auto simp: gateway_start_usage(1) [OF flags] unique split: option.splits)
  qed (simp add: gateway_start_usage(1) [OF flags] unique)
qed (simp add: gateway_start_usage(2))

lemma gateway_started:
  assumes "gateway_start env args = Inr g"
  shows "config_ok (ge_V env) (gs_cfg g)"
    and "gs_manager g = booted (gateway_refs (gs_cfg g)) (manager_options (gs_cfg g))"
proof -
  obtain flags where flags: "usage_ok env args flags"
    using assms gateway_start_usage(2) [of env args] by fastforce
  obtain cfg where cfg: "Load (ge_V env) (ge_first env) (ge_second env) (ge_readFile env) (gf_config flags) = Inr cfg"
      "gateway_build env flags cfg = Some g"
    using assms by (auto simp: gateway_start_usage(1) [OF flags] split: sum.splits option.splits)
  then have "gs_cfg g = cfg" "gs_manager g = booted (gateway_refs cfg) (manager_options cfg)"
    by (auto simp: gateway_build_def booted_def Let_def split: sum.splits if_splits)
  with Load_config_ok [OF cfg(1)]
  show "config_ok (ge_V env) (gs_cfg g)" "gs_manager g = booted (gateway_refs (gs_cfg g)) (manager_options (gs_cfg g))"
    by simp_all
qed

lemma gateway_run_ok:
  assumes "gateway_start env args = Inr g" and "steps (gs_manager g) tr m"
  shows "run_ok (manager_options (gs_cfg g)) (gateway_refs (gs_cfg g)) tr m"
  using assms(2) gateway_started(2) [OF assms(1)] by (rule steps_run_ok) (simp_all add: manager_options_def)

text \<open>The Secrets a configuration mentions.\<close>

definition mentioned :: "Config \<Rightarrow> SecretRef \<Rightarrow> bool" where
  "mentioned cfg ref \<longleftrightarrow> list_ex (\<lambda>e. ref = exp_Source e \<or> ref = Auth_SecretRef (exp_Auth e)) (cfg_Exposures cfg)
     \<or> map_option Auth_SecretRef (met_Auth (cfg_Metrics cfg)) = Some ref"

lemma set_gateway_refs: "ref \<in> set (gateway_refs cfg) \<longleftrightarrow> mentioned cfg ref"
  by (cases "met_Auth (cfg_Metrics cfg)")
    (auto simp: gateway_refs_def mentioned_def ReferencedSecrets_def set_collect_refs list_ex_iff)

lemma mentioned_ok: "config_ok V cfg \<Longrightarrow> mentioned cfg ref \<Longrightarrow> ref_ok V ref"
  by (auto simp: config_ok_def mentioned_def exposure_ok_def list_all_iff list_ex_iff)

text \<open>
  C13: least privilege. Whatever has happened since the start, the Secrets a goroutine of the
  gateway works on are exactly those the configuration mentions: the sources and credentials of
  the exposures and the credentials of the metrics. None of its requests is refused by the client,
  and each names that one Secret inside its namespace.
\<close>

theorem gateway_requests_exact:
  assumes "gateway_start env args = Inr g" and "steps (gs_manager g) tr m"
  shows "(m_go m ref \<noteq> None \<longleftrightarrow> mentioned (gs_cfg g) ref)
    \<and> (m_go m ref \<noteq> None \<longrightarrow>
        (\<exists>req. ListSecret sel ref = Inr req \<and> exact_request sel ref req)
      \<and> (\<exists>req. WatchSecret sel ref rv timeout = Inr req \<and> exact_request sel ref req)
      \<and> (\<exists>req. GetSecret ref = Inr req \<and> exact_request sel ref req))"
proof -
  have iff: "m_go m ref \<noteq> None \<longleftrightarrow> mentioned (gs_cfg g) ref"
    using gateway_run_ok [OF assms] set_gateway_refs by (auto simp: run_ok_def dom_def)
  moreover have "Namespace ref \<noteq> []" "Name ref \<noteq> []" if "mentioned (gs_cfg g) ref"
    using mentioned_ok [OF gateway_started(1) [OF assms(1)] that] by (simp_all add: ref_ok_def)
  ultimately show ?thesis using requests_sent requests_exact by meson
qed

text \<open>What the handler reads of a configured Secret is what its goroutine was told last.\<close>

lemma gateway_Secret:
  assumes "gateway_start env args = Inr g" and "steps (gs_manager g) tr m" and "mentioned (gs_cfg g) ref"
  shows "Manager_Secret m ref = observed ref tr"
proof -
  obtain r where "m_resources m ref = Some r" "r_secret r = observed ref tr"
    using run_resource [OF gateway_run_ok [OF assms(1,2)]] assms(3) by (metis set_gateway_refs)
  then show ?thesis by (simp add: Manager_Secret_def snapshot_def)
qed

lemma valid_keys:
  assumes "k8s_names V" and "config_ok V cfg" and "e \<in> set (cfg_Exposures cfg)" and "k \<in> set (exp_Keys e)"
  shows "k \<noteq> []" and "list_all key_char k"
proof -
  have "ValidateKey V k = None" using assms(2-4) by (auto simp: config_ok_def exposure_ok_def list_all_iff)
  then show "k \<noteq> []" "list_all key_char k"
    using k8s_names.valid_key_nonempty [OF assms(1)] k8s_names.valid_key_chars [OF assms(1)] by (auto simp: list_all_iff)
qed

lemma handler_keys: "k8s_names V \<Longrightarrow> config_ok V cfg \<Longrightarrow> keys_nonempty (handler_of cfg m)"
  using valid_keys(1) handler_of_exposures by (fastforce simp: keys_nonempty_def)

text \<open>The Secrets as the answers of the Kubernetes API leave them.\<close>

definition api_secrets :: "(SecretRef \<times> input) list \<Rightarrow> SecretSource" where
  "api_secrets tr ref = Inr (observed ref tr)"

lemma gateway_secrets:
  assumes "gateway_start env args = Inr g" and "steps (gs_manager g) tr m" and "e \<in> set (cfg_Exposures (gs_cfg g))"
  shows "authorized (h_secrets (handler_of (gs_cfg g) m)) e r \<longleftrightarrow> authorized (api_secrets tr) e r"
    and "available (h_secrets (handler_of (gs_cfg g) m)) e s \<longleftrightarrow> available (api_secrets tr) e s"
proof -
  have "mentioned (gs_cfg g) (exp_Source e)" "mentioned (gs_cfg g) (Auth_SecretRef (exp_Auth e))"
    using assms(3) by (auto simp: mentioned_def list_ex_iff)
  note same = this [THEN gateway_Secret [OF assms(1,2)]]
  show "authorized (h_secrets (handler_of (gs_cfg g) m)) e r \<longleftrightarrow> authorized (api_secrets tr) e r"
    and "available (h_secrets (handler_of (gs_cfg g) m)) e s \<longleftrightarrow> available (api_secrets tr) e s"
    by (simp_all add: authorized_def available_def api_secrets_def handler_of_def same)
qed

text \<open>The manager keeps the contract of a \<^verbatim>\<open>SecretSource\<close>.\<close>

interpretation manager_source: secret_source "\<lambda>ref. Inr (Manager_Secret m ref)" for m
  by unfold_locales simp

lemma gateway_status:
  assumes "gateway_start env args = Inr g" and "steps (gs_manager g) tr m" and "e \<in> set (cfg_Exposures (gs_cfg g))"
  shows "served_status (h_secrets (handler_of (gs_cfg g) m)) e r st \<longleftrightarrow> served_status (api_secrets tr) e r st"
proof -
  have "mentioned (gs_cfg g) (Auth_SecretRef (exp_Auth e))" using assms(3) by (auto simp: mentioned_def list_ex_iff)
  from gateway_Secret [OF assms(1,2) this]
  have "usable_credentials (h_secrets (handler_of (gs_cfg g) m)) e \<longleftrightarrow> usable_credentials (api_secrets tr) e"
    by (simp add: usable_credentials_def api_secrets_def handler_of_def)
  then show ?thesis using gateway_secrets [OF assms] by (auto simp: served_status_def)
qed

text \<open>
  C14: every request is answered, and the status tells what is wrong. In every state of a started
  gateway a request that is not admitted gets 405 for its method and 404 otherwise; an admitted
  one gets 503 while the credentials of its exposure cannot be used, 401 with the wrong ones, 503
  while the source Secret or one of the configured keys is missing, 304 when the client has the
  current version, and 200 otherwise, all by the Secrets as the Kubernetes API last showed them. No
  request is answered with a 500 or aborted.
\<close>

theorem gateway_answers:
  assumes "gateway_start env args = Inr g" and "k8s_names (ge_V env)" and "steps (gs_manager g) tr m"
    and "secretsHandler (gs_cfg g) m = Inr h"
  shows "\<exists>w. response (ge_V env) h r = Some w \<and>
    (if \<nexists>e. admitted (ge_V env) h r e
     then rw_status w = (if req_Method r = ''GET'' \<or> req_Method r = ''HEAD'' then 404 else 405)
     else \<exists>e. admitted (ge_V env) h r e \<and> e \<in> set (cfg_Exposures (gs_cfg g)) \<and> served_status (api_secrets tr) e r (rw_status w))"
proof -
  note ok = gateway_started(1) [OF assms(1)]
  have h: "h = handler_of (gs_cfg g) m" using assms(4) secretsHandler_ok [OF ok] by simp
  show ?thesis
  proof (cases "\<exists>e. admitted (ge_V env) h r e")
    case True
    then obtain e where e: "admitted (ge_V env) h r e" by blast
    then have mem: "e \<in> set (cfg_Exposures (gs_cfg g))" using handler_of_exposures [OF ok] by (auto simp: admitted_def h)
    have src: "h_secrets h = (\<lambda>ref. Inr (Manager_Secret m ref))" by (simp add: h handler_of_def)
    obtain w where "response (ge_V env) h r = Some w" "served_status (h_secrets h) e r (rw_status w)"
      using manager_source.answered_admitted [OF src handler_keys [OF assms(2) ok, of m, folded h] e] src by auto
    with e mem gateway_status [OF assms(1,3) mem] show ?thesis by (auto simp: h)
  next
    case False
    with manager_source.answered_refused show ?thesis by simp
  qed
qed

text \<open>The log line after the first synchronization counts every managed Secret once.\<close>

lemma count_statuses_filter:
  "count_statuses sts (p, a, f) = (p + length (filter (\<lambda>st. sts_Synced st \<and> sts_Present st) sts),
     a + length (filter (\<lambda>st. sts_Synced st \<and> \<not> sts_Present st) sts), f + length (filter (\<lambda>st. \<not> sts_Synced st) sts))"
  by (induction sts arbitrary: p a f) auto

section \<open>The life of the gateway\<close>

lemmas run_defs = run_started_def start_servers_def stop_accepting_def begin_shutdown_def note_shutdown_def
  stop_background_def

fun of_run :: "run_event \<Rightarrow> bool" where
  "of_run (ServeFails srv) = False"
| "of_run (RequestBegins srv) = False"
| "of_run (RequestEnds srv) = False"
| "of_run _ = True"

text \<open>The first thing that happens, where the servers have started.\<close>

definition auth_passed :: "Config \<Rightarrow> run_event list \<Rightarrow> bool" where
  "auth_passed cfg evs \<longleftrightarrow> (case evs of AuthWaited waited m # _ \<Rightarrow> metrics_auth_exit waited m cfg = None | _ \<Rightarrow> False)"

text \<open>Of the events of \<^verbatim>\<open>run\<close>: a signal, and complete calls of \<^verbatim>\<open>Shutdown\<close>.\<close>

fun orderly :: "run_event list \<Rightarrow> bool" where
  "orderly (AuthWaited _ _ # CtxDone # rest) = list_all (\<lambda>ev. ev = ShutdownDone True) rest"
| "orderly (AuthWaited _ _ # rest) = (rest = [])"
| "orderly evs = (evs = [])"

lemma orderly_whole: "orderly evs \<Longrightarrow> ShutdownDone False \<notin> set evs"
  by (induction evs rule: orderly.induct) (auto simp: list_all_iff)

definition incomplete :: "run_event list \<Rightarrow> bool" where
  "incomplete evs \<longleftrightarrow> ShutdownDone False \<in> set evs"

definition probes_up :: "run_event list \<Rightarrow> run_state \<Rightarrow> bool" where
  "probes_up evs s \<longleftrightarrow> rs_accepting s MetricsServer \<or> ServeFails MetricsServer \<in> set evs"

definition exit_code_of :: "run_event list \<Rightarrow> nat" where
  "exit_code_of evs = (if orderly (filter of_run evs) then 0 else 1)"

definition phase_inv :: "Config \<Rightarrow> run_event list \<Rightarrow> run_state \<Rightarrow> bool" where
  "phase_inv cfg evs s \<longleftrightarrow> (case rs_phase s of
      CheckingAuth \<Rightarrow> evs = [] \<and> s = run_started
    | Serving \<Rightarrow> (\<exists>waited m. filter of_run evs = [AuthWaited waited m]) \<and> auth_passed cfg evs
        \<and> \<not> rs_shuttingDown s \<and> rs_background s \<and> rs_exitCode s = 0 \<and> probes_up evs s
    | ShutdownSecrets \<Rightarrow> length (filter of_run evs) = 2 \<and> auth_passed cfg evs \<and> rs_shuttingDown s
        \<and> rs_background s \<and> rs_exitCode s = exit_code_of evs \<and> probes_up evs s
    | ShutdownMetrics \<Rightarrow> length (filter of_run evs) = 3 \<and> auth_passed cfg evs \<and> rs_shuttingDown s
        \<and> rs_background s \<and> rs_exitCode s = exit_code_of evs \<and> (rs_open s SecretsServer \<longrightarrow> incomplete evs)
    | Returned code \<Rightarrow> \<not> rs_background s \<and>
        (length (filter of_run evs) = 4 \<and> auth_passed cfg evs \<and> rs_shuttingDown s \<and> code = exit_code_of evs
           \<and> (\<forall>srv. rs_open s srv \<longrightarrow> incomplete evs)
         \<or> (\<exists>waited m. evs = [AuthWaited waited m]) \<and> \<not> auth_passed cfg evs \<and> code = 1 \<and> (\<forall>srv. \<not> rs_open s srv)))"

text \<open>Requests have a connection, and none is accepted without one being possible.\<close>

definition server_inv :: "run_state \<Rightarrow> bool" where
  "server_inv s \<longleftrightarrow> (\<forall>srv. (0 < rs_requests s srv \<longrightarrow> rs_open s srv) \<and> (rs_accepting s srv \<longrightarrow> rs_open s srv))
     \<and> (rs_phase s \<noteq> Serving \<longrightarrow> \<not> rs_accepting s SecretsServer)
     \<and> (rs_phase s \<noteq> Serving \<and> rs_phase s \<noteq> ShutdownSecrets \<longrightarrow> \<not> rs_accepting s MetricsServer)"

lemma exit_code_snoc:
  "\<not> of_run ev \<Longrightarrow> exit_code_of (evs @ [ev]) = exit_code_of evs"
  by (simp add: exit_code_of_def)

lemma auth_passed_head: "auth_passed cfg evs \<Longrightarrow> \<exists>waited m rest. evs = AuthWaited waited m # rest"
  by (auto simp: auth_passed_def split: list.splits run_event.splits)

lemma auth_passed_snoc: "evs \<noteq> [] \<Longrightarrow> auth_passed cfg (evs @ [ev]) = auth_passed cfg evs"
  by (cases evs) (auto simp: auth_passed_def)

lemma orderly_snoc:
  "orderly (AuthWaited waited m # rest @ [ShutdownDone whole])
    = (orderly (AuthWaited waited m # rest) \<and> whole \<and> rest \<noteq> [])"
proof (cases rest)
  case (Cons ev rest')
  then show ?thesis by (cases ev) auto
qed simp

lemma exit_code_shutdown:
  assumes "auth_passed cfg evs" and "2 \<le> length (filter of_run evs)"
  shows "exit_code_of (evs @ [ShutdownDone whole]) = (if whole then exit_code_of evs else 1)"
proof -
  obtain waited m rest where "evs = AuthWaited waited m # rest" using auth_passed_head [OF assms(1)] by blast
  moreover from this assms(2) have "filter of_run rest \<noteq> []" by auto
  ultimately show ?thesis by (simp add: exit_code_of_def orderly_snoc)
qed

lemma server_inv_step: "server_inv s \<Longrightarrow> run_step cfg ev s = Some s' \<Longrightarrow> server_inv s'"
  by (cases ev) (auto simp: server_inv_def run_defs split: option.splits if_splits)

text \<open>Events of the servers change neither the phase nor what \<^verbatim>\<open>run\<close> has done.\<close>

lemma phase_inv_server:
  assumes "phase_inv cfg evs s" and "server_inv s" and "\<not> of_run ev" and "run_step cfg ev s = Some s'"
  shows "phase_inv cfg (evs @ [ev]) s'"
proof -
  have ne: "evs \<noteq> []"
    using assms by (cases ev) (auto simp: phase_inv_def run_started_def server_inv_def split: if_splits run_phase.splits)
  have same: "rs_phase s' = rs_phase s" "rs_shuttingDown s' = rs_shuttingDown s" "rs_background s' = rs_background s"
      "rs_exitCode s' = rs_exitCode s" "rs_open s' = rs_open s" "\<not> returned (rs_phase s)"
    using assms(3,4) by (cases ev; auto simp: run_defs split: if_splits)+
  have up: "probes_up evs s \<Longrightarrow> probes_up (evs @ [ev]) s'"
    using assms(3,4) by (cases ev) (auto simp: probes_up_def run_defs split: if_splits)
  have lost: "incomplete evs \<Longrightarrow> incomplete (evs @ [ev])" by (simp add: incomplete_def)
  show ?thesis
    using assms(1,3) same up lost ne auth_passed_snoc [OF ne] exit_code_snoc [OF assms(3), of evs]
    by (cases "rs_phase s") (auto simp: phase_inv_def)
qed

lemma phase_inv_run:
  assumes "phase_inv cfg evs s" and "of_run ev" and "run_step cfg ev s = Some s'"
  shows "phase_inv cfg (evs @ [ev]) s'"
proof (cases "rs_phase s")
  case CheckingAuth
  with assms show ?thesis
    by (cases ev) (auto simp: phase_inv_def run_defs auth_passed_def metrics_auth_exit_def probes_up_def
        split: option.splits if_splits)
next
  case Serving
  with assms(1) obtain waited m where f: "filter of_run evs = [AuthWaited waited m]" and p: "auth_passed cfg evs"
    by (auto simp: phase_inv_def)
  then have "evs \<noteq> []" by auto
  with assms Serving f p show ?thesis
    by (cases ev) (auto simp: phase_inv_def run_defs auth_passed_snoc exit_code_of_def probes_up_def split: if_splits)
next
  case ShutdownSecrets
  then obtain whole where ev: "ev = ShutdownDone whole" using assms by (cases ev) (auto split: if_splits)
  have p: "auth_passed cfg evs" "length (filter of_run evs) = 2" using assms(1) ShutdownSecrets by (auto simp: phase_inv_def)
  then have "evs \<noteq> []" by auto
  with assms ShutdownSecrets ev exit_code_shutdown [OF p(1), of whole] p(2) show ?thesis
    by (auto simp: phase_inv_def run_defs auth_passed_snoc incomplete_def split: if_splits)
next
  case ShutdownMetrics
  then obtain whole where ev: "ev = ShutdownDone whole" using assms by (cases ev) (auto split: if_splits)
  have p: "auth_passed cfg evs" "length (filter of_run evs) = 3" using assms(1) ShutdownMetrics by (auto simp: phase_inv_def)
  then have ne: "evs \<noteq> []" by auto
  have secrets: "rs_open s SecretsServer \<Longrightarrow> ShutdownDone False \<in> set evs"
    using assms(1) ShutdownMetrics by (simp add: phase_inv_def incomplete_def)
  have opened: "rs_open s' srv \<Longrightarrow> incomplete (evs @ [ev])" for srv
    using assms(3) ShutdownMetrics ev secrets
    by (cases srv) (auto simp: run_defs incomplete_def split: if_splits)
  show ?thesis using assms ShutdownMetrics ev ne opened exit_code_shutdown [OF p(1), of whole] p(2)
    by (auto simp: phase_inv_def run_defs auth_passed_snoc split: if_splits)
next
  case (Returned code)
  with assms(2,3) show ?thesis by (cases ev) (simp_all split: if_splits)
qed

lemma runs_inv: "runs cfg evs s \<Longrightarrow> server_inv s \<and> phase_inv cfg evs s"
proof (induction rule: runs.induct)
  case runs_start
  then show ?case by (simp add: server_inv_def phase_inv_def run_started_def)
next
  case (runs_step evs s ev s')
  then show ?case using server_inv_step phase_inv_server phase_inv_run by blast
qed

text \<open>
  C16: the life of the gateway, in every state it reaches. No connection is served before the
  credentials of the metrics listener, where it has some, were found usable. The watchers run as
  long as a request is in flight, unless a call of \<^verbatim>\<open>Shutdown\<close> returned at its deadline with requests
  left, and then the gateway has returned 1. While requests for Secrets are in flight the metrics
  server accepts probes, unless its own \<^verbatim>\<open>Serve\<close> failed or \<^verbatim>\<open>Shutdown\<close> left requests behind. After
  a signal, or after the failure of a server was received, the gateway is not ready. Until it has
  returned, \<^verbatim>\<open>run\<close> can always go on; it does so at most four times, and the exit code is 0
  exactly when it was stopped by a signal and both calls of \<^verbatim>\<open>Shutdown\<close> were complete, and 1
  otherwise.
\<close>

theorem gateway_life:
  assumes "runs cfg evs s"
  shows "(rs_accepting s srv \<or> rs_open s srv \<or> 0 < rs_requests s srv \<longrightarrow> auth_passed cfg evs)
    \<and> (0 < rs_requests s srv \<longrightarrow> rs_background s \<or> ShutdownDone False \<in> set evs \<and> rs_phase s = Returned 1)
    \<and> (0 < rs_requests s SecretsServer \<longrightarrow> rs_accepting s MetricsServer
         \<or> ServeFails MetricsServer \<in> set evs \<or> ShutdownDone False \<in> set evs)
    \<and> (CtxDone \<in> set evs \<or> (\<exists>srv. ServeErr srv \<in> set evs) \<longrightarrow> \<not> ready (rs_shuttingDown s) m)
    \<and> (\<not> returned (rs_phase s) \<longrightarrow> (\<exists>ev s'. of_run ev \<and> run_step cfg ev s = Some s'))
    \<and> length (filter of_run evs) \<le> 4
    \<and> (\<forall>code. rs_phase s = Returned code \<longrightarrow>
         code = (if auth_passed cfg evs \<and> orderly (filter of_run evs) then 0 else 1))"
proof -
  have inv: "server_inv s" "phase_inv cfg evs s" using runs_inv [OF assms] by simp_all
  have fails: "exit_code_of evs = 1" if "ShutdownDone False \<in> set evs"
    using that orderly_whole [of "filter of_run evs"] by (auto simp: exit_code_of_def)
  have signs: "\<not> (CtxDone \<in> set evs \<or> (\<exists>srv. ServeErr srv \<in> set evs))"
    if "filter of_run evs = [AuthWaited waited m']" for waited m'
  proof -
    have "ev = AuthWaited waited m'" if "ev \<in> set evs" "of_run ev" for ev
      using that \<open>filter of_run evs = [AuthWaited waited m']\<close> by (metis (mono_tags, lifting) filter_set list.set(1,2) mem_Collect_eq set_filter singletonD)
    then show ?thesis by fastforce
  qed
  show ?thesis
  proof (cases "rs_phase s")
    case CheckingAuth
    then have "evs = []" "s = run_started" using inv(2) by (auto simp: phase_inv_def)
    then show ?thesis by (auto simp: run_started_def intro!: exI [of _ "AuthWaited WaitOk m"] split: option.splits)
  next
    case Serving
    then have "\<exists>ev s'. of_run ev \<and> run_step cfg ev s = Some s'" by (intro exI [of _ CtxDone]) simp
    with Serving inv(2) signs show ?thesis by (auto simp: phase_inv_def probes_up_def)
  next
    case ShutdownSecrets
    then have "\<exists>ev s'. of_run ev \<and> run_step cfg ev s = Some s'"
      by (intro exI [of _ "ShutdownDone False"]) (simp add: note_shutdown_def)
    with ShutdownSecrets inv(2) show ?thesis by (auto simp: phase_inv_def probes_up_def ready_def)
  next
    case ShutdownMetrics
    then have "\<exists>ev s'. of_run ev \<and> run_step cfg ev s = Some s'"
      by (intro exI [of _ "ShutdownDone False"]) (simp add: note_shutdown_def)
    with ShutdownMetrics inv show ?thesis by (auto simp: phase_inv_def server_inv_def ready_def incomplete_def)
  next
    case (Returned code)
    with inv fails show ?thesis
      by (auto simp: phase_inv_def server_inv_def ready_def incomplete_def exit_code_of_def)
  qed
qed

section \<open>Examples\<close>

text \<open>Validators that keep to the documented lengths too, and an environment in which the gateway starts.\<close>

definition ex_names :: k8s_validation where
  "ex_names = \<lparr>IsDNS1123Subdomain = (\<lambda>s. if length s \<le> 253 then IsDNS1123Subdomain ex_V s else [''too long'']),
     IsDNS1123Label = (\<lambda>s. if length s \<le> 63 then IsDNS1123Label ex_V s else [''too long'']),
     IsConfigMapKey = IsConfigMapKey ex_V\<rparr>"

interpretation ex_names: k8s_names ex_names
  by unfold_locales (auto simp: ex_names_def ex_V_def split: if_splits)

definition ex_gateway_env :: "(bytes \<times> bytes, unit) gateway_env" where
  "ex_gateway_env = \<lparr>ge_parse = (\<lambda>args. Some (\<lparr>gf_config = ''config.yaml'', gf_kubeconfig = [], gf_logLevel = ''info'', gf_logFormat = ''json''\<rparr>, args)),
     ge_V = ex_names, ge_first = (\<lambda>_. Decoded ex_document), ge_second = (\<lambda>_. EndOfInput), ge_readFile = (\<lambda>_. Inr []),
     ge_files = Map.empty, ge_X509KeyPair = (\<lambda>c k. Some (c, k)), ge_version = ''dev'',
     ge_ClientConfig = (\<lambda>_. Inr \<lparr>rc_UserAgent = [], rc_QPS = 5, rc_Burst = 10\<rparr>), ge_NewForConfig = (\<lambda>_. Inr ()),
     ge_register = True, ge_listen = (\<lambda>open addr. addr \<notin> set open)\<rparr>"

definition ex_config :: Config where
  "ex_config = \<lparr>cfg_Server = \<lparr>srv_ListenAddress = DefaultListenAddress, srv_TLS = None, srv_TrustedProxies = []\<rparr>,
     cfg_Metrics = \<lparr>met_ListenAddress = DefaultMetricsListenAddress, met_TLS = None, met_Auth = None\<rparr>,
     cfg_ReconcileInterval = 5 * minute, cfg_Exposures = [ex_exposure]\<rparr>"

lemma ex_loads:
  "Load ex_names (\<lambda>_. Decoded ex_document) (\<lambda>_. EndOfInput) (\<lambda>_. Inr []) ''config.yaml'' = Inr ex_config"
  by (simp add: Load_def Parse_def resolve_def ex_document_def ex_names_def ex_V_def v_listenAddress_def v_tls_def v_prefixes_def
      v_secretRef_def v_auth_def v_keys_def exposure_resolve_def listenersConflict_def isWildcardHost_def
      parseReconcileInterval_def ParseDuration_examples MinReconcileInterval_def MaxReconcileInterval_def
      DefaultListenAddress_def DefaultMetricsListenAddress_def SplitHostPort_def ParsePrefix_def
      ValidateName_def ValidateSecretName_def ValidateNamespace_def ValidateKey_def validationErr_def subdomain_char_def
      label_char_def key_char_def minute_def second_def hour_def mask_eq_exp_minus_1 eval_simps Let_def ex_config_def ex_exposure_def)

lemma ex_config_ok: "config_ok ex_names ex_config"
  by (rule Load_config_ok [OF ex_loads])

definition ex_gateway :: "(bytes \<times> bytes) gateway" where
  "ex_gateway = \<lparr>gs_cfg = ex_config, gs_secretsTLS = None, gs_metricsTLS = None,
     gs_manager = booted (gateway_refs ex_config) (manager_options ex_config), gs_metrics = Metrics_New [ex_exposure]\<rparr>"

lemma ex_level: "parseLevel ''info'' = Some slog_LevelInfo"
  by code_simp

lemma ex_starts: "gateway_start ex_gateway_env [] = Inr ex_gateway"
proof -
  let ?flags = "\<lparr>gf_config = ''config.yaml'', gf_kubeconfig = [], gf_logLevel = ''info'', gf_logFormat = ''json''\<rparr>"
  have usage: "usage_ok ex_gateway_env [] ?flags" using ex_level by (simp add: usage_ok_def ex_gateway_env_def)
  have tls: "srv_TLS (cfg_Server ex_config) = None" "met_TLS (cfg_Metrics ex_config) = None"
    and exposures: "cfg_Exposures ex_config = [ex_exposure]"
    and listen: "ge_listen ex_gateway_env [] (srv_ListenAddress (cfg_Server ex_config))"
      "ge_listen ex_gateway_env [srv_ListenAddress (cfg_Server ex_config)] (met_ListenAddress (cfg_Metrics ex_config))"
    by (simp_all add: ex_config_def ex_gateway_env_def DefaultListenAddress_def DefaultMetricsListenAddress_def)
  have "kube_clientset ex_gateway_env ?flags" "ge_register ex_gateway_env"
    by (simp_all add: kube_clientset_def RESTConfig_def NewClientset_def ex_gateway_env_def)
  with tls exposures listen have "gateway_build ex_gateway_env ?flags ex_config = Some ex_gateway"
    by (simp add: gateway_build_def loadTLS_def secretsHandler_ok [OF ex_config_ok] metrics_handler_ok Let_def booted_def
        ex_gateway_def)
  with ex_loads show ?thesis
    unfolding gateway_start_usage(1) [OF usage] by (simp add: ex_gateway_env_def)
qed

theorem gateway_requests_exact_witness:
  "gateway_start ex_gateway_env [] = Inr ex_gateway \<and> steps (gs_manager ex_gateway) [] (gs_manager ex_gateway)
   \<and> m_go (gs_manager ex_gateway) (SecretRef ''ns'' ''db'') \<noteq> None
   \<and> m_go (gs_manager ex_gateway) (SecretRef ''ns'' ''other'') = None
   \<and> GetSecret (SecretRef ''ns'' ''db'') = Inr (KubeGet ''ns'' ''db'')"
proof -
  have steps: "steps (gs_manager ex_gateway) [] (gs_manager ex_gateway)" by simp
  have "mentioned (gs_cfg ex_gateway) (SecretRef ''ns'' ''db'')" "\<not> mentioned (gs_cfg ex_gateway) (SecretRef ''ns'' ''other'')"
    by (simp_all add: ex_gateway_def ex_config_def mentioned_def ex_exposure_def)
  then show ?thesis
    using ex_starts steps gateway_requests_exact [OF ex_starts steps, of "SecretRef ''ns'' ''db''"]
      gateway_requests_exact [OF ex_starts steps, of "SecretRef ''ns'' ''other''"]
    by (auto simp: GetSecret_def checkRef_def)
qed

theorem gateway_answers_witness:
  "\<exists>h w. secretsHandler (gs_cfg ex_gateway) (gs_manager ex_gateway) = Inr h \<and> response ex_names h (ex_login ''p'') = Some w
     \<and> rw_status w = 503"
proof -
  have m: "steps (gs_manager ex_gateway) [] (gs_manager ex_gateway)" by simp
  have cfg: "gs_cfg ex_gateway = ex_config" "ge_V ex_gateway_env = ex_names" "cfg_Exposures ex_config = [ex_exposure]"
    by (simp_all add: ex_gateway_def ex_config_def ex_gateway_env_def)
  let ?h = "handler_of ex_config (gs_manager ex_gateway)"
  have h: "secretsHandler (gs_cfg ex_gateway) (gs_manager ex_gateway) = Inr ?h"
    using secretsHandler_ok [OF ex_config_ok] cfg by simp
  have "parseRoute ex_names ''/exposures/app'' = Some ''app''"
    using ex_parseRoute by (simp add: parseRoute_def exposuresPrefix_def CutPrefix_def HasPrefix_def ValidateName_def ex_names_def split: if_splits)
  moreover have "h_exposures ?h ''app'' = Some ex_exposure"
    unfolding handler_of_exposures [OF ex_config_ok] by (simp add: cfg) (simp add: ex_exposure_def)
  moreover have "h_clientIP ?h = Resolver []" by (simp add: handler_of_def ex_config_def NewResolver_def)
  ultimately have admitted: "admitted ex_names ?h (ex_login ''p'') ex_exposure"
    by (simp add: admitted_def AllowsClient_def) (simp add: ex_exposure_def)
  have "\<not> usable_credentials (api_secrets []) ex_exposure"
    by (simp add: usable_credentials_def api_secrets_def observed_def inputs_of_def zero_Secret_def)
  moreover have "k8s_names (ge_V ex_gateway_env)" unfolding cfg by (rule ex_names.k8s_names_axioms)
  from gateway_answers [OF ex_starts this m h, of "ex_login ''p''"] admitted
  obtain w where "response ex_names ?h (ex_login ''p'') = Some w" "served_status (api_secrets []) ex_exposure (ex_login ''p'') (rw_status w)"
    unfolding cfg by (auto split: if_splits)
  ultimately show ?thesis using h by (auto simp: served_status_def)
qed

text \<open>
  One request for a Secret is in flight when the signal arrives. In the first run it ends before
  \<^verbatim>\<open>Shutdown\<close> returns; in the second it does not end before the deadline.
\<close>

definition ex_drained :: "run_event list" where
  "ex_drained = [AuthWaited WaitOk (gs_manager ex_gateway), RequestBegins SecretsServer, CtxDone,
     RequestEnds SecretsServer, ShutdownDone True, ShutdownDone True]"

definition ex_cut_off :: "run_event list" where
  "ex_cut_off = [AuthWaited WaitOk (gs_manager ex_gateway), RequestBegins SecretsServer, CtxDone,
     ShutdownDone False, ShutdownDone True]"

fun run_steps :: "Config \<Rightarrow> run_event list \<Rightarrow> run_state \<Rightarrow> run_state option" where
  "run_steps cfg [] s = Some s"
| "run_steps cfg (ev # evs) s = (case run_step cfg ev s of None \<Rightarrow> None | Some s' \<Rightarrow> run_steps cfg evs s')"

lemma runs_run_steps:
  "runs cfg evs s \<Longrightarrow> run_steps cfg evs' s = Some s' \<Longrightarrow> runs cfg (evs @ evs') s'"
proof (induction evs' arbitrary: evs s)
  case (Cons ev evs')
  then obtain s1 where "run_step cfg ev s = Some s1" "run_steps cfg evs' s1 = Some s'" by (auto split: option.splits)
  with Cons.IH [OF runs_step [OF Cons.prems(1)]] show ?case by simp
qed simp

lemma ex_no_metrics_auth: "metrics_auth_exit WaitOk m ex_config = None"
  by (simp add: metrics_auth_exit_def ex_config_def)

lemma ex_run_steps:
  "\<exists>s. run_steps ex_config ex_drained run_started = Some s \<and> rs_phase s = Returned 0"
  "\<exists>s. run_steps ex_config ex_cut_off run_started = Some s \<and> rs_requests s SecretsServer = 1 \<and> \<not> rs_background s"
  by (simp_all add: ex_drained_def ex_cut_off_def ex_no_metrics_auth run_defs)

theorem gateway_life_witness:
  "(\<exists>s. runs ex_config ex_drained s \<and> rs_phase s = Returned 0 \<and> \<not> ready (rs_shuttingDown s) (gs_manager ex_gateway))
   \<and> (\<exists>s. runs ex_config ex_cut_off s \<and> rs_requests s SecretsServer = 1 \<and> rs_phase s = Returned 1)"
proof -
  obtain s where s: "run_steps ex_config ex_drained run_started = Some s" "rs_phase s = Returned 0"
    using ex_run_steps(1) by blast
  have "runs ex_config ex_drained s" using runs_run_steps [OF runs_start s(1)] by simp
  moreover from gateway_life [OF this, of SecretsServer "gs_manager ex_gateway"]
  have "\<not> ready (rs_shuttingDown s) (gs_manager ex_gateway)" by (simp add: ex_drained_def)
  moreover obtain s' where s': "run_steps ex_config ex_cut_off run_started = Some s'"
      "rs_requests s' SecretsServer = 1" "\<not> rs_background s'"
    using ex_run_steps(2) by blast
  have cut: "runs ex_config ex_cut_off s'" using runs_run_steps [OF runs_start s'(1)] by simp
  have "rs_phase s' = Returned 1" using gateway_life [OF cut, of SecretsServer] s'(2,3) by simp
  ultimately show ?thesis using s(2) s'(2) cut by blast
qed

end
