(* ===== verification/Kubetest.thy ===== *)
theory Kubetest
  imports Manager Go_Case
begin

text \<open>
  \<^verbatim>\<open>gateway/internal/kubernetes/kubetest/fake.go\<close>: the in-memory Kubernetes API that the gateway's
  tests run against, and the resource manager connected to it.

  Watches are objects shared between the API and its clients, so they live in a heap and are named by
  their index. A channel is the list of its buffered events. Deep copies are not modelled, since no
  value here is changed in place. \<^verbatim>\<open>strconv.ParseInt\<close> with base 10 and 64 bits is \<open>Atoi\<close>.

  A change takes the lock, then releases it and sends its event to one watch after the other. The
  second part may be interleaved with everything else, so a system here has a list of events being
  sent.
\<close>

section \<open>Watches\<close>

record fakeWatch =
  fw_ch :: "Event list"
  fw_stopped :: bool
  fw_closed :: bool

definition fw_capacity :: nat where
  "fw_capacity = 128"

definition newFakeWatch :: fakeWatch where
  "newFakeWatch = \<lparr>fw_ch = [], fw_stopped = False, fw_closed = False\<rparr>"

definition fw_Stop :: "fakeWatch \<Rightarrow> fakeWatch" where
  "fw_Stop w = w\<lparr>fw_stopped := True\<rparr>"

text \<open>
  \<^verbatim>\<open>send\<close>: where both cases of the \<^verbatim>\<open>select\<close> are ready, \<open>lost\<close> says which one is taken;
  \<^const>\<open>None\<close> is a sender that waits.
\<close>

definition fw_send :: "bool \<Rightarrow> Event \<Rightarrow> fakeWatch \<Rightarrow> fakeWatch option" where
  "fw_send lost ev w =
     (if fw_closed w then Some w
      else if fw_stopped w \<and> lost then Some w
      else if length (fw_ch w) < fw_capacity then Some (w\<lparr>fw_ch := fw_ch w @ [ev]\<rparr>)
      else None)"

definition closeResults :: "fakeWatch \<Rightarrow> fakeWatch" where
  "closeResults w = (if \<not> fw_closed w then w\<lparr>fw_closed := True\<rparr> else w)"

definition fw_open :: "fakeWatch \<Rightarrow> bool" where
  "fw_open w \<longleftrightarrow> (if fw_stopped w then False else \<not> fw_closed w)"

section \<open>The API\<close>

datatype Verb = List | Watch | Get

record Call =
  call_Verb :: Verb
  call_Ref :: SecretRef
  call_ResourceVersion :: string

record historyEntry =
  he_ref :: SecretRef
  he_rv :: int
  he_ev :: Event

record FakeAPI =
  fk_rv :: int
  fk_secrets :: "SecretRef \<rightharpoonup> k8s_Secret"
  fk_watches :: "SecretRef \<Rightarrow> nat list"
  fk_history :: "historyEntry list"
  fk_errs :: "Verb \<Rightarrow> SecretRef \<rightharpoonup> api_error"
  fk_overrides :: "SecretRef \<rightharpoonup> SecretList"
  fk_calls :: "Call list"
  fk_heap :: "fakeWatch list"

definition fk_New :: FakeAPI where
  "fk_New = \<lparr>fk_rv = 100, fk_secrets = Map.empty, fk_watches = (\<lambda>_. []), fk_history = [],
     fk_errs = (\<lambda>_. Map.empty), fk_overrides = Map.empty, fk_calls = [], fk_heap = []\<rparr>"

definition note_call :: "Verb \<Rightarrow> SecretRef \<Rightarrow> string \<Rightarrow> FakeAPI \<Rightarrow> FakeAPI" where
  "note_call verb ref rv f = f\<lparr>fk_calls := fk_calls f @ [\<lparr>call_Verb = verb, call_Ref = ref, call_ResourceVersion = rv\<rparr>]\<rparr>"

definition fk_ListSecret :: "SecretRef \<Rightarrow> FakeAPI \<Rightarrow> (api_error + SecretList) \<times> FakeAPI" where
  "fk_ListSecret ref f0 =
     (let f = note_call List ref [] f0 in
      case fk_errs f List ref of
        Some err \<Rightarrow> (Inl err, f)
      | None \<Rightarrow> (case fk_overrides f ref of
          Some l \<Rightarrow> (Inr l, f)
        | None \<Rightarrow> (Inr \<lparr>l_Items = (case fk_secrets f ref of None \<Rightarrow> [] | Some s \<Rightarrow> [s]),
                        l_ResourceVersion = int_string (fk_rv f)\<rparr>, f)))"

text \<open>The loop over the history; \<^const>\<open>None\<close> is its panic.\<close>

fun replay_history :: "historyEntry list \<Rightarrow> SecretRef \<Rightarrow> int \<Rightarrow> fakeWatch \<Rightarrow> fakeWatch option" where
  "replay_history [] ref from w = Some w"
| "replay_history (h # hs) ref from w =
     (if he_ref h = ref \<and> from < he_rv h
      then if length (fw_ch w) < fw_capacity then replay_history hs ref from (w\<lparr>fw_ch := fw_ch w @ [he_ev h]\<rparr>) else None
      else replay_history hs ref from w)"

definition fk_WatchSecret :: "SecretRef \<Rightarrow> string \<Rightarrow> FakeAPI \<Rightarrow> (api_error, nat) call \<times> FakeAPI" where
  "fk_WatchSecret ref resourceVersion f0 =
     (let f = note_call Watch ref resourceVersion f0 in
      case fk_errs f Watch ref of
        Some err \<Rightarrow> (Fails err, f)
      | None \<Rightarrow>
        let from = (case Atoi resourceVersion of Some n \<Rightarrow> n | None \<Rightarrow> fk_rv f) in
        (case replay_history (fk_history f) ref from newFakeWatch of
           None \<Rightarrow> (Panics, f)
         | Some w \<Rightarrow> (Returns (length (fk_heap f)), f\<lparr>fk_heap := fk_heap f @ [w],
             fk_watches := (fk_watches f)(ref := filter (\<lambda>a. fw_open (fk_heap f ! a)) (fk_watches f ref) @ [length (fk_heap f)])\<rparr>)))"

definition fk_GetSecret :: "(string \<Rightarrow> api_error) \<Rightarrow> SecretRef \<Rightarrow> FakeAPI \<Rightarrow> (api_error + k8s_Secret) \<times> FakeAPI" where
  "fk_GetSecret NewNotFound ref f0 =
     (let f = note_call Get ref [] f0 in
      case fk_errs f Get ref of
        Some err \<Rightarrow> (Inl err, f)
      | None \<Rightarrow> (case fk_secrets f ref of
          None \<Rightarrow> (Inl (NewNotFound (Name ref)), f)
        | Some s \<Rightarrow> (Inr s, f)))"

text \<open>\<^verbatim>\<open>record\<close>: the watches that are to get the event.\<close>

definition fk_record :: "SecretRef \<Rightarrow> int \<Rightarrow> Event \<Rightarrow> bool \<Rightarrow> FakeAPI \<Rightarrow> nat list \<times> FakeAPI" where
  "fk_record ref rv ev notify f =
     (if \<not> notify then ([], f)
      else (fk_watches f ref, f\<lparr>fk_history := fk_history f @ [\<lparr>he_ref = ref, he_rv = rv, he_ev = ev\<rparr>]\<rparr>))"

text \<open>\<^verbatim>\<open>apply\<close> and \<^verbatim>\<open>delete\<close> under the lock: what remains to be sent to whom, and the new state.\<close>

definition fk_apply :: "SecretRef \<Rightarrow> (string \<rightharpoonup> bytes) \<Rightarrow> bool \<Rightarrow> FakeAPI \<Rightarrow> (nat list \<times> Event) \<times> FakeAPI" where
  "fk_apply ref data notify f =
     (let rv = wrap64 (fk_rv f + 1);
          (evType, uid) = (case fk_secrets f ref of
              Some existing \<Rightarrow> (Modified, s_UID existing)
            | None \<Rightarrow> (Added, ''uid-'' @ int_string rv));
          s = \<lparr>s_Namespace = Namespace ref, s_Name = Name ref, s_ResourceVersion = int_string rv, s_UID = uid, s_Data = data\<rparr>;
          ev = \<lparr>ev_Type = evType, ev_Object = SecretObject s\<rparr>;
          (targets, f') = fk_record ref rv ev notify (f\<lparr>fk_rv := rv, fk_secrets := (fk_secrets f)(ref \<mapsto> s)\<rparr>)
      in ((targets, ev), f'))"

definition fk_delete :: "SecretRef \<Rightarrow> bool \<Rightarrow> FakeAPI \<Rightarrow> ((nat list \<times> Event) \<times> FakeAPI) option" where
  "fk_delete ref notify f = (case fk_secrets f ref of
      None \<Rightarrow> None
    | Some existing \<Rightarrow>
      (let rv = wrap64 (fk_rv f + 1);
           ev = \<lparr>ev_Type = Deleted, ev_Object = SecretObject (existing\<lparr>s_ResourceVersion := int_string rv\<rparr>)\<rparr>;
           (targets, f') = fk_record ref rv ev notify (f\<lparr>fk_rv := rv, fk_secrets := (fk_secrets f)(ref := None)\<rparr>)
       in Some ((targets, ev), f')))"

definition Apply :: "SecretRef \<Rightarrow> (string \<rightharpoonup> bytes) \<Rightarrow> FakeAPI \<Rightarrow> (nat list \<times> Event) \<times> FakeAPI" where
  "Apply ref data = fk_apply ref data True"

definition ApplySilently :: "SecretRef \<Rightarrow> (string \<rightharpoonup> bytes) \<Rightarrow> FakeAPI \<Rightarrow> (nat list \<times> Event) \<times> FakeAPI" where
  "ApplySilently ref data = fk_apply ref data False"

definition Delete :: "SecretRef \<Rightarrow> FakeAPI \<Rightarrow> ((nat list \<times> Event) \<times> FakeAPI) option" where
  "Delete ref = fk_delete ref True"

definition DeleteSilently :: "SecretRef \<Rightarrow> FakeAPI \<Rightarrow> ((nat list \<times> Event) \<times> FakeAPI) option" where
  "DeleteSilently ref = fk_delete ref False"

text \<open>\<^verbatim>\<open>SendEvent\<close> up to the sending.\<close>

definition fk_SendEvent :: "SecretRef \<Rightarrow> Event \<Rightarrow> FakeAPI \<Rightarrow> nat list \<times> Event" where
  "fk_SendEvent ref ev f = (fk_watches f ref, ev)"

definition on_watch :: "nat \<Rightarrow> (fakeWatch \<Rightarrow> fakeWatch) \<Rightarrow> FakeAPI \<Rightarrow> FakeAPI" where
  "on_watch a g f = f\<lparr>fk_heap := (fk_heap f)[a := g (fk_heap f ! a)]\<rparr>"

definition CloseWatches :: "SecretRef \<Rightarrow> FakeAPI \<Rightarrow> FakeAPI" where
  "CloseWatches ref f = fold (\<lambda>a. on_watch a closeResults) (fk_watches f ref) (f\<lparr>fk_watches := (fk_watches f)(ref := [])\<rparr>)"

definition SetError :: "Verb \<Rightarrow> SecretRef \<Rightarrow> api_error option \<Rightarrow> FakeAPI \<Rightarrow> FakeAPI" where
  "SetError verb ref err f = f\<lparr>fk_errs := (fk_errs f)(verb := (fk_errs f verb)(ref := err))\<rparr>"

definition SetListResult :: "SecretRef \<Rightarrow> SecretList option \<Rightarrow> FakeAPI \<Rightarrow> FakeAPI" where
  "SetListResult ref l f = f\<lparr>fk_overrides := (fk_overrides f)(ref := l)\<rparr>"

definition Calls :: "FakeAPI \<Rightarrow> Call list" where
  "Calls f = fk_calls f"

definition CallCount :: "Verb \<Rightarrow> SecretRef \<Rightarrow> FakeAPI \<Rightarrow> nat" where
  "CallCount verb ref f = fold (\<lambda>c n. if call_Verb c = verb \<and> call_Ref c = ref then n + 1 else n) (fk_calls f) 0"

definition TotalCalls :: "FakeAPI \<Rightarrow> nat" where
  "TotalCalls f = length (fk_calls f)"

definition OpenWatches :: "SecretRef \<Rightarrow> FakeAPI \<Rightarrow> nat" where
  "OpenWatches ref f = fold (\<lambda>a n. if fw_open (fk_heap f ! a) then n + 1 else n) (fk_watches f ref) 0"

section \<open>The manager on this API\<close>

record fake_sys =
  sy_api :: FakeAPI
  sy_sends :: "(nat list \<times> Event) list"
  sy_manager :: Manager
  sy_watch :: "SecretRef \<rightharpoonup> nat"

text \<open>
  What can happen: a test changes a Secret, with or without an event, an event reaches the next of its
  watches, a test sends an event of its own, closes watches or injects errors and lists; a
  goroutine of the manager calls the API, receives from its watch, finds it closed, or does a step
  without the API.
\<close>

datatype fake_action =
    DoApply SecretRef "string \<rightharpoonup> bytes" bool
  | DoDelete SecretRef bool
  | DoDeliver nat bool
  | DoSendEvent SecretRef Event
  | DoCloseWatches SecretRef
  | DoSetError Verb SecretRef "api_error option"
  | DoSetListResult SecretRef "SecretList option"
  | GoList SecretRef bool int int
  | GoWatch SecretRef bool nat nat int
  | GoGet SecretRef bool nat int
  | GoEvent SecretRef int
  | GoClosed SecretRef int
  | GoOther SecretRef input

definition ctrl_of :: "SecretRef \<Rightarrow> Manager \<Rightarrow> ctrl option" where
  "ctrl_of ref m = map_option g_ctrl (m_go m ref)"

text \<open>A step of a goroutine on the system; one that leaves \<^verbatim>\<open>watch\<close> stops its watch.\<close>

definition manager_step :: "SecretRef \<Rightarrow> input \<Rightarrow> fake_sys \<Rightarrow> fake_sys option" where
  "manager_step ref inp st = (case go_step ref inp (sy_manager st) of
      None \<Rightarrow> None
    | Some m \<Rightarrow> Some (if ctrl_of ref m = Some Watching then st\<lparr>sy_manager := m\<rparr>
        else (case sy_watch st ref of
            None \<Rightarrow> st\<lparr>sy_manager := m\<rparr>
          | Some a \<Rightarrow> st\<lparr>sy_manager := m, sy_api := on_watch a fw_Stop (sy_api st), sy_watch := (sy_watch st)(ref := None)\<rparr>)))"

definition enqueue_send :: "nat list \<times> Event \<Rightarrow> fake_sys \<Rightarrow> fake_sys" where
  "enqueue_send send st = (if fst send = [] then st else st\<lparr>sy_sends := sy_sends st @ [send]\<rparr>)"

text \<open>One round of the loop in \<^verbatim>\<open>deliver\<close>.\<close>

definition deliver_next :: "nat \<Rightarrow> bool \<Rightarrow> fake_sys \<Rightarrow> fake_sys option" where
  "deliver_next i lost st =
     (if length (sy_sends st) \<le> i then None
      else case sy_sends st ! i of
          ([], ev) \<Rightarrow> None
        | (a # rest, ev) \<Rightarrow> (case fw_send lost ev (fk_heap (sy_api st) ! a) of
            None \<Rightarrow> None
          | Some w \<Rightarrow> Some (st\<lparr>sy_api := on_watch a (\<lambda>_. w) (sy_api st),
              sy_sends := take i (sy_sends st) @ (if rest = [] then [] else [(rest, ev)]) @ drop (Suc i) (sy_sends st)\<rparr>)))"

definition call_of :: "'e + 'a \<Rightarrow> ('e, 'a option) call" where
  "call_of x = (case x of Inl e \<Rightarrow> Fails e | Inr v \<Rightarrow> Returns (Some v))"

fun without_api :: "input \<Rightarrow> bool" where
  "without_api (CtxCheck c) = True"
| "without_api (WatchDeadline now) = True"
| "without_api (AfterCycle c e) = True"
| "without_api TimerFired = True"
| "without_api SleepCancelled = True"
| "without_api _ = False"

definition go_list :: "SecretRef \<Rightarrow> bool \<Rightarrow> int \<Rightarrow> int \<Rightarrow> fake_sys \<Rightarrow> fake_sys option" where
  "go_list ref cancelled now start st = (case fk_ListSecret ref (sy_api st) of
     (answer, f) \<Rightarrow> manager_step ref (ListAnswer (call_of answer) cancelled now start) (st\<lparr>sy_api := f\<rparr>))"

definition go_watch :: "SecretRef \<Rightarrow> bool \<Rightarrow> nat \<Rightarrow> nat \<Rightarrow> int \<Rightarrow> fake_sys \<Rightarrow> fake_sys option" where
  "go_watch ref cancelled e1 e2 now st = (case ctrl_of ref (sy_manager st) of
      Some (Opening rv) \<Rightarrow> (case fk_WatchSecret ref rv (sy_api st) of
          (Returns a, f) \<Rightarrow> manager_step ref (WatchAnswer (Returns True) cancelled e1 e2 now)
            (st\<lparr>sy_api := f, sy_watch := (sy_watch st)(ref \<mapsto> a)\<rparr>)
        | (Fails err, f) \<Rightarrow> manager_step ref (WatchAnswer (Fails err) cancelled e1 e2 now) (st\<lparr>sy_api := f\<rparr>)
        | (Panics, f) \<Rightarrow> manager_step ref (WatchAnswer Panics cancelled e1 e2 now) (st\<lparr>sy_api := f\<rparr>))
    | _ \<Rightarrow> None)"

definition go_get :: "(string \<Rightarrow> api_error) \<Rightarrow> SecretRef \<Rightarrow> bool \<Rightarrow> nat \<Rightarrow> int \<Rightarrow> fake_sys \<Rightarrow> fake_sys option" where
  "go_get NewNotFound ref cancelled e now st = (case fk_GetSecret NewNotFound ref (sy_api st) of
     (answer, f) \<Rightarrow> manager_step ref (ReconcileAnswer (call_of answer) cancelled e now) (st\<lparr>sy_api := f\<rparr>))"

definition go_event :: "SecretRef \<Rightarrow> int \<Rightarrow> fake_sys \<Rightarrow> fake_sys option" where
  "go_event ref now st = (case sy_watch st ref of
      None \<Rightarrow> None
    | Some a \<Rightarrow> (case fw_ch (fk_heap (sy_api st) ! a) of
        [] \<Rightarrow> None
      | ev # rest \<Rightarrow> manager_step ref (WatchEvent ev now) (st\<lparr>sy_api := on_watch a (fw_ch_update (\<lambda>_. rest)) (sy_api st)\<rparr>)))"

definition go_closed :: "SecretRef \<Rightarrow> int \<Rightarrow> fake_sys \<Rightarrow> fake_sys option" where
  "go_closed ref now st = (case sy_watch st ref of
      None \<Rightarrow> None
    | Some a \<Rightarrow> if fw_closed (fk_heap (sy_api st) ! a) \<and> fw_ch (fk_heap (sy_api st) ! a) = []
        then manager_step ref (WatchClosed now) st else None)"

text \<open>The flag \<open>one\<close> says that all changes are made by one goroutine, which sends each event before the next change.\<close>

fun fake_step :: "(string \<Rightarrow> api_error) \<Rightarrow> bool \<Rightarrow> fake_action \<Rightarrow> fake_sys \<Rightarrow> fake_sys option" where
  "fake_step nf one (DoApply ref data notify) st =
     (if one \<and> sy_sends st \<noteq> [] then None
      else case (if notify then Apply ref data else ApplySilently ref data) (sy_api st) of (send, f) \<Rightarrow> Some (enqueue_send send (st\<lparr>sy_api := f\<rparr>)))"
| "fake_step nf one (DoDelete ref notify) st =
     (if one \<and> sy_sends st \<noteq> [] then None
      else case (if notify then Delete ref else DeleteSilently ref) (sy_api st) of
          None \<Rightarrow> Some st
        | Some (send, f) \<Rightarrow> Some (enqueue_send send (st\<lparr>sy_api := f\<rparr>)))"
| "fake_step nf one (DoDeliver i lost) st = deliver_next i lost st"
| "fake_step nf one (DoSendEvent ref ev) st =
     (if one \<and> sy_sends st \<noteq> [] then None else Some (enqueue_send (fk_SendEvent ref ev (sy_api st)) st))"
| "fake_step nf one (DoCloseWatches ref) st = Some (st\<lparr>sy_api := CloseWatches ref (sy_api st)\<rparr>)"
| "fake_step nf one (DoSetError verb ref err) st = Some (st\<lparr>sy_api := SetError verb ref err (sy_api st)\<rparr>)"
| "fake_step nf one (DoSetListResult ref l) st = Some (st\<lparr>sy_api := SetListResult ref l (sy_api st)\<rparr>)"
| "fake_step nf one (GoList ref c now start) st = go_list ref c now start st"
| "fake_step nf one (GoWatch ref c e1 e2 now) st = go_watch ref c e1 e2 now st"
| "fake_step nf one (GoGet ref c e now) st = go_get nf ref c e now st"
| "fake_step nf one (GoEvent ref now) st = go_event ref now st"
| "fake_step nf one (GoClosed ref now) st = go_closed ref now st"
| "fake_step nf one (GoOther ref inp) st = (if without_api inp then manager_step ref inp st else None)"

fun fake_run :: "(string \<Rightarrow> api_error) \<Rightarrow> bool \<Rightarrow> fake_action list \<Rightarrow> fake_sys \<Rightarrow> fake_sys option" where
  "fake_run nf one [] st = Some st"
| "fake_run nf one (act # acts) st = (case fake_step nf one act st of None \<Rightarrow> None | Some st' \<Rightarrow> fake_run nf one acts st')"

definition fake_start :: "SecretRef list \<Rightarrow> Options \<Rightarrow> fake_sys" where
  "fake_start refs opts = \<lparr>sy_api = fk_New, sy_sends = [], sy_manager = Start (NewManager refs opts), sy_watch = Map.empty\<rparr>"

section \<open>What an event means\<close>

definition wf_event :: "SecretRef \<Rightarrow> Event \<Rightarrow> bool" where
  "wf_event ref ev \<longleftrightarrow> ev_Type ev \<in> {Added, Modified, Deleted}
     \<and> (case ev_Object ev of SecretObject obj \<Rightarrow> names_ref ref obj | _ \<Rightarrow> False)"

definition effect :: "Event \<Rightarrow> Secret" where
  "effect ev = (case ev_Object ev of
      SecretObject obj \<Rightarrow> snapshot_of (if ev_Type ev = Deleted then None else Some obj)
    | _ \<Rightarrow> zero_Secret)"

lemma observe_wf_event [simp]: "wf_event ref ev \<Longrightarrow> observe ref (WatchEvent ev now) s = effect ev"
  by (auto simp: wf_event_def effect_def split: api_object.splits)

text \<open>The events that are still to come turn the snapshot into the Secret.\<close>

definition leads_to :: "Event list \<Rightarrow> Secret \<Rightarrow> Secret \<Rightarrow> bool" where
  "leads_to evs s s' \<longleftrightarrow> (if evs = [] then s else effect (last evs)) = s'"

lemma leads_to_simps [simp]:
  "leads_to [] s s' \<longleftrightarrow> s = s'" "leads_to (evs @ [ev]) s s' \<longleftrightarrow> effect ev = s'"
  by (simp_all add: leads_to_def)

lemma leads_to_Cons: "leads_to (ev # evs) s s' \<longleftrightarrow> leads_to evs (effect ev) s'"
  by (simp add: leads_to_def)

lemma leads_to_any: "leads_to evs s s' \<Longrightarrow> (evs = [] \<Longrightarrow> t = s') \<Longrightarrow> leads_to evs t s'"
  by (auto simp: leads_to_def)

lemma leads_to_observe:
  "list_all (wf_event ref) evs \<Longrightarrow> leads_to evs s s' \<longleftrightarrow> fold (\<lambda>ev. observe ref (WatchEvent ev 0)) evs s = s'"
proof (induction evs arbitrary: s)
  case (Cons ev evs)
  then have "observe ref (WatchEvent ev 0) s = effect ev" by (simp del: observe.simps)
  with Cons show ?case by (simp add: leads_to_Cons del: observe.simps)
qed simp

section \<open>The manager's steps\<close>

definition manager_ok :: "Manager \<Rightarrow> bool" where
  "manager_ok m \<longleftrightarrow> (\<exists>opts refs tr. run_ok opts refs tr m \<and> opts_ok (withDefaults opts))"

lemma manager_ok_step: "manager_ok m \<Longrightarrow> go_step ref inp m = Some m' \<Longrightarrow> manager_ok m'"
  unfolding manager_ok_def using go_step_run_ok by blast

lemma manager_ok_parts:
  assumes "manager_ok m"
  shows "mgr_inv m" "goroutines_ok m" "opts_ok (m_opts m)"
  using assms by (auto simp: manager_ok_def run_ok_def)

lemma go_step_secret:
  assumes "manager_ok m" and "go_step ref inp m = Some m'"
  shows "Manager_Secret m' ref = observe ref inp (Manager_Secret m ref)"
    and "x \<noteq> ref \<Longrightarrow> Manager_Secret m' x = Manager_Secret m x"
    and "x \<noteq> ref \<Longrightarrow> ctrl_of x m' = ctrl_of x m"
proof -
  obtain g r g' r' where "m_resources m ref = Some r" "located ref g' r' m m'" "r_secret r' = observe ref inp (r_secret r)"
    using go_step_moves [OF assms(2) manager_ok_parts [OF assms(1)]] by (auto simp: moves_def)
  then show "Manager_Secret m' ref = observe ref inp (Manager_Secret m ref)"
    "x \<noteq> ref \<Longrightarrow> Manager_Secret m' x = Manager_Secret m x" "x \<noteq> ref \<Longrightarrow> ctrl_of x m' = ctrl_of x m"
    by (simp_all add: located_def Manager_Secret_def snapshot_def ctrl_of_def)
qed

lemma ctrl_of_simps [simp]:
  "ctrl_of ref (goto ref c m) = (if m_go m ref = None then None else Some c)"
  "ctrl_of ref (update_resource ref' f m) = ctrl_of ref m" "ctrl_of ref (initOnce_Do ref' m) = ctrl_of ref m"
  "ctrl_of ref (set_start ref' t m) = ctrl_of ref m" "ctrl_of ref (set_backoff ref' b m) = ctrl_of ref m"
  by (cases "m_go m ref'"; auto simp: ctrl_of_def)+

lemma ctrl_of_go [simp]: "m_go m ref = Some g \<Longrightarrow> ctrl_of ref m = Some (g_ctrl g)"
  by (simp add: ctrl_of_def)

text \<open>How a goroutine gets to each of the two states with a watch ahead.\<close>

lemma ctrl_ends:
  "ctrl_of ref (recover_cycle ref m) = Some c \<Longrightarrow> c = CycleDone False"
  "ctrl_of ref (exit_run ref m) = Some c \<Longrightarrow> c = Exited"
  "ctrl_of ref (end_cycle ref start now m) = Some c \<Longrightarrow> \<exists>h. c = CycleDone h"
  "ctrl_of ref (leave_watch ref start now m) = Some c \<Longrightarrow> \<exists>h. c = CycleDone h"
  by (auto simp: recover_cycle_def exit_run_def end_cycle_def leave_watch_def split: if_splits)

lemma step_after_ctrl:
  "step_after ref g h c e m = Some m' \<Longrightarrow> ctrl_of ref m' = Some k \<Longrightarrow> k \<noteq> Watching \<and> (\<forall>rv. k \<noteq> Opening rv)"
  by (auto simp: step_after_def split: if_splits prod.splits dest: ctrl_ends)

lemma ctrl_Opening:
  assumes "go_step ref inp m = Some m'" and "ctrl_of ref m' = Some (Opening rv)"
  shows "\<exists>l c now start. inp = ListAnswer (Returns (Some l)) c now start \<and> rv = l_ResourceVersion l"
  using assms
  by (auto simp: go_step_def step_list_def list_secret_def step_open_def step_event_def step_reconcile_def Let_def
      dest: ctrl_ends step_after_ctrl
      split: option.splits ctrl.splits input.splits if_splits call.splits prod.splits bool.splits)

lemma ctrl_Watching:
  assumes "go_step ref inp m = Some m'" and "ctrl_of ref m' = Some Watching"
  shows "(\<exists>c e1 e2 now. inp = WatchAnswer (Returns True) c e1 e2 now)
    \<or> (\<exists>ev now. inp = WatchEvent ev now \<and> ctrl_of ref m = Some Watching)
    \<or> (\<exists>a c e now r. inp = ReconcileAnswer a c e now \<and> ctrl_of ref m = Some Watching \<and> m_resources m ref = Some r
        \<and> fst (reconcile a c now r))"
  using assms
  by (auto simp: go_step_def step_list_def list_secret_def step_open_def step_event_def step_reconcile_def Let_def
      dest: ctrl_ends step_after_ctrl
      split: option.splits ctrl.splits input.splits if_splits call.splits prod.splits bool.splits)

section \<open>The invariant of the system\<close>

text \<open>The recorded events of a Secret after a resource version, and those a watch is still to get.\<close>

definition since :: "SecretRef \<Rightarrow> int \<Rightarrow> historyEntry list \<Rightarrow> Event list" where
  "since ref n hs = map he_ev (filter (\<lambda>h. he_ref h = ref \<and> n < he_rv h) hs)"

definition in_flight :: "nat \<Rightarrow> (nat list \<times> Event) list \<Rightarrow> Event list" where
  "in_flight a sends = map snd (filter (\<lambda>s. a \<in> set (fst s)) sends)"

definition pending :: "fake_sys \<Rightarrow> nat \<Rightarrow> Event list" where
  "pending st a = fw_ch (fk_heap (sy_api st) ! a) @ in_flight a (sy_sends st)"

lemma replay_history_since:
  "replay_history hs ref n w = Some w' \<Longrightarrow> w' = w\<lparr>fw_ch := fw_ch w @ since ref n hs\<rparr>"
  by (induction hs ref n w rule: replay_history.induct) (auto simp: since_def split: if_splits)

definition api_ok :: "FakeAPI \<Rightarrow> bool" where
  "api_ok f \<longleftrightarrow> fk_overrides f = Map.empty
     \<and> (\<forall>h \<in> set (fk_history f). he_rv h \<le> fk_rv f \<and> wf_event (he_ref h) (he_ev h))
     \<and> (\<forall>ref s. fk_secrets f ref = Some s \<longrightarrow> names_ref ref s)
     \<and> (\<forall>ref. distinct (fk_watches f ref) \<and> (\<forall>a \<in> set (fk_watches f ref). a < length (fk_heap f)))
     \<and> (\<forall>x y. x \<noteq> y \<longrightarrow> set (fk_watches f x) \<inter> set (fk_watches f y) = {})"

text \<open>The watch of each goroutine is its own and is known to the API under its name only, as long as it is open.\<close>

definition watches_ok :: "FakeAPI \<Rightarrow> (SecretRef \<rightharpoonup> nat) \<Rightarrow> bool" where
  "watches_ok f own \<longleftrightarrow> (\<forall>ref a. own ref = Some a \<longrightarrow> a < length (fk_heap f) \<and> \<not> fw_stopped (fk_heap f ! a)
     \<and> (\<not> fw_closed (fk_heap f ! a) \<longrightarrow> a \<in> set (fk_watches f ref))
     \<and> (\<forall>x. x \<noteq> ref \<longrightarrow> a \<notin> set (fk_watches f x) \<and> own x \<noteq> Some a))"

definition sends_ok :: "fake_sys \<Rightarrow> bool" where
  "sends_ok st \<longleftrightarrow> length (sy_sends st) \<le> 1 \<and> (\<forall>s \<in> set (sy_sends st). distinct (fst s)
     \<and> (\<forall>a \<in> set (fst s). a < length (fk_heap (sy_api st)))
     \<and> (\<forall>ref a. sy_watch st ref = Some a \<longrightarrow> a \<in> set (fst s) \<longrightarrow> wf_event ref (snd s)))"

definition frame_ok :: "fake_sys \<Rightarrow> bool" where
  "frame_ok st \<longleftrightarrow> api_ok (sy_api st) \<and> watches_ok (sy_api st) (sy_watch st) \<and> sends_ok st \<and> manager_ok (sy_manager st)"

definition follows :: "SecretRef \<Rightarrow> fake_sys \<Rightarrow> bool" where
  "follows ref st \<longleftrightarrow>
     (\<forall>rv. ctrl_of ref (sy_manager st) = Some (Opening rv) \<longrightarrow> (\<exists>n. Atoi rv = Some n \<and> n \<le> fk_rv (sy_api st)
        \<and> leads_to (since ref n (fk_history (sy_api st))) (Manager_Secret (sy_manager st) ref)
            (snapshot_of (fk_secrets (sy_api st) ref))))
   \<and> (\<forall>a. sy_watch st ref = Some a \<longrightarrow> \<not> fw_closed (fk_heap (sy_api st) ! a) \<longrightarrow> list_all (wf_event ref) (pending st a)
        \<and> leads_to (pending st a) (Manager_Secret (sy_manager st) ref) (snapshot_of (fk_secrets (sy_api st) ref)))
   \<and> (ctrl_of ref (sy_manager st) = Some Watching \<longleftrightarrow> sy_watch st ref \<noteq> None)"

lemma followsI:
  assumes "\<And>rv. ctrl_of ref (sy_manager st) = Some (Opening rv) \<Longrightarrow> \<exists>n. Atoi rv = Some n \<and> n \<le> fk_rv (sy_api st)
        \<and> leads_to (since ref n (fk_history (sy_api st))) (Manager_Secret (sy_manager st) ref)
            (snapshot_of (fk_secrets (sy_api st) ref))"
    and "\<And>a. sy_watch st ref = Some a \<Longrightarrow> \<not> fw_closed (fk_heap (sy_api st) ! a) \<Longrightarrow> list_all (wf_event ref) (pending st a)
        \<and> leads_to (pending st a) (Manager_Secret (sy_manager st) ref) (snapshot_of (fk_secrets (sy_api st) ref))"
    and "ctrl_of ref (sy_manager st) = Some Watching \<longleftrightarrow> sy_watch st ref \<noteq> None"
  shows "follows ref st"
  using assms unfolding follows_def by blast

lemma followsD:
  assumes "follows ref st"
  shows "ctrl_of ref (sy_manager st) = Some (Opening rv) \<Longrightarrow> \<exists>n. Atoi rv = Some n \<and> n \<le> fk_rv (sy_api st)
        \<and> leads_to (since ref n (fk_history (sy_api st))) (Manager_Secret (sy_manager st) ref)
            (snapshot_of (fk_secrets (sy_api st) ref))"
    and "sy_watch st ref = Some a \<Longrightarrow> \<not> fw_closed (fk_heap (sy_api st) ! a) \<Longrightarrow> list_all (wf_event ref) (pending st a)"
    and "sy_watch st ref = Some a \<Longrightarrow> \<not> fw_closed (fk_heap (sy_api st) ! a) \<Longrightarrow>
      leads_to (pending st a) (Manager_Secret (sy_manager st) ref) (snapshot_of (fk_secrets (sy_api st) ref))"
    and "ctrl_of ref (sy_manager st) = Some Watching \<longleftrightarrow> sy_watch st ref \<noteq> None"
  using assms unfolding follows_def by blast+

lemma watches_okD:
  assumes "watches_ok f own" and "own ref = Some a"
  shows "a < length (fk_heap f)" and "\<not> fw_stopped (fk_heap f ! a)" and "\<not> fw_closed (fk_heap f ! a) \<Longrightarrow> a \<in> set (fk_watches f ref)"
    and "x \<noteq> ref \<Longrightarrow> a \<notin> set (fk_watches f x)" and "x \<noteq> ref \<Longrightarrow> own x \<noteq> Some a"
  using assms unfolding watches_ok_def by blast+

lemma on_watch_simps [simp]:
  "fk_rv (on_watch a g f) = fk_rv f" "fk_secrets (on_watch a g f) = fk_secrets f" "fk_watches (on_watch a g f) = fk_watches f"
  "fk_history (on_watch a g f) = fk_history f" "fk_overrides (on_watch a g f) = fk_overrides f"
  "length (fk_heap (on_watch a g f)) = length (fk_heap f)" "fk_errs (on_watch a g f) = fk_errs f"
  "b \<noteq> a \<Longrightarrow> fk_heap (on_watch a g f) ! b = fk_heap f ! b"
  "a < length (fk_heap f) \<Longrightarrow> fk_heap (on_watch a g f) ! a = g (fk_heap f ! a)"
  by (simp_all add: on_watch_def)

lemma api_ok_on_watch [simp]: "api_ok (on_watch a g f) = api_ok f"
  by (simp add: api_ok_def)

lemma manager_step_cases:
  assumes "manager_step ref inp st = Some st'"
  obtains (stay) m where "go_step ref inp (sy_manager st) = Some m" and "st' = st\<lparr>sy_manager := m\<rparr>"
      and "ctrl_of ref m = Some Watching \<or> sy_watch st ref = None"
    | (stop) m a where "go_step ref inp (sy_manager st) = Some m" and "ctrl_of ref m \<noteq> Some Watching" and "sy_watch st ref = Some a"
      and "st' = st\<lparr>sy_manager := m, sy_api := on_watch a fw_Stop (sy_api st), sy_watch := (sy_watch st)(ref := None)\<rparr>"
  using assms by (auto simp: manager_step_def split: option.splits if_splits)

lemma manager_step_frame:
  assumes "frame_ok st" and "manager_step ref inp st = Some st'"
  shows "frame_ok st'"
  using assms(2)
proof (cases rule: manager_step_cases)
  case (stay m)
  then show ?thesis
    using assms(1) manager_ok_step [OF _ stay(1)] by (auto simp: frame_ok_def sends_ok_def)
next
  case (stop m a)
  have w: "watches_ok (sy_api st) (sy_watch st)" using assms(1) by (simp add: frame_ok_def)
  have "watches_ok (on_watch a fw_Stop (sy_api st)) ((sy_watch st)(ref := None))"
    unfolding watches_ok_def
  proof (intro allI impI)
    fix x b
    assume x: "((sy_watch st)(ref := None)) x = Some b"
    then have own: "sy_watch st x = Some b" "x \<noteq> ref" by (auto split: if_splits)
    then have "b \<noteq> a" using watches_okD(5) [OF w stop(3)] by auto
    with watches_okD [OF w own(1)] show "b < length (fk_heap (on_watch a fw_Stop (sy_api st)))
        \<and> \<not> fw_stopped (fk_heap (on_watch a fw_Stop (sy_api st)) ! b)
        \<and> (\<not> fw_closed (fk_heap (on_watch a fw_Stop (sy_api st)) ! b) \<longrightarrow> b \<in> set (fk_watches (on_watch a fw_Stop (sy_api st)) x))
        \<and> (\<forall>y. y \<noteq> x \<longrightarrow> b \<notin> set (fk_watches (on_watch a fw_Stop (sy_api st)) y) \<and> ((sy_watch st)(ref := None)) y \<noteq> Some b)"
      by simp
  qed
  moreover have "sends_ok st'" using assms(1) stop(4) by (auto simp: frame_ok_def sends_ok_def split: if_splits)
  ultimately show ?thesis
    using assms(1) manager_ok_step [OF _ stop(1)] stop(4) by (simp add: frame_ok_def)
qed

lemma manager_step_other:
  assumes "frame_ok st" and "manager_step ref inp st = Some st'" and "follows x st" and "x \<noteq> ref"
  shows "follows x st'"
  using assms(2)
proof (cases rule: manager_step_cases)
  case (stay m)
  have "manager_ok (sy_manager st)" using assms(1) by (simp add: frame_ok_def)
  note same = go_step_secret(2,3) [OF this stay(1) assms(4)]
  then show ?thesis
    using followsD [OF assms(3)] stay(2) by (intro followsI) (simp_all add: pending_def)
next
  case (stop m a)
  have ok: "manager_ok (sy_manager st)" and w: "watches_ok (sy_api st) (sy_watch st)" using assms(1) by (simp_all add: frame_ok_def)
  note same = go_step_secret(2,3) [OF ok stop(1) assms(4)]
  have "b \<noteq> a" if "sy_watch st x = Some b" for b using watches_okD(5) [OF w stop(3) assms(4)] that by auto
  then show ?thesis
    using followsD [OF assms(3)] stop(4) same assms(4) by (intro followsI) (simp_all add: pending_def)
qed

lemma manager_step_self:
  assumes "frame_ok st" and "manager_step ref inp st = Some st'"
    and opens: "\<And>m rv. go_step ref inp (sy_manager st) = Some m \<Longrightarrow> ctrl_of ref m = Some (Opening rv) \<Longrightarrow>
      \<exists>n. Atoi rv = Some n \<and> n \<le> fk_rv (sy_api st)
        \<and> leads_to (since ref n (fk_history (sy_api st))) (observe ref inp (Manager_Secret (sy_manager st) ref))
            (snapshot_of (fk_secrets (sy_api st) ref))"
    and watches: "\<And>m. go_step ref inp (sy_manager st) = Some m \<Longrightarrow> ctrl_of ref m = Some Watching \<Longrightarrow>
      \<exists>a. sy_watch st ref = Some a \<and> (\<not> fw_closed (fk_heap (sy_api st) ! a) \<longrightarrow> list_all (wf_event ref) (pending st a)
        \<and> leads_to (pending st a) (observe ref inp (Manager_Secret (sy_manager st) ref)) (snapshot_of (fk_secrets (sy_api st) ref)))"
  shows "follows ref st'"
  using assms(2)
proof (cases rule: manager_step_cases)
  case (stay m)
  have "manager_ok (sy_manager st)" using assms(1) by (simp add: frame_ok_def)
  note secret = go_step_secret(1) [OF this stay(1)]
  show ?thesis
  proof (rule followsI)
    fix rv
    assume "ctrl_of ref (sy_manager st') = Some (Opening rv)"
    then show "\<exists>n. Atoi rv = Some n \<and> n \<le> fk_rv (sy_api st')
        \<and> leads_to (since ref n (fk_history (sy_api st'))) (Manager_Secret (sy_manager st') ref)
            (snapshot_of (fk_secrets (sy_api st') ref))"
      using opens [OF stay(1)] secret stay(2) by simp
  next
    fix a
    assume a: "sy_watch st' ref = Some a" "\<not> fw_closed (fk_heap (sy_api st') ! a)"
    then have "ctrl_of ref m = Some Watching" using stay(2,3) by simp
    from watches [OF stay(1) this] a
    show "list_all (wf_event ref) (pending st' a)
        \<and> leads_to (pending st' a) (Manager_Secret (sy_manager st') ref) (snapshot_of (fk_secrets (sy_api st') ref))"
      using secret stay(2) by (auto simp: pending_def)
  next
    show "ctrl_of ref (sy_manager st') = Some Watching \<longleftrightarrow> sy_watch st' ref \<noteq> None"
      using stay(2,3) watches [OF stay(1)] by auto
  qed
next
  case (stop m a)
  have "manager_ok (sy_manager st)" using assms(1) by (simp add: frame_ok_def)
  note secret = go_step_secret(1) [OF this stop(1)]
  show ?thesis
  proof (rule followsI)
    fix rv
    assume "ctrl_of ref (sy_manager st') = Some (Opening rv)"
    then show "\<exists>n. Atoi rv = Some n \<and> n \<le> fk_rv (sy_api st')
        \<and> leads_to (since ref n (fk_history (sy_api st'))) (Manager_Secret (sy_manager st') ref)
            (snapshot_of (fk_secrets (sy_api st') ref))"
      using opens [OF stop(1)] secret stop(4) by simp
  qed (insert stop, simp_all)
qed

definition sys_ok :: "fake_sys \<Rightarrow> bool" where
  "sys_ok st \<longleftrightarrow> frame_ok st \<and> (\<forall>ref. follows ref st)"

text \<open>What changes nothing but recorded calls and injected errors.\<close>

lemma sys_ok_api:
  assumes "fk_rv f = fk_rv (sy_api st)" and "fk_secrets f = fk_secrets (sy_api st)" and "fk_watches f = fk_watches (sy_api st)"
    and "fk_history f = fk_history (sy_api st)" and "fk_overrides f = fk_overrides (sy_api st)" and "fk_heap f = fk_heap (sy_api st)"
  shows "sys_ok (st\<lparr>sy_api := f\<rparr>) = sys_ok st"
  using assms
  by (simp add: sys_ok_def frame_ok_def api_ok_def watches_ok_def sends_ok_def follows_def pending_def)

lemma note_call_simps [simp]:
  "fk_rv (note_call v ref rv f) = fk_rv f" "fk_secrets (note_call v ref rv f) = fk_secrets f"
  "fk_watches (note_call v ref rv f) = fk_watches f" "fk_history (note_call v ref rv f) = fk_history f"
  "fk_overrides (note_call v ref rv f) = fk_overrides f" "fk_heap (note_call v ref rv f) = fk_heap f"
  "fk_errs (note_call v ref rv f) = fk_errs f"
  by (simp_all add: note_call_def)

lemma sys_ok_note_call [simp]: "sys_ok (st\<lparr>sy_api := note_call v ref rv (sy_api st)\<rparr>) = sys_ok st"
  by (rule sys_ok_api) simp_all

lemma manager_step_ok:
  assumes "sys_ok st" and "manager_step ref inp st = Some st'" and "follows ref st'"
  shows "sys_ok st'"
  using assms manager_step_frame manager_step_other unfolding sys_ok_def by metis

lemma manager_step_api [simp]:
  assumes "manager_step ref inp st = Some st'"
  shows "fk_rv (sy_api st') = fk_rv (sy_api st)"
  using assms by (cases rule: manager_step_cases) simp_all

lemma Atoi_int_string:
  assumes "0 \<le> n" and "n < 2 ^ 63"
  shows "Atoi (int_string n) = Some n"
proof -
  obtain c cs where c: "Itoa (nat n) = c # cs" by (cases "Itoa (nat n)") auto
  then have "is_digit c" using Itoa_digits [of "nat n"] by simp
  then have "c \<noteq> CHR ''+'' \<and> c \<noteq> CHR ''-''" by (auto simp: is_digit_def)
  moreover have "ParseUint (Itoa (nat n)) 10 64 = Some (nat n)"
    using assms by (simp add: ParseUint_def)
  ultimately show ?thesis
    using assms c by (simp add: Atoi_def int_string_def)
qed

lemma fk_calls_only:
  "snd (fk_ListSecret ref f) = note_call List ref [] f" "snd (fk_GetSecret nf ref f) = note_call Get ref [] f"
  by (auto simp: fk_ListSecret_def fk_GetSecret_def Let_def split: option.splits)

lemma go_list_ok:
  assumes "sys_ok st" and "go_list ref c now start st = Some st'" and "0 \<le> fk_rv (sy_api st)" and "fk_rv (sy_api st) < 2 ^ 63"
  shows "sys_ok st'" and "fk_rv (sy_api st') = fk_rv (sy_api st)"
proof -
  let ?f = "note_call List ref [] (sy_api st)"
  let ?st = "st\<lparr>sy_api := ?f\<rparr>"
  have ok: "sys_ok ?st" using assms(1) by simp
  then have fr: "frame_ok ?st" by (simp add: sys_ok_def)
  have api: "api_ok (sy_api st)" using assms(1) by (simp add: sys_ok_def frame_ok_def)
  obtain answer where a: "fk_ListSecret ref (sy_api st) = (answer, ?f)"
    using fk_calls_only(1) [of ref "sy_api st"] by (metis prod.collapse)
  have step: "manager_step ref (ListAnswer (call_of answer) c now start) ?st = Some st'"
    using assms(2) by (simp add: go_list_def a)
  have "follows ref st'"
  proof (rule manager_step_self [OF fr step])
    fix m rv
    assume m: "go_step ref (ListAnswer (call_of answer) c now start) (sy_manager ?st) = Some m" "ctrl_of ref m = Some (Opening rv)"
    obtain l where l: "answer = Inr l" "rv = l_ResourceVersion l"
      using ctrl_Opening [OF m] by (auto simp: call_of_def split: sum.splits)
    then have "l_Items l = (case fk_secrets (sy_api st) ref of None \<Rightarrow> [] | Some s \<Rightarrow> [s])" "rv = int_string (fk_rv (sy_api st))"
      using a api by (auto simp: fk_ListSecret_def Let_def api_ok_def split: option.splits)
    moreover have "since ref (fk_rv (sy_api st)) (fk_history (sy_api st)) = []"
      using api by (force simp: since_def api_ok_def filter_empty_conv)
    moreover have "names_ref ref s" if "fk_secrets (sy_api st) ref = Some s" for s using api that by (simp add: api_ok_def)
    ultimately show "\<exists>n. Atoi rv = Some n \<and> n \<le> fk_rv (sy_api ?st)
        \<and> leads_to (since ref n (fk_history (sy_api ?st))) (observe ref (ListAnswer (call_of answer) c now start) (Manager_Secret (sy_manager ?st) ref))
            (snapshot_of (fk_secrets (sy_api ?st) ref))"
      using Atoi_int_string [OF assms(3,4)] l by (auto simp: call_of_def split: option.splits)
  next
    fix m
    assume "go_step ref (ListAnswer (call_of answer) c now start) (sy_manager ?st) = Some m" "ctrl_of ref m = Some Watching"
    from ctrl_Watching [OF this] show "\<exists>a. sy_watch ?st ref = Some a \<and> (\<not> fw_closed (fk_heap (sy_api ?st) ! a) \<longrightarrow> list_all (wf_event ref) (pending ?st a)
        \<and> leads_to (pending ?st a) (observe ref (ListAnswer (call_of answer) c now start) (Manager_Secret (sy_manager ?st) ref)) (snapshot_of (fk_secrets (sy_api ?st) ref)))"
      by blast
  qed
  with ok step show "sys_ok st'" by (rule manager_step_ok)
  show "fk_rv (sy_api st') = fk_rv (sy_api st)" using manager_step_api [OF step] by simp
qed

lemma reconcile_no_drift:
  assumes "fst (reconcile a c now r)" and "r_secret r = snapshot_of x" and "\<And>s. a = Returns (Some s) \<Longrightarrow> x = Some s"
  shows "observe ref (ReconcileAnswer a c e now) (r_secret r) = snapshot_of x"
proof (cases a)
  case (Fails err)
  have "x = None" if "e_NotFound err"
    using assms(1,2) that Fails by (auto simp: reconcile_def reconcile_store_def store_def Let_def)
  with Fails assms(2) show ?thesis by simp
next
  case (Returns obj)
  then show ?thesis using assms(2,3) by (cases obj) auto
qed (simp add: assms(2))

lemma go_get_ok:
  assumes "sys_ok st" and "go_get nf ref c e now st = Some st'"
  shows "sys_ok st'" and "fk_rv (sy_api st') = fk_rv (sy_api st)"
proof -
  let ?f = "note_call Get ref [] (sy_api st)"
  let ?st = "st\<lparr>sy_api := ?f\<rparr>"
  have ok: "sys_ok ?st" using assms(1) by simp
  then have fr: "frame_ok ?st" and fol: "follows ref ?st" by (simp_all add: sys_ok_def)
  obtain answer where a: "fk_GetSecret nf ref (sy_api st) = (answer, ?f)"
    using fk_calls_only(2) [of nf ref "sy_api st"] by (metis prod.collapse)
  let ?inp = "ReconcileAnswer (call_of answer) c e now"
  have step: "manager_step ref ?inp ?st = Some st'" using assms(2) by (simp add: go_get_def a)
  have "follows ref st'"
  proof (rule manager_step_self [OF fr step])
    fix m
    assume "go_step ref ?inp (sy_manager ?st) = Some m" "ctrl_of ref m = Some Watching"
    from ctrl_Watching [OF this] obtain r where r: "ctrl_of ref (sy_manager ?st) = Some Watching"
      "m_resources (sy_manager st) ref = Some r" "fst (reconcile (call_of answer) c now r)" by auto
    then obtain b where b: "sy_watch ?st ref = Some b" using followsD(4) [OF fol] by blast
    have "fk_secrets (sy_api st) ref = Some s" if "call_of answer = Returns (Some s)" for s
      using that a by (auto simp: call_of_def fk_GetSecret_def Let_def split: sum.splits option.splits)
    with reconcile_no_drift [OF r(3)] have same: "observe ref ?inp (r_secret r) = snapshot_of (fk_secrets (sy_api st) ref)"
      if "r_secret r = snapshot_of (fk_secrets (sy_api st) ref)" using that by blast
    have "Manager_Secret (sy_manager ?st) ref = r_secret r" using r(2) by (simp add: Manager_Secret_def snapshot_def)
    with same followsD(2,3) [OF fol b] b
    show "\<exists>a. sy_watch ?st ref = Some a \<and> (\<not> fw_closed (fk_heap (sy_api ?st) ! a) \<longrightarrow> list_all (wf_event ref) (pending ?st a)
        \<and> leads_to (pending ?st a) (observe ref ?inp (Manager_Secret (sy_manager ?st) ref)) (snapshot_of (fk_secrets (sy_api ?st) ref)))"
      by (intro exI [of _ b]) (auto simp del: observe.simps intro: leads_to_any)
  qed (blast dest: ctrl_Opening)
  with ok step show "sys_ok st'" by (rule manager_step_ok)
  show "fk_rv (sy_api st') = fk_rv (sy_api st)" using manager_step_api [OF step] by simp
qed

lemma quiet_step_ok:
  assumes "sys_ok st" and "manager_step ref inp st = Some st'" and "without_api inp \<or> (\<exists>now. inp = WatchClosed now)"
  shows "sys_ok st'" and "fk_rv (sy_api st') = fk_rv (sy_api st)"
proof -
  have fr: "frame_ok st" using assms(1) by (simp add: sys_ok_def)
  have "follows ref st'"
    by (rule manager_step_self [OF fr assms(2)]) (insert assms(3) ctrl_Opening ctrl_Watching, fastforce+)
  with assms(1,2) show "sys_ok st'" by (rule manager_step_ok)
  show "fk_rv (sy_api st') = fk_rv (sy_api st)" using manager_step_api [OF assms(2)] .
qed

lemma frame_pop:
  assumes "frame_ok st"
  shows "frame_ok (st\<lparr>sy_api := on_watch a (fw_ch_update (\<lambda>_. rest)) (sy_api st)\<rparr>)"
proof -
  let ?f = "on_watch a (fw_ch_update (\<lambda>_. rest)) (sy_api st)"
  have flags: "fw_stopped (fk_heap ?f ! b) = fw_stopped (fk_heap (sy_api st) ! b)"
    "fw_closed (fk_heap ?f ! b) = fw_closed (fk_heap (sy_api st) ! b)" if "b < length (fk_heap (sy_api st))" for b
    using that by (cases "b = a"; simp)+
  have w: "watches_ok (sy_api st) (sy_watch st)" using assms by (simp add: frame_ok_def)
  have "watches_ok ?f (sy_watch st)"
    unfolding watches_ok_def using watches_okD [OF w] flags by simp
  then show ?thesis using assms by (simp add: frame_ok_def sends_ok_def)
qed

lemma go_event_ok:
  assumes "sys_ok st" and "go_event ref now st = Some st'"
  shows "sys_ok st'" and "fk_rv (sy_api st') = fk_rv (sy_api st)"
proof -
  obtain a ev rest where a: "sy_watch st ref = Some a" "fw_ch (fk_heap (sy_api st) ! a) = ev # rest"
    and step: "manager_step ref (WatchEvent ev now) (st\<lparr>sy_api := on_watch a (fw_ch_update (\<lambda>_. rest)) (sy_api st)\<rparr>) = Some st'"
    using assms(2) by (auto simp: go_event_def split: option.splits list.splits)
  let ?st = "st\<lparr>sy_api := on_watch a (fw_ch_update (\<lambda>_. rest)) (sy_api st)\<rparr>"
  have frame: "frame_ok st" and fol: "follows x st" for x using assms(1) by (simp_all add: sys_ok_def)
  have w: "watches_ok (sy_api st) (sy_watch st)" using frame by (simp add: frame_ok_def)
  note frame' = frame_pop [OF frame, of a rest]
  have len: "a < length (fk_heap (sy_api st))" by (rule watches_okD(1) [OF w a(1)])
  have pend: "pending st a = ev # pending ?st a" using a(2) len by (simp add: pending_def)
  have other: "follows x st'" if "x \<noteq> ref" for x
  proof -
    have "b \<noteq> a" if "sy_watch st x = Some b" for b using watches_okD(5) [OF w a(1) \<open>x \<noteq> ref\<close>] that by auto
    then have "follows x ?st" using followsD [OF fol [of x]] by (intro followsI) (simp_all add: pending_def)
    then show ?thesis using manager_step_other [OF frame' step _ that] by blast
  qed
  have "follows ref st'"
  proof (rule manager_step_self [OF frame' step])
    have "list_all (wf_event ref) (pending ?st a) \<and> leads_to (pending ?st a)
        (observe ref (WatchEvent ev now) (Manager_Secret (sy_manager ?st) ref)) (snapshot_of (fk_secrets (sy_api ?st) ref))"
      if "\<not> fw_closed (fk_heap (sy_api ?st) ! a)"
      using that followsD(2,3) [OF fol a(1)] len by (simp add: pend leads_to_Cons del: observe.simps)
    with a(1) show "\<exists>a. sy_watch ?st ref = Some a \<and> (\<not> fw_closed (fk_heap (sy_api ?st) ! a) \<longrightarrow> list_all (wf_event ref) (pending ?st a)
        \<and> leads_to (pending ?st a) (observe ref (WatchEvent ev now) (Manager_Secret (sy_manager ?st) ref)) (snapshot_of (fk_secrets (sy_api ?st) ref)))"
      by (intro exI [of _ a]) simp
  qed (blast dest: ctrl_Opening)
  with other manager_step_frame [OF frame' step] show "sys_ok st'" unfolding sys_ok_def by metis
  show "fk_rv (sy_api st') = fk_rv (sy_api st)" using manager_step_api [OF step] by simp
qed

text \<open>Opening a watch: its events are those since the list, and it belongs to nobody else.\<close>

definition with_watch :: "SecretRef \<Rightarrow> fakeWatch \<Rightarrow> FakeAPI \<Rightarrow> FakeAPI" where
  "with_watch ref w f = f\<lparr>fk_heap := fk_heap f @ [w],
     fk_watches := (fk_watches f)(ref := filter (\<lambda>a. fw_open (fk_heap f ! a)) (fk_watches f ref) @ [length (fk_heap f)])\<rparr>"

lemma with_watch_simps [simp]:
  "fk_rv (with_watch ref w f) = fk_rv f" "fk_secrets (with_watch ref w f) = fk_secrets f" "fk_history (with_watch ref w f) = fk_history f"
  "fk_overrides (with_watch ref w f) = fk_overrides f" "fk_heap (with_watch ref w f) = fk_heap f @ [w]"
  "fk_watches (with_watch ref w f) = (fk_watches f)(ref := filter (\<lambda>a. fw_open (fk_heap f ! a)) (fk_watches f ref) @ [length (fk_heap f)])"
  by (simp_all add: with_watch_def)

lemma api_ok_with_watch:
  assumes "api_ok f"
  shows "api_ok (with_watch ref w f)"
proof -
  have old: "distinct (fk_watches f x)" "a \<in> set (fk_watches f x) \<Longrightarrow> a < length (fk_heap f)"
    "x \<noteq> y \<Longrightarrow> set (fk_watches f x) \<inter> set (fk_watches f y) = {}" for x y a
    using assms by (auto simp: api_ok_def)
  have "distinct (fk_watches (with_watch ref w f) x)" for x using old(1,2) by fastforce
  moreover have "a < length (fk_heap (with_watch ref w f))" if "a \<in> set (fk_watches (with_watch ref w f) x)" for x a
    using that old(2) by (fastforce split: if_splits)
  moreover have "set (fk_watches (with_watch ref w f) x) \<inter> set (fk_watches (with_watch ref w f) y) = {}" if "x \<noteq> y" for x y
    using old(3) [OF that] old(2) that by (fastforce split: if_splits)
  ultimately show ?thesis using assms by (simp add: api_ok_def)
qed

lemma frame_with_watch:
  assumes "frame_ok st" and "fw_stopped w = False" and "fw_closed w = False"
  shows "frame_ok (st\<lparr>sy_api := with_watch ref w (sy_api st), sy_watch := (sy_watch st)(ref \<mapsto> length (fk_heap (sy_api st)))\<rparr>)"
proof -
  let ?f = "sy_api st" and ?a = "length (fk_heap (sy_api st))"
  have api: "api_ok ?f" and w: "watches_ok ?f (sy_watch st)" and sends: "sends_ok st" using assms(1) by (simp_all add: frame_ok_def)
  have fresh: "?a \<notin> set (fk_watches ?f x)" "sy_watch st x \<noteq> Some ?a" for x
    using api watches_okD(1) [OF w, of x ?a] by (auto simp: api_ok_def)
  have "watches_ok (with_watch ref w ?f) ((sy_watch st)(ref \<mapsto> ?a))"
    unfolding watches_ok_def
  proof (intro allI impI)
    fix x b
    assume x: "((sy_watch st)(ref \<mapsto> ?a)) x = Some b"
    show "b < length (fk_heap (with_watch ref w ?f)) \<and> \<not> fw_stopped (fk_heap (with_watch ref w ?f) ! b)
        \<and> (\<not> fw_closed (fk_heap (with_watch ref w ?f) ! b) \<longrightarrow> b \<in> set (fk_watches (with_watch ref w ?f) x))
        \<and> (\<forall>y. y \<noteq> x \<longrightarrow> b \<notin> set (fk_watches (with_watch ref w ?f) y) \<and> ((sy_watch st)(ref \<mapsto> ?a)) y \<noteq> Some b)"
    proof (cases "x = ref")
      case True
      with x assms(2,3) fresh show ?thesis by (auto simp: nth_append)
    next
      case False
      with x have own: "sy_watch st x = Some b" by simp
      note old = watches_okD [OF w own]
      show ?thesis
        using False old fresh by (auto simp: nth_append split: if_splits)
    qed
  qed
  moreover have "sends_ok (st\<lparr>sy_api := with_watch ref w ?f, sy_watch := (sy_watch st)(ref \<mapsto> ?a)\<rparr>)"
    using sends by (fastforce simp: sends_ok_def split: if_splits)
  ultimately show ?thesis using api_ok_with_watch [OF api] assms(1) by (simp add: frame_ok_def)
qed

lemma watch_fails_ok:
  assumes "sys_ok st" and "manager_step ref (WatchAnswer answer c e1 e2 now) st = Some st'" and "answer \<noteq> Returns True"
  shows "sys_ok st'"
proof -
  have fr: "frame_ok st" using assms(1) by (simp add: sys_ok_def)
  have "follows ref st'"
    by (rule manager_step_self [OF fr assms(2)]) (insert assms(3) ctrl_Opening ctrl_Watching, fastforce+)
  with assms(1,2) show ?thesis by (rule manager_step_ok)
qed

lemma watch_opens_ok:
  assumes "sys_ok st" and "ctrl_of ref (sy_manager st) = Some (Opening rv)" and "Atoi rv = Some n"
    and "w = newFakeWatch\<lparr>fw_ch := since ref n (fk_history (sy_api st))\<rparr>"
    and "manager_step ref (WatchAnswer (Returns True) c e1 e2 now)
      (st\<lparr>sy_api := with_watch ref w (sy_api st), sy_watch := (sy_watch st)(ref \<mapsto> length (fk_heap (sy_api st)))\<rparr>) = Some st'"
  shows "sys_ok st'"
proof -
  let ?f = "sy_api st" and ?a = "length (fk_heap (sy_api st))"
  let ?st = "st\<lparr>sy_api := with_watch ref w ?f, sy_watch := (sy_watch st)(ref \<mapsto> ?a)\<rparr>"
  have frame: "frame_ok st" and fol: "follows x st" for x using assms(1) by (simp_all add: sys_ok_def)
  have w: "watches_ok ?f (sy_watch st)" and api: "api_ok ?f" and sends: "sends_ok st" using frame by (simp_all add: frame_ok_def)
  have frame': "frame_ok ?st" using frame_with_watch [OF frame, of w ref] assms(4) by (simp add: newFakeWatch_def)
  have pend: "pending ?st ?a = since ref n (fk_history ?f)"
    using sends by (force simp: pending_def in_flight_def filter_empty_conv sends_ok_def assms(4))
  have wf: "list_all (wf_event ref) (since ref n (fk_history ?f))"
    using api by (auto simp: since_def list_all_iff api_ok_def)
  have other: "follows x st'" if "x \<noteq> ref" for x
  proof -
    have "follows x ?st"
      using followsD [OF fol [of x]] that watches_okD(1) [OF w, of x] by (intro followsI) (simp_all add: pending_def nth_append)
    then show ?thesis using manager_step_other [OF frame' assms(5) _ that] by blast
  qed
  have "follows ref st'"
  proof (rule manager_step_self [OF frame' assms(5)])
    show "\<exists>a. sy_watch ?st ref = Some a \<and> (\<not> fw_closed (fk_heap (sy_api ?st) ! a) \<longrightarrow> list_all (wf_event ref) (pending ?st a)
        \<and> leads_to (pending ?st a) (observe ref (WatchAnswer (Returns True) c e1 e2 now) (Manager_Secret (sy_manager ?st) ref))
            (snapshot_of (fk_secrets (sy_api ?st) ref)))"
      using followsD(1) [OF fol assms(2)] assms(3) wf by (intro exI [of _ ?a]) (auto simp: pend)
  qed (blast dest: ctrl_Opening)
  with other manager_step_frame [OF frame' assms(5)] show ?thesis unfolding sys_ok_def by metis
qed

lemma go_watch_ok:
  assumes "sys_ok st" and "go_watch ref c e1 e2 now st = Some st'"
  shows "sys_ok st'" and "fk_rv (sy_api st') = fk_rv (sy_api st)"
proof -
  obtain rv where rv: "ctrl_of ref (sy_manager st) = Some (Opening rv)"
    using assms(2) by (auto simp: go_watch_def split: option.splits ctrl.splits)
  have "follows ref st" using assms(1) by (simp add: sys_ok_def)
  then obtain n where n: "Atoi rv = Some n" using followsD(1) [OF _ rv] by blast
  let ?f = "note_call Watch ref rv (sy_api st)"
  let ?st = "st\<lparr>sy_api := ?f\<rparr>"
  have ok: "sys_ok ?st" using assms(1) by simp
  show "sys_ok st'"
  proof (cases "fk_errs (sy_api st) Watch ref")
    case (Some err)
    then have "manager_step ref (WatchAnswer (Fails err) c e1 e2 now) ?st = Some st'"
      using assms(2) rv by (simp add: go_watch_def fk_WatchSecret_def Let_def)
    from watch_fails_ok [OF ok this] show ?thesis by simp
  next
    case None
    show ?thesis
    proof (cases "replay_history (fk_history (sy_api st)) ref n newFakeWatch")
      case none: None
      then have "manager_step ref (WatchAnswer Panics c e1 e2 now) ?st = Some st'"
        using assms(2) rv None n by (simp add: go_watch_def fk_WatchSecret_def Let_def)
      from watch_fails_ok [OF ok this] show ?thesis by simp
    next
      case (Some w)
      have w: "w = newFakeWatch\<lparr>fw_ch := since ref n (fk_history (sy_api ?st))\<rparr>"
        using replay_history_since [OF Some] by (simp add: newFakeWatch_def)
      have "manager_step ref (WatchAnswer (Returns True) c e1 e2 now)
          (?st\<lparr>sy_api := with_watch ref w ?f, sy_watch := (sy_watch st)(ref \<mapsto> length (fk_heap ?f))\<rparr>) = Some st'"
        using assms(2) rv None n Some by (simp add: go_watch_def fk_WatchSecret_def Let_def with_watch_def)
      then show ?thesis using watch_opens_ok [OF ok _ n w] rv by simp
    qed
  qed
  show "fk_rv (sy_api st') = fk_rv (sy_api st)"
    using assms(2) manager_step_api
    by (fastforce simp: go_watch_def fk_WatchSecret_def Let_def split: option.splits ctrl.splits call.splits prod.splits)
qed

section \<open>What a test does\<close>

definition changed :: "SecretRef \<Rightarrow> k8s_Secret option \<Rightarrow> Event \<Rightarrow> FakeAPI \<Rightarrow> FakeAPI" where
  "changed ref s ev f = f\<lparr>fk_rv := fk_rv f + 1, fk_secrets := (fk_secrets f)(ref := s),
     fk_history := fk_history f @ [\<lparr>he_ref = ref, he_rv = fk_rv f + 1, he_ev = ev\<rparr>]\<rparr>"

lemma changed_simps [simp]:
  "fk_rv (changed ref s ev f) = fk_rv f + 1" "fk_secrets (changed ref s ev f) = (fk_secrets f)(ref := s)"
  "fk_history (changed ref s ev f) = fk_history f @ [\<lparr>he_ref = ref, he_rv = fk_rv f + 1, he_ev = ev\<rparr>]"
  "fk_overrides (changed ref s ev f) = fk_overrides f" "fk_heap (changed ref s ev f) = fk_heap f"
  "fk_watches (changed ref s ev f) = fk_watches f"
  by (simp_all add: changed_def)

lemma enqueue_send_simps [simp]:
  "sy_api (enqueue_send send st) = sy_api st" "sy_manager (enqueue_send send st) = sy_manager st"
  "sy_watch (enqueue_send send st) = sy_watch st"
  by (simp_all add: enqueue_send_def)

lemma since_snoc:
  "n \<le> rv \<Longrightarrow> since x n (hs @ [\<lparr>he_ref = ref, he_rv = rv + 1, he_ev = ev\<rparr>]) = since x n hs @ (if x = ref then [ev] else [])"
  by (auto simp: since_def)

lemma change_ok:
  assumes "sys_ok st" and "sy_sends st = []" and "wf_event ref ev" and "effect ev = snapshot_of s" and "\<And>x. s = Some x \<Longrightarrow> names_ref ref x"
  shows "sys_ok (enqueue_send (fk_watches (sy_api st) ref, ev) (st\<lparr>sy_api := changed ref s ev (sy_api st)\<rparr>))" (is "sys_ok ?st")
proof -
  let ?f = "sy_api st"
  have frame: "frame_ok st" and fol: "follows x st" for x using assms(1) by (simp_all add: sys_ok_def)
  have w: "watches_ok ?f (sy_watch st)" and api: "api_ok ?f" using frame by (simp_all add: frame_ok_def)
  have sends: "sy_sends ?st = (if fk_watches ?f ref = [] then [] else [(fk_watches ?f ref, ev)])"
    using assms(2) by (simp add: enqueue_send_def)
  have "api_ok (changed ref s ev ?f)" using api assms(3,5) by (fastforce simp: api_ok_def)
  moreover have "watches_ok (changed ref s ev ?f) (sy_watch st)" using w by (simp add: watches_ok_def)
  moreover have "wf_event x ev" if "sy_watch st x = Some a" "a \<in> set (fk_watches ?f ref)" for x a
    using watches_okD(4) [OF w that(1)] that(2) assms(3) by metis
  then have "sends_ok ?st" using api by (auto simp: sends_ok_def sends api_ok_def)
  ultimately have "frame_ok ?st" using frame \<open>sends_ok ?st\<close> by (simp add: frame_ok_def)
  moreover have "follows x ?st" for x
  proof -
    have pend: "pending ?st a = pending st a @ (if a \<in> set (fk_watches ?f ref) then [ev] else [])" for a
      by (auto simp: pending_def in_flight_def sends assms(2))
    have own: "a \<in> set (fk_watches ?f ref) \<longleftrightarrow> x = ref" if "sy_watch st x = Some a" "\<not> fw_closed (fk_heap ?f ! a)" for a
      using watches_okD(3) [OF w that] watches_okD(4) [OF w that(1), of ref] by (cases "x = ref") auto
    show ?thesis
    proof (rule followsI)
      fix rv
      assume "ctrl_of x (sy_manager ?st) = Some (Opening rv)"
      then obtain n where "Atoi rv = Some n" "n \<le> fk_rv ?f"
        "leads_to (since x n (fk_history ?f)) (Manager_Secret (sy_manager st) x) (snapshot_of (fk_secrets ?f x))"
        using followsD(1) [OF fol [of x]] by fastforce
      with assms(4) show "\<exists>n. Atoi rv = Some n \<and> n \<le> fk_rv (sy_api ?st)
          \<and> leads_to (since x n (fk_history (sy_api ?st))) (Manager_Secret (sy_manager ?st) x) (snapshot_of (fk_secrets (sy_api ?st) x))"
        by (intro exI [of _ n]) (simp add: since_snoc)
    next
      fix a
      assume a: "sy_watch ?st x = Some a" "\<not> fw_closed (fk_heap (sy_api ?st) ! a)"
      then show "list_all (wf_event x) (pending ?st a)
          \<and> leads_to (pending ?st a) (Manager_Secret (sy_manager ?st) x) (snapshot_of (fk_secrets (sy_api ?st) x))"
        using followsD(2,3) [OF fol [of x], of a] own [of a] assms(3,4) by (simp add: pend)
    qed (insert followsD(4) [OF fol [of x]], simp)
  qed
  ultimately show ?thesis by (simp add: sys_ok_def)
qed

lemma do_apply_ok:
  assumes "sys_ok st" and "sy_sends st = []" and "0 \<le> fk_rv (sy_api st)" and "fk_rv (sy_api st) < 2 ^ 62"
    and "fk_apply ref data True (sy_api st) = (send, f)"
  shows "sys_ok (enqueue_send send (st\<lparr>sy_api := f\<rparr>))" and "fk_rv f = fk_rv (sy_api st) + 1"
proof -
  have rv: "wrap64 (fk_rv (sy_api st) + 1) = fk_rv (sy_api st) + 1" using assms(3,4) by simp
  obtain ev s where ev: "send = (fk_watches (sy_api st) ref, ev)" "f = changed ref (Some s) ev (sy_api st)"
      "ev_Object ev = SecretObject s" "ev_Type ev = Added \<or> ev_Type ev = Modified" "s_Name s = Name ref" "s_Namespace s = Namespace ref"
    using assms(5) by (auto simp: fk_apply_def fk_record_def changed_def rv Let_def split: option.splits)
  then have "wf_event ref ev" "effect ev = snapshot_of (Some s)" "names_ref ref s"
    by (auto simp: wf_event_def effect_def names_ref_def)
  with change_ok [OF assms(1,2), of ref ev "Some s"] ev show "sys_ok (enqueue_send send (st\<lparr>sy_api := f\<rparr>))" by simp
  show "fk_rv f = fk_rv (sy_api st) + 1" using ev by simp
qed

lemma do_delete_ok:
  assumes "sys_ok st" and "sy_sends st = []" and "0 \<le> fk_rv (sy_api st)" and "fk_rv (sy_api st) < 2 ^ 62"
    and "fk_delete ref True (sy_api st) = Some (send, f)"
  shows "sys_ok (enqueue_send send (st\<lparr>sy_api := f\<rparr>))" and "fk_rv f = fk_rv (sy_api st) + 1"
proof -
  have rv: "wrap64 (fk_rv (sy_api st) + 1) = fk_rv (sy_api st) + 1" using assms(3,4) by simp
  obtain s where s: "fk_secrets (sy_api st) ref = Some s" using assms(5) by (auto simp: fk_delete_def split: option.splits)
  define ev where "ev = \<lparr>ev_Type = Deleted, ev_Object = SecretObject (s\<lparr>s_ResourceVersion := int_string (fk_rv (sy_api st) + 1)\<rparr>)\<rparr>"
  have ev: "send = (fk_watches (sy_api st) ref, ev)" "f = changed ref None ev (sy_api st)"
    using assms(5) s by (auto simp: fk_delete_def fk_record_def changed_def rv ev_def Let_def)
  have "names_ref ref s" using assms(1) s by (simp add: sys_ok_def frame_ok_def api_ok_def)
  then have "wf_event ref ev" "effect ev = snapshot_of None"
    by (auto simp: wf_event_def effect_def names_ref_def ev_def)
  with change_ok [OF assms(1,2), of ref ev None] ev show "sys_ok (enqueue_send send (st\<lparr>sy_api := f\<rparr>))" by simp
  show "fk_rv f = fk_rv (sy_api st) + 1" using ev by simp
qed

text \<open>One event reaches one watch.\<close>

lemma deliver_next_ok:
  assumes "sys_ok st" and "deliver_next i lost st = Some st'"
  shows "sys_ok st'" and "fk_rv (sy_api st') = fk_rv (sy_api st)"
proof -
  let ?f = "sy_api st"
  have frame: "frame_ok st" and fol: "follows x st" for x using assms(1) by (simp_all add: sys_ok_def)
  have w: "watches_ok ?f (sy_watch st)" and sends: "sends_ok st" using frame by (simp_all add: frame_ok_def)
  have "i = 0" "sy_sends st \<noteq> []" using assms(2) sends by (auto simp: deliver_next_def sends_ok_def split: if_splits)
  then obtain p where p: "sy_sends st = [p]" using sends by (cases "sy_sends st") (auto simp: sends_ok_def)
  obtain a rest ev w' where s: "sy_sends st = [(a # rest, ev)]" and send: "fw_send lost ev (fk_heap ?f ! a) = Some w'"
      and st': "st' = st\<lparr>sy_api := on_watch a (\<lambda>_. w') ?f, sy_sends := (if rest = [] then [] else [(rest, ev)])\<rparr>"
    using assms(2) p \<open>i = 0\<close> by (cases p; cases "fst p") (auto simp: deliver_next_def split: option.splits)
  have a: "a < length (fk_heap ?f)" "a \<notin> set rest" using sends by (auto simp: sends_ok_def s)
  have flags: "fw_stopped w' = fw_stopped (fk_heap ?f ! a)" "fw_closed w' = fw_closed (fk_heap ?f ! a)"
    using send by (auto simp: fw_send_def split: if_splits)
  have put: "fw_ch w' = fw_ch (fk_heap ?f ! a) @ [ev]" if "\<not> fw_closed (fk_heap ?f ! a)" "\<not> fw_stopped (fk_heap ?f ! a)"
    using send that by (auto simp: fw_send_def split: if_splits)
  have heap: "fw_stopped (fk_heap (sy_api st') ! b) = fw_stopped (fk_heap ?f ! b)"
    "fw_closed (fk_heap (sy_api st') ! b) = fw_closed (fk_heap ?f ! b)" for b
    using a(1) flags by (cases "b = a"; simp add: st')+
  have pend: "pending st' b = pending st b" if "sy_watch st x = Some b" "\<not> fw_closed (fk_heap ?f ! b)" for x b
    using watches_okD(2) [OF w that(1)] put that(2) a by (cases "b = a") (auto simp: pending_def in_flight_def st' s)
  have "watches_ok (sy_api st') (sy_watch st')"
    using watches_okD [OF w] heap by (simp add: watches_ok_def st')
  moreover have "sends_ok st'" using sends by (auto simp: sends_ok_def st' s)
  ultimately have "frame_ok st'" using frame by (simp add: frame_ok_def st')
  moreover have "follows x st'" for x
  proof (rule followsI)
    fix b
    assume b: "sy_watch st' x = Some b" "\<not> fw_closed (fk_heap (sy_api st') ! b)"
    then have "sy_watch st x = Some b" "\<not> fw_closed (fk_heap ?f ! b)" using heap by (simp_all add: st')
    with followsD(2,3) [OF fol this] pend [OF this]
    show "list_all (wf_event x) (pending st' b)
        \<and> leads_to (pending st' b) (Manager_Secret (sy_manager st') x) (snapshot_of (fk_secrets (sy_api st') x))"
      by (simp add: st')
  qed (insert followsD(1,4) [OF fol [of x]], simp_all add: st')
  ultimately show "sys_ok st'" by (simp add: sys_ok_def)
  show "fk_rv (sy_api st') = fk_rv ?f" by (simp add: st')
qed

lemma closeResults_again [simp]: "closeResults (closeResults w) = closeResults w"
  by (simp add: closeResults_def)

lemma fold_close_heap:
  "\<forall>a \<in> set as. a < length (fk_heap f) \<Longrightarrow> fk_heap (fold (\<lambda>a. on_watch a closeResults) as f) ! b
      = (if b \<in> set as then closeResults (fk_heap f ! b) else fk_heap f ! b)"
proof (induction as arbitrary: f)
  case (Cons a as)
  then show ?case using Cons.IH [of "on_watch a closeResults f"] by (cases "b = a") simp_all
qed simp

lemma fold_close_simps [simp]:
  "length (fk_heap (fold (\<lambda>a. on_watch a closeResults) as f)) = length (fk_heap f)"
  "fk_rv (fold (\<lambda>a. on_watch a closeResults) as f) = fk_rv f" "fk_secrets (fold (\<lambda>a. on_watch a closeResults) as f) = fk_secrets f"
  "fk_history (fold (\<lambda>a. on_watch a closeResults) as f) = fk_history f"
  "fk_overrides (fold (\<lambda>a. on_watch a closeResults) as f) = fk_overrides f"
  "fk_watches (fold (\<lambda>a. on_watch a closeResults) as f) = fk_watches f"
  by (induction as arbitrary: f) simp_all

lemma CloseWatches_simps [simp]:
  "length (fk_heap (CloseWatches ref f)) = length (fk_heap f)" "fk_rv (CloseWatches ref f) = fk_rv f"
  "fk_secrets (CloseWatches ref f) = fk_secrets f" "fk_history (CloseWatches ref f) = fk_history f"
  "fk_overrides (CloseWatches ref f) = fk_overrides f" "fk_watches (CloseWatches ref f) = (fk_watches f)(ref := [])"
  by (simp_all add: CloseWatches_def)

lemma close_watches_ok:
  assumes "sys_ok st"
  shows "sys_ok (st\<lparr>sy_api := CloseWatches ref (sy_api st)\<rparr>)" and "fk_rv (CloseWatches ref (sy_api st)) = fk_rv (sy_api st)"
proof -
  let ?f = "sy_api st" and ?g = "CloseWatches ref (sy_api st)"
  have frame: "frame_ok st" and fol: "follows x st" for x using assms by (simp_all add: sys_ok_def)
  have w: "watches_ok ?f (sy_watch st)" and api: "api_ok ?f" and sends: "sends_ok st" using frame by (simp_all add: frame_ok_def)
  have g: "fk_heap ?g ! b = (if b \<in> set (fk_watches ?f ref) then closeResults (fk_heap ?f ! b) else fk_heap ?f ! b)" for b
    using api by (simp add: CloseWatches_def fold_close_heap api_ok_def)
  have same: "fk_heap ?g ! b = fk_heap ?f ! b" if "\<not> fw_closed (fk_heap ?g ! b)" for b
    using that g [of b] by (auto simp: closeResults_def split: if_splits)
  have "api_ok ?g" using api by (simp add: api_ok_def)
  moreover have "watches_ok ?g (sy_watch st)"
    unfolding watches_ok_def
  proof (intro allI impI)
    fix x a
    assume own: "sy_watch st x = Some a"
    show "a < length (fk_heap ?g) \<and> \<not> fw_stopped (fk_heap ?g ! a) \<and> (\<not> fw_closed (fk_heap ?g ! a) \<longrightarrow> a \<in> set (fk_watches ?g x))
        \<and> (\<forall>y. y \<noteq> x \<longrightarrow> a \<notin> set (fk_watches ?g y) \<and> sy_watch st y \<noteq> Some a)"
      using watches_okD [OF w own] by (auto simp: g closeResults_def split: if_splits)
  qed
  moreover have "sends_ok (st\<lparr>sy_api := ?g\<rparr>)" using sends by (simp add: sends_ok_def)
  ultimately have "frame_ok (st\<lparr>sy_api := ?g\<rparr>)" using frame by (simp add: frame_ok_def)
  moreover have "follows x (st\<lparr>sy_api := ?g\<rparr>)" for x
    using followsD [OF fol [of x]] same by (intro followsI) (simp_all add: pending_def)
  ultimately show "sys_ok (st\<lparr>sy_api := ?g\<rparr>)" by (simp add: sys_ok_def)
  show "fk_rv ?g = fk_rv ?f" by simp
qed

section \<open>No change is lost\<close>

text \<open>The actions under which a watch behaves like that of the real API.\<close>

fun faithful :: "fake_action \<Rightarrow> bool" where
  "faithful (DoApply ref data notify) = notify"
| "faithful (DoDelete ref notify) = notify"
| "faithful (DoSendEvent ref ev) = False"
| "faithful (DoSetListResult ref l) = False"
| "faithful _ = True"

lemma fake_step_ok:
  assumes "sys_ok st" and "0 \<le> fk_rv (sy_api st)" and "fk_rv (sy_api st) < 2 ^ 62" and "faithful act"
    and "fake_step nf True act st = Some st'"
  shows "sys_ok st' \<and> fk_rv (sy_api st) \<le> fk_rv (sy_api st') \<and> fk_rv (sy_api st') \<le> fk_rv (sy_api st) + 1"
proof (cases act)
  case (DoApply ref data notify)
  then have "sy_sends st = []" using assms(5) by (auto split: if_splits)
  moreover obtain send f where f: "fk_apply ref data True (sy_api st) = (send, f)" by fastforce
  ultimately show ?thesis
    using do_apply_ok [OF assms(1) _ assms(2,3) f] assms(4,5) DoApply by (auto simp: Apply_def)
next
  case (DoDelete ref notify)
  then have sends: "sy_sends st = []" using assms(5) by (auto split: if_splits)
  show ?thesis
  proof (cases "fk_delete ref True (sy_api st)")
    case (Some p)
    obtain send f where f: "fk_delete ref True (sy_api st) = Some (send, f)" using Some by (cases p) simp
    show ?thesis using do_delete_ok [OF assms(1) sends assms(2,3) f] assms(4,5) DoDelete f sends by (auto simp: Delete_def)
  qed (insert assms DoDelete sends, simp add: Delete_def)
next
  case (DoSetError verb ref err)
  then have "st' = st\<lparr>sy_api := SetError verb ref err (sy_api st)\<rparr>" using assms(5) by simp
  then show ?thesis
    using assms(1) sys_ok_api [of "SetError verb ref err (sy_api st)" st] by (simp add: SetError_def)
next
  case (GoList ref c now start)
  moreover have "fk_rv (sy_api st) < 2 ^ 63" using assms(3) by simp
  ultimately show ?thesis using go_list_ok [OF assms(1) _ assms(2)] assms(5) by fastforce
next
  case (DoDeliver i lost)
  then show ?thesis using deliver_next_ok [OF assms(1)] assms(5) by simp
next
  case (DoCloseWatches ref)
  then show ?thesis using close_watches_ok [OF assms(1)] assms(5) by auto
next
  case (GoWatch ref c e1 e2 now)
  then show ?thesis using go_watch_ok [OF assms(1)] assms(5) by simp
next
  case (GoGet ref c e now)
  then show ?thesis using go_get_ok [OF assms(1)] assms(5) by simp
next
  case (GoEvent ref now)
  then show ?thesis using go_event_ok [OF assms(1)] assms(5) by simp
next
  case (GoClosed ref now)
  then have "manager_step ref (WatchClosed now) st = Some st'"
    using assms(5) by (auto simp: go_closed_def split: option.splits if_splits)
  from quiet_step_ok [OF assms(1) this] show ?thesis by simp
next
  case (GoOther ref inp)
  then have "manager_step ref inp st = Some st'" "without_api inp" using assms(5) by (auto split: if_splits)
  from quiet_step_ok [OF assms(1) this(1)] this(2) show ?thesis by simp
qed (insert assms(4), simp_all)

lemma fake_run_ok:
  assumes "sys_ok st" and "0 \<le> fk_rv (sy_api st)" and "fk_rv (sy_api st) + int (length acts) < 2 ^ 62" and "list_all faithful acts"
    and "fake_run nf True acts st = Some st'"
  shows "sys_ok st'"
  using assms
proof (induction acts arbitrary: st)
  case (Cons act acts)
  then obtain st1 where st1: "fake_step nf True act st = Some st1" "fake_run nf True acts st1 = Some st'"
    by (auto split: option.splits)
  have "sys_ok st1 \<and> fk_rv (sy_api st) \<le> fk_rv (sy_api st1) \<and> fk_rv (sy_api st1) \<le> fk_rv (sy_api st) + 1"
    using Cons.prems st1(1) by (intro fake_step_ok [OF Cons.prems(1,2)]) simp_all
  then show ?case using Cons.IH [OF _ _ _ _ st1(2)] Cons.prems by simp
qed simp

lemma fake_start_ok:
  assumes "InitialBackoff opts < 2 ^ 62" and "MaxBackoff opts < 2 ^ 62"
  shows "sys_ok (fake_start refs opts)"
proof -
  have "run_ok opts refs [] (Start (NewManager refs opts))"
    by (rule steps_run_ok [OF _ _ assms]) (simp_all add: booted_def)
  then have "manager_ok (Start (NewManager refs opts))"
    using opts_ok_withDefaults [OF assms] by (auto simp: manager_ok_def)
  moreover have "ctrl_of ref (Start (NewManager refs opts)) \<noteq> Some Watching \<and> ctrl_of ref (Start (NewManager refs opts)) \<noteq> Some (Opening rv)" for ref rv
    using booted_simps(3) [of refs opts] by (simp add: ctrl_of_def booted_def new_goroutine_def)
  ultimately show ?thesis
    by (auto simp: sys_ok_def frame_ok_def fake_start_def api_ok_def watches_ok_def sends_ok_def follows_def fk_New_def)
qed

text \<open>
  C11: no change is lost, for a sequential test. One goroutine creates, updates and deletes Secrets,
  closes watches and makes calls fail, and sends the event of each change before it makes the next
  (the flag of the run is set); it makes no silent change and uses neither \<^verbatim>\<open>SendEvent\<close> nor
  \<^verbatim>\<open>SetListResult\<close> (the actions are faithful). The manager runs against the API meanwhile: its calls
  and the delivery of the events interleave in any way with the changes, between a list and its watch
  too. Then, in every state in which the manager has an open watch of a Secret, applying the events
  that are on their way turns the snapshot into the Secret of the API; when there are none, the
  snapshot is that Secret. The first condition is needed: the run of two concurrent changes at the end
  of this theory loses one.
\<close>

theorem no_change_lost:
  assumes "fake_run nf True acts (fake_start refs opts) = Some st" and "list_all faithful acts" and "length acts < 2 ^ 61"
    and "InitialBackoff opts < 2 ^ 62" and "MaxBackoff opts < 2 ^ 62"
    and "sy_watch st ref = Some a" and "\<not> fw_closed (fk_heap (sy_api st) ! a)"
  shows "ctrl_of ref (sy_manager st) = Some Watching
    \<and> fold (\<lambda>ev. observe ref (WatchEvent ev 0)) (pending st a) (Manager_Secret (sy_manager st) ref) = snapshot_of (fk_secrets (sy_api st) ref)"
proof -
  have "sys_ok st"
    using fake_run_ok [OF fake_start_ok [OF assms(4,5)] _ _ assms(2,1)] assms(3) by (simp add: fake_start_def fk_New_def)
  then have fol: "follows ref st" by (simp add: sys_ok_def)
  then show ?thesis
    using followsD(2,3) [OF fol assms(6,7)] followsD(4) [OF fol] assms(6) leads_to_observe by blast
qed

section \<open>Examples\<close>

lemmas fake_eval = Apply_def Delete_def fake_start_def fk_New_def fk_apply_def fk_delete_def fk_record_def enqueue_send_def deliver_next_def
  fw_send_def fw_capacity_def go_list_def go_watch_def go_event_def fk_ListSecret_def fk_WatchSecret_def note_call_def
  newFakeWatch_def manager_step_def ctrl_of_def on_watch_def call_of_def pending_def in_flight_def

lemma ex_numbers: "int_string 100 = ''100''" "int_string 101 = ''101''" "int_string 102 = ''102''"
  by code_simp+

lemma ex_parsed: "Atoi ''100'' = Some 100" "Atoi ''101'' = Some 101"
  using Atoi_int_string [of 100] Atoi_int_string [of 101] by (simp_all add: ex_numbers)

text \<open>The Secret is updated after the list and before the watch; the watch replays the update.\<close>

definition ex_acts :: "fake_action list" where
  "ex_acts = [GoOther ex_ref (CtxCheck False), DoApply ex_ref [''k'' \<mapsto> ''v''] True, GoList ex_ref False 1 2,
     DoApply ex_ref [''k'' \<mapsto> ''w''] True, GoWatch ex_ref False 0 0 3, GoEvent ex_ref 4]"

lemma ex_acts_run: "case fake_run nf True ex_acts (fake_start [ex_ref] ex_opts) of None \<Rightarrow> False
   | Some st \<Rightarrow> sy_watch st ex_ref = Some 0 \<and> \<not> fw_closed (fk_heap (sy_api st) ! 0) \<and> pending st 0 = []
     \<and> map_option s_Data (fk_secrets (sy_api st) ex_ref) = Some [''k'' \<mapsto> ''w'']"
  by (simp add: ex_acts_def fake_eval run_eval ex_defs Let_def ex_numbers ex_parsed)

definition ex_not_found :: "string \<Rightarrow> api_error" where
  "ex_not_found name = \<lparr>e_Text = ''secrets not found: '' @ name, e_Status = None, e_NotFound = True\<rparr>"

theorem no_change_lost_witness:
  "\<exists>st. fake_run ex_not_found True ex_acts (fake_start [ex_ref] ex_opts) = Some st
     \<and> sec_Data (Manager_Secret (sy_manager st) ex_ref) = [''k'' \<mapsto> ''w'']"
proof -
  obtain st where st: "fake_run ex_not_found True ex_acts (fake_start [ex_ref] ex_opts) = Some st"
      "sy_watch st ex_ref = Some 0" "\<not> fw_closed (fk_heap (sy_api st) ! 0)" "pending st 0 = []"
      "map_option s_Data (fk_secrets (sy_api st) ex_ref) = Some [''k'' \<mapsto> ''w'']"
    using ex_acts_run [of ex_not_found] by (auto split: option.splits)
  have "list_all faithful ex_acts" "length ex_acts < 2 ^ 61" by (simp_all add: ex_acts_def)
  from no_change_lost [OF st(1) this ex_opts_small st(2,3)] st(4)
  have "Manager_Secret (sy_manager st) ex_ref = snapshot_of (fk_secrets (sy_api st) ex_ref)" by simp
  with st(1,5) show ?thesis by (auto simp: snapshot_of_def)
qed

text \<open>
  With changes from two goroutines the events can reach a watch in the wrong order, since they are
  sent without the lock: here the manager ends with the older value and nothing more is to come.
\<close>

definition ex_race :: "fake_action list" where
  "ex_race = [GoOther ex_ref (CtxCheck False), GoList ex_ref False 1 2, GoWatch ex_ref False 0 0 3,
     DoApply ex_ref [''k'' \<mapsto> ''v''] True, DoApply ex_ref [''k'' \<mapsto> ''w''] True,
     DoDeliver 1 False, DoDeliver 0 False, GoEvent ex_ref 4, GoEvent ex_ref 5]"

lemma ex_race_run: "case fake_run nf False ex_race (fake_start [ex_ref] ex_opts) of None \<Rightarrow> False
   | Some st \<Rightarrow> sy_watch st ex_ref = Some 0 \<and> \<not> fw_closed (fk_heap (sy_api st) ! 0) \<and> pending st 0 = []
     \<and> sec_Data (Manager_Secret (sy_manager st) ex_ref) ''k'' = Some ''v''
     \<and> map_option s_Data (fk_secrets (sy_api st) ex_ref) = Some [''k'' \<mapsto> ''w'']"
  by (simp add: ex_race_def fake_eval run_eval ex_defs Let_def ex_numbers ex_parsed Manager_Secret_def snapshot_def)

end
