(* ===== verification/Go_Url.thy ===== *)
theory Go_Url
  imports Go_Http Go_Netip
begin

text \<open>
  The rest of \<^verbatim>\<open>net/url\<close>, and \<^verbatim>\<open>path\<close>, as the agent uses them: \<^verbatim>\<open>url.Parse\<close>, \<^verbatim>\<open>URL.String\<close>,
  \<^verbatim>\<open>URL.JoinPath\<close> and \<^verbatim>\<open>URL.RequestURI\<close>, and the lexical operations on slash-separated paths,
  which are also those of \<^verbatim>\<open>path/filepath\<close> on Unix. A URL with a user is only ever rejected,
  so that user is a flag. The results are \<^const>\<open>None\<close> where Go returns an error.
\<close>

section \<open>Paths\<close>

definition clean_step :: "bool \<Rightarrow> string list \<Rightarrow> string \<Rightarrow> string list" where
  "clean_step rooted stack seg =
     (if seg = [] \<or> seg = ''.'' then stack
      else if seg = ''..'' then
        (case stack of
           t # ts \<Rightarrow> if t = ''..'' then ''..'' # stack else ts
         | [] \<Rightarrow> if rooted then [] else [''..''])
      else seg # stack)"

definition clean_segs :: "bool \<Rightarrow> string list \<Rightarrow> string list" where
  "clean_segs rooted segs = rev (fold (\<lambda>seg stack. clean_step rooted stack seg) segs [])"

definition path_Clean :: "string \<Rightarrow> string" where
  "path_Clean p =
     (let rooted = HasPrefix p ''/'';
          out = (if rooted then ''/'' else []) @ Join (clean_segs rooted (Split p (CHR ''/''))) ''/'' in
      if out = [] then ''.'' else out)"

definition path_Join :: "string list \<Rightarrow> string" where
  "path_Join elems =
     (let es = dropWhile (\<lambda>e. e = []) elems in if es = [] then [] else path_Clean (Join es ''/''))"

definition path_IsAbs :: "string \<Rightarrow> bool" where
  "path_IsAbs p = HasPrefix p ''/''"

text \<open>\<^verbatim>\<open>filepath.Split\<close> and \<^verbatim>\<open>filepath.Dir\<close>.\<close>

definition path_Split :: "string \<Rightarrow> string \<times> string" where
  "path_Split p = (case LastIndexByte p (CHR ''/'') of
      None \<Rightarrow> ([], p)
    | Some i \<Rightarrow> (take (Suc i) p, drop (Suc i) p))"

definition path_Dir :: "string \<Rightarrow> string" where
  "path_Dir p = path_Clean (fst (path_Split p))"

section \<open>URLs\<close>

record Full_URL = URL +
  url_Scheme :: string
  url_Opaque :: string
  url_hasUser :: bool
  url_Host :: string
  url_Fragment :: string

definition zero_URL :: Full_URL where
  "zero_URL = \<lparr>url_Path = [], url_RawPath = [], url_ForceQuery = False, url_RawQuery = [],
     url_Scheme = [], url_Opaque = [], url_hasUser = False, url_Host = [], url_Fragment = []\<rparr>"

text \<open>\<^verbatim>\<open>setPath\<close>: the raw path is kept only where it is not the default escaping.\<close>

definition setPath :: "string \<Rightarrow> 'a URL_scheme \<Rightarrow> 'a URL_scheme option" where
  "setPath p u = (case url_unescape p of
      None \<Rightarrow> None
    | Some path \<Rightarrow> Some (u\<lparr>url_Path := path, url_RawPath := (if p = url_escape path then [] else p)\<rparr>))"

definition host_char :: "char \<Rightarrow> bool" where
  "host_char c \<longleftrightarrow> is_alnum c \<or> c \<in> set ''-_.~!$&()*+,;=:[]<>'' \<or> c = CHR 0x22 \<or> c = CHR 0x27"

text \<open>\<^verbatim>\<open>unescape\<close> for hosts: only bytes outside ASCII and the percent sign may be escaped.\<close>

fun host_unescape :: "string \<Rightarrow> string option" where
  "host_unescape [] = Some []"
| "host_unescape (c # cs) =
     (if c = CHR ''%'' then
        (case cs of
           h # l # rest \<Rightarrow>
             (case (unhex h, unhex l) of
                (Some a, Some b) \<Rightarrow>
                  if a < 8 \<and> [h, l] \<noteq> ''25'' then None
                  else map_option ((#) (chr_of (a * 16 + b))) (host_unescape rest)
              | _ \<Rightarrow> None)
         | _ \<Rightarrow> None)
      else if byte_of c < 0x80 \<and> \<not> host_char c then None
      else map_option ((#) c) (host_unescape cs))"

text \<open>The same for the zone of an IPv6 literal.\<close>

fun zone_unescape :: "string \<Rightarrow> string option" where
  "zone_unescape [] = Some []"
| "zone_unescape (c # cs) =
     (if c = CHR ''%'' then
        (case cs of
           h # l # rest \<Rightarrow>
             (case (unhex h, unhex l) of
                (Some a, Some b) \<Rightarrow>
                  (let v = chr_of (a * 16 + b) in
                   if [h, l] \<noteq> ''25'' \<and> v \<noteq> CHR '' '' \<and> \<not> host_char v then None
                   else map_option ((#) v) (zone_unescape rest))
              | _ \<Rightarrow> None)
         | _ \<Rightarrow> None)
      else if byte_of c < 0x80 \<and> \<not> host_char c then None
      else map_option ((#) c) (zone_unescape cs))"

fun host_escape :: "string \<Rightarrow> string" where
  "host_escape [] = []"
| "host_escape (c # cs) =
     (if host_char c then c # host_escape cs
      else CHR ''%'' # upper_hex (byte_of c div 16) # upper_hex (byte_of c mod 16) # host_escape cs)"

definition validOptionalPort :: "string \<Rightarrow> bool" where
  "validOptionalPort port = (case port of [] \<Rightarrow> True | c # ds \<Rightarrow> c = CHR '':'' \<and> list_all is_digit ds)"

fun Index :: "string \<Rightarrow> string \<Rightarrow> nat option" where
  "Index s pat = (if HasPrefix s pat then Some 0
     else case s of [] \<Rightarrow> None | c # cs \<Rightarrow> map_option Suc (Index cs pat))"

declare Index.simps [simp del]

definition ip_literal :: "string \<Rightarrow> string option" where
  "ip_literal hostname =
     Option.bind (case Index hostname ''%25'' of
        Some z \<Rightarrow> Option.bind (host_unescape (take z hostname)) (\<lambda>a.
          map_option (\<lambda>b. a @ b) (zone_unescape (drop z hostname)))
      | None \<Rightarrow> host_unescape hostname) (\<lambda>h. case ParseAddr h of
        None \<Rightarrow> None
      | Some a \<Rightarrow> if Is4 a then None else Some h)"

definition parseHost :: "string \<Rightarrow> string option" where
  "parseHost host = (case LastIndexByte host (CHR ''['') of
      Some i \<Rightarrow> (case LastIndexByte host (CHR '']'') of
          None \<Rightarrow> None
        | Some j \<Rightarrow>
          if j < i then None
          else if \<not> validOptionalPort (drop (Suc j) host) then None
          else map_option (\<lambda>h. ''['' @ h @ '']'' @ drop (Suc j) host)
                 (ip_literal (drop (Suc i) (take j host))))
    | None \<Rightarrow> (case IndexByte host (CHR '':'') of
          Some i \<Rightarrow> if validOptionalPort (drop i host) then host_unescape host else None
        | None \<Rightarrow> host_unescape host))"

definition userinfo_char :: "char \<Rightarrow> bool" where
  "userinfo_char c \<longleftrightarrow> is_alnum c \<or> c \<in> set ''-._:~!$&()*+,;=%@'' \<or> c = CHR 0x27"

text \<open>The pair says whether there is a user, and gives the host.\<close>

definition parseAuthority :: "string \<Rightarrow> (bool \<times> string) option" where
  "parseAuthority authority = (case LastIndexByte authority (CHR ''@'') of
      None \<Rightarrow> map_option (Pair False) (parseHost authority)
    | Some i \<Rightarrow> (case parseHost (drop (Suc i) authority) of
        None \<Rightarrow> None
      | Some h \<Rightarrow>
        if \<not> list_all userinfo_char (take i authority) \<or> url_unescape (take i authority) = None then None
        else Some (True, h)))"

text \<open>\<^verbatim>\<open>getScheme\<close>: scheme and rest; \<open>acc\<close> is the reversed prefix that was read.\<close>

fun scheme_loop :: "string \<Rightarrow> string \<Rightarrow> string \<Rightarrow> (string \<times> string) option" where
  "scheme_loop raw acc [] = Some ([], raw)"
| "scheme_loop raw acc (c # cs) =
     (if is_lower c \<or> is_upper c then scheme_loop raw (c # acc) cs
      else if is_digit c \<or> c \<in> set ''+-.'' then
        (if acc = [] then Some ([], raw) else scheme_loop raw (c # acc) cs)
      else if c = CHR '':'' then (if acc = [] then None else Some (rev acc, cs))
      else Some ([], raw))"

definition getScheme :: "string \<Rightarrow> (string \<times> string) option" where
  "getScheme raw = scheme_loop raw [] raw"

definition has_ctl :: "string \<Rightarrow> bool" where
  "has_ctl s \<longleftrightarrow> list_ex (\<lambda>c. byte_of c < 0x20 \<or> c = CHR 0x7F) s"

definition split_query :: "string \<Rightarrow> string \<times> bool \<times> string" where
  "split_query rest =
     (if HasSuffix rest ''?'' \<and> count_list rest (CHR ''?'') = 1 then (butlast rest, True, [])
      else case Cut rest (CHR ''?'') of (a, b, _) \<Rightarrow> (a, False, b))"

definition split_authority :: "string \<Rightarrow> string \<times> string" where
  "split_authority s = (takeWhile (\<lambda>c. c \<noteq> CHR ''/'') s, dropWhile (\<lambda>c. c \<noteq> CHR ''/'') s)"

text \<open>\<^verbatim>\<open>parse\<close>; \<open>viaRequest\<close> is set for a request line.\<close>

definition url_parse :: "bool \<Rightarrow> string \<Rightarrow> Full_URL option" where
  "url_parse viaRequest raw =
     (if has_ctl raw \<or> raw = [] \<and> viaRequest then None
      else if raw = ''*'' then Some (zero_URL\<lparr>url_Path := ''*''\<rparr>)
      else case getScheme raw of
        None \<Rightarrow> None
      | Some (scheme0, rest0) \<Rightarrow>
        (let scheme = map lower_ascii scheme0;
             (rest, force, query) = split_query rest0;
             u = zero_URL\<lparr>url_Scheme := scheme, url_ForceQuery := force, url_RawQuery := query\<rparr>
         in if \<not> HasPrefix rest ''/'' \<and> scheme \<noteq> [] then Some (u\<lparr>url_Opaque := rest\<rparr>)
            else if \<not> HasPrefix rest ''/'' \<and> (viaRequest
                    \<or> CHR '':'' \<in> set (takeWhile (\<lambda>c. c \<noteq> CHR ''/'') rest)) then None
            else if (scheme \<noteq> [] \<or> \<not> viaRequest \<and> \<not> HasPrefix rest ''///'') \<and> HasPrefix rest ''//'' then
              (let (authority, path) = split_authority (drop 2 rest) in
               case parseAuthority authority of
                 None \<Rightarrow> None
               | Some (user, host) \<Rightarrow> setPath path (u\<lparr>url_hasUser := user, url_Host := host\<rparr>))
            else setPath rest u))"

definition url_Parse :: "string \<Rightarrow> Full_URL option" where
  "url_Parse raw = (case Cut raw (CHR ''#'') of (u, frag, _) \<Rightarrow>
     (case url_parse False u of
        None \<Rightarrow> None
      | Some url \<Rightarrow> (case url_unescape frag of
          None \<Rightarrow> None
        | Some f \<Rightarrow> Some (url\<lparr>url_Fragment := f\<rparr>))))"

definition ParseRequestURI :: "string \<Rightarrow> Full_URL option" where
  "ParseRequestURI raw = url_parse True raw"

definition query_suffix :: "'a URL_scheme \<Rightarrow> string" where
  "query_suffix u = (if url_ForceQuery u \<or> url_RawQuery u \<noteq> [] then ''?'' @ url_RawQuery u else [])"

definition truncate_URL :: "'a URL_scheme \<Rightarrow> URL" where
  "truncate_URL u = URL.truncate u"

text \<open>\<^verbatim>\<open>URL.String\<close> of a URL that has a scheme and a host and neither a user nor a fragment.\<close>

definition url_String :: "Full_URL \<Rightarrow> string" where
  "url_String u =
     url_Scheme u @ ''://'' @ host_escape (url_Host u)
     @ (let path = EscapedPath (truncate_URL u) in
        (if path \<noteq> [] \<and> hd path \<noteq> CHR ''/'' then ''/'' else []) @ path)
     @ query_suffix u"

text \<open>\<^verbatim>\<open>URL.JoinPath\<close>; the URL keeps its old path where the new one has a bad escape.\<close>

definition JoinPath :: "Full_URL \<Rightarrow> string list \<Rightarrow> Full_URL" where
  "JoinPath u elems =
     (let base = EscapedPath (truncate_URL u);
          p0 = (if HasPrefix base ''/'' then path_Join (base # elems)
                else drop 1 (path_Join ((''/'' @ base) # elems)));
          p = (if HasSuffix (last (base # elems)) ''/'' \<and> \<not> HasSuffix p0 ''/'' then p0 @ ''/'' else p0)
      in case setPath p u of None \<Rightarrow> u | Some u' \<Rightarrow> u')"

definition RequestURI :: "Full_URL \<Rightarrow> string" where
  "RequestURI u =
     (let path = EscapedPath (truncate_URL u) in (if path = [] then ''/'' else path) @ query_suffix u)"

section \<open>Laws\<close>

lemma url_escape_id: "list_all (\<lambda>c. \<not> shouldEscape c) p \<Longrightarrow> url_escape p = p"
  by (induction p) auto

lemma url_unescape_id: "CHR ''%'' \<notin> set p \<Longrightarrow> url_unescape p = Some p"
  by (induction p) auto

lemma host_escape_id: "list_all host_char h \<Longrightarrow> host_escape h = h"
  by (induction h) auto

text \<open>A path of characters that need no escaping is its own text.\<close>

definition path_plain :: "string \<Rightarrow> bool" where
  "path_plain p \<longleftrightarrow> list_all (\<lambda>c. \<not> shouldEscape c) p"

lemma path_plain_no_percent: "path_plain p \<Longrightarrow> CHR ''%'' \<notin> set p"
  by (auto simp: path_plain_def list_all_iff shouldEscape_def is_alnum_def is_lower_def is_upper_def is_digit_def)

lemma setPath_plain [simp]:
  "path_plain p \<Longrightarrow> setPath p u = Some (u\<lparr>url_Path := p, url_RawPath := []\<rparr>)"
  by (simp add: setPath_def url_unescape_id [OF path_plain_no_percent] url_escape_id path_plain_def)

lemma EscapedPath_plain: "path_plain (url_Path u) \<Longrightarrow> url_RawPath u = [] \<Longrightarrow> EscapedPath u = url_Path u"
  by (auto simp: EscapedPath_def url_escape_id path_plain_def)

lemma truncate_URL_sel [simp]:
  "url_Path (truncate_URL u) = url_Path u" "url_RawPath (truncate_URL u) = url_RawPath u"
  "url_ForceQuery (truncate_URL u) = url_ForceQuery u" "url_RawQuery (truncate_URL u) = url_RawQuery u"
  by (simp_all add: truncate_URL_def URL.defs)

lemma clean_step_Nil [simp]: "clean_step r st [] = st"
  by (simp add: clean_step_def)

lemma fold_clean_plain:
  "list_all (\<lambda>s. s \<noteq> [] \<and> s \<noteq> ''.'' \<and> s \<noteq> ''..'') segs \<Longrightarrow>
    fold (\<lambda>seg stack. clean_step r stack seg) segs st = rev segs @ st"
  by (induction segs arbitrary: st) (auto simp: clean_step_def)

lemma clean_segs_plain:
  "list_all (\<lambda>s. s \<noteq> [] \<and> s \<noteq> ''.'' \<and> s \<noteq> ''..'') segs \<Longrightarrow> clean_segs r ([] # segs) = segs"
  "list_all (\<lambda>s. s \<noteq> [] \<and> s \<noteq> ''.'' \<and> s \<noteq> ''..'') segs \<Longrightarrow> clean_segs r segs = segs"
  by (simp_all add: clean_segs_def fold_clean_plain)

text \<open>Cleaning a cleaned rooted path changes nothing, and it has no empty, \<open>.\<close> or \<open>..\<close> element.\<close>

lemma clean_step_rooted:
  "list_all (\<lambda>s. s \<noteq> [] \<and> s \<noteq> ''.'' \<and> s \<noteq> ''..'') st \<Longrightarrow>
    list_all (\<lambda>s. s \<noteq> [] \<and> s \<noteq> ''.'' \<and> s \<noteq> ''..'') (clean_step True st seg)"
  by (cases st) (auto simp: clean_step_def)

lemma clean_segs_rooted: "list_all (\<lambda>s. s \<noteq> [] \<and> s \<noteq> ''.'' \<and> s \<noteq> ''..'') (clean_segs True segs)"
proof -
  have "list_all (\<lambda>s. s \<noteq> [] \<and> s \<noteq> ''.'' \<and> s \<noteq> ''..'') st \<Longrightarrow>
    list_all (\<lambda>s. s \<noteq> [] \<and> s \<noteq> ''.'' \<and> s \<noteq> ''..'') (fold (\<lambda>seg stack. clean_step True stack seg) segs st)" for st
    by (induction segs arbitrary: st) (simp_all add: clean_step_rooted)
  then show ?thesis by (simp add: clean_segs_def list_all_rev)
qed

lemma Split_Join:
  "segs \<noteq> [] \<Longrightarrow> list_all (\<lambda>s. CHR ''/'' \<notin> set s) segs \<Longrightarrow> Split (Join segs ''/'') (CHR ''/'') = segs"
proof (induction segs rule: induct_list012)
  case (2 x)
  then show ?case by (simp add: Split_absent)
next
  case (3 x y zs)
  then show ?case by (simp add: Split_append)
qed simp

lemma Split_elems: "seg \<in> set (Split s c) \<Longrightarrow> c \<notin> set seg"
  by (induction s c arbitrary: seg rule: Split.induct) (auto split: list.splits if_splits)

lemma clean_segs_subset: "set (clean_segs r segs) \<subseteq> set segs \<union> {''..''}"
proof -
  have "set (fold (\<lambda>seg stack. clean_step r stack seg) segs st) \<subseteq> set segs \<union> {''..''} \<union> set st" for st
  proof (induction segs arbitrary: st)
    case (Cons seg segs)
    have "set (clean_step r st seg) \<subseteq> insert seg (set st \<union> {''..''})"
      by (cases st) (auto simp: clean_step_def)
    with Cons.IH [of "clean_step r st seg"] show ?case by auto
  qed auto
  from this [of "[]"] show ?thesis by (simp add: clean_segs_def)
qed

lemma path_Clean_rooted:
  "HasPrefix p ''/'' \<Longrightarrow> path_Clean p = ''/'' @ Join (clean_segs True (Split p (CHR ''/''))) ''/''"
  by (simp add: path_Clean_def Let_def)

lemma path_Clean_abs: "path_IsAbs p \<Longrightarrow> path_IsAbs (path_Clean p)"
  by (simp add: path_IsAbs_def path_Clean_rooted HasPrefix_def)

lemma path_Clean_idem:
  assumes "path_IsAbs p"
  shows "path_Clean (path_Clean p) = path_Clean p"
proof -
  let ?segs = "clean_segs True (Split p (CHR ''/''))"
  have p: "path_Clean p = CHR ''/'' # Join ?segs ''/''"
    using assms by (simp add: path_IsAbs_def path_Clean_rooted)
  have slash: "list_all (\<lambda>s. CHR ''/'' \<notin> set s) ?segs"
    using clean_segs_subset [of True "Split p (CHR ''/'')"] Split_elems [of _ p "CHR ''/''"]
    by (fastforce simp: list_all_iff)
  have "clean_segs True (Split (CHR ''/'' # Join ?segs ''/'') (CHR ''/'')) = ?segs"
  proof (cases "?segs = []")
    case True
    then show ?thesis by (simp add: clean_segs_def)
  next
    case False
    then have "Split (CHR ''/'' # Join ?segs ''/'') (CHR ''/'') = [] # ?segs"
      by (simp add: Split_Join [OF False slash])
    then show ?thesis using clean_segs_plain(1) [OF clean_segs_rooted] by simp
  qed
  then show ?thesis by (simp add: p path_Clean_rooted HasPrefix_def)
qed

end
