(* ===== verification/Go_Json.thy ===== *)
theory Go_Json
  imports Go_Base64
begin

text \<open>
  \<^verbatim>\<open>encoding/json\<close> as the agent uses it: a \<^verbatim>\<open>Decoder\<close> reads one JSON value from a stream
  into a \<^verbatim>\<open>map[string][]byte\<close>, and the stream must hold nothing else. The first part is the
  scanner, the second the conversion: a string is base64, an array is a list of bytes,
  \<^verbatim>\<open>null\<close> is the zero value, anything else is a type error. Strings are unquoted as Go does it,
  with surrogate pairs and with the replacement character for what is no UTF-8. All errors are one
  value here. The recursion has fuel; \<open>jvalue_fuel\<close> shows that what \<open>decode_value\<close> gives is enough.
\<close>

section \<open>Strings\<close>

definition is_ws :: "char \<Rightarrow> bool" where
  "is_ws c \<longleftrightarrow> c = CHR 0x20 \<or> c = CHR 0x09 \<or> c = CHR 0x0D \<or> c = CHR 0x0A"

definition skip_ws :: "string \<Rightarrow> string" where
  "skip_ws s = dropWhile is_ws s"

definition hex4 :: "string \<Rightarrow> nat option" where
  "hex4 s = fold (\<lambda>c acc. case acc of None \<Rightarrow> None | Some a \<Rightarrow>
      if is_digit c then Some (a * 16 + (byte_of c - 48))
      else if 97 \<le> byte_of c \<and> byte_of c \<le> 102 then Some (a * 16 + (byte_of c - 87))
      else if 65 \<le> byte_of c \<and> byte_of c \<le> 70 then Some (a * 16 + (byte_of c - 55))
      else None) s (Some 0)"

text \<open>The raw text up to the closing quote, and what follows it.\<close>

fun scan_string :: "string \<Rightarrow> (string \<times> string) option" where
  "scan_string [] = None"
| "scan_string (c # cs) =
     (if c = CHR 0x22 then Some ([], cs)
      else if c = CHR 0x5C then
        (case cs of
           [] \<Rightarrow> None
         | e # es \<Rightarrow>
           if e = CHR ''u'' then
             (if length es < 4 \<or> hex4 (take 4 es) = None then None
              else map_option (apfst (\<lambda>r. c # e # r)) (scan_string es))
           else if e \<in> set ''bfnrt/'' \<or> e = CHR 0x22 \<or> e = CHR 0x5C
           then map_option (apfst (\<lambda>r. c # e # r)) (scan_string es)
           else None)
      else if byte_of c < 0x20 then None
      else map_option (apfst ((#) c)) (scan_string cs))"

definition EncodeRune :: "nat \<Rightarrow> string" where
  "EncodeRune r0 =
     (let r = (if 0xD800 \<le> r0 \<and> r0 < 0xE000 \<or> 0x10FFFF < r0 then RuneError else r0) in
      if r < 0x80 then [chr_of r]
      else if r < 0x800 then [chr_of (0xC0 + r div 64), chr_of (0x80 + r mod 64)]
      else if r < 0x10000 then [chr_of (0xE0 + r div 4096), chr_of (0x80 + r div 64 mod 64), chr_of (0x80 + r mod 64)]
      else [chr_of (0xF0 + r div 262144), chr_of (0x80 + r div 4096 mod 64), chr_of (0x80 + r div 64 mod 64),
            chr_of (0x80 + r mod 64)])"

definition unescape :: "char \<Rightarrow> char" where
  "unescape e =
     (if e = CHR ''b'' then CHR 0x08 else if e = CHR ''f'' then CHR 0x0C else if e = CHR ''n'' then CHR 0x0A
      else if e = CHR ''r'' then CHR 0x0D else if e = CHR ''t'' then CHR 0x09 else e)"

text \<open>The low half of a surrogate pair at the start of the text.\<close>

definition low_surrogate :: "string \<Rightarrow> nat option" where
  "low_surrogate s =
     (if take 2 s = [CHR 0x5C, CHR ''u''] \<and> 6 \<le> length s then
        (case hex4 (take 4 (drop 2 s)) of
           Some r \<Rightarrow> if 0xDC00 \<le> r \<and> r < 0xE000 then Some r else None
         | None \<Rightarrow> None)
      else None)"

function unquote :: "string \<Rightarrow> string" where
  "unquote s = (case s of
      [] \<Rightarrow> []
    | c # cs \<Rightarrow>
      if c = CHR 0x5C then
        (case cs of
           [] \<Rightarrow> []
         | e # es \<Rightarrow>
           if e = CHR ''u'' then
             (let r = (case hex4 (take 4 es) of None \<Rightarrow> RuneError | Some r \<Rightarrow> r);
                  rest = drop 4 es in
              if 0xD800 \<le> r \<and> r < 0xDC00 then
                (case low_surrogate rest of
                   Some l \<Rightarrow> EncodeRune ((r - 0xD800) * 0x400 + (l - 0xDC00) + 0x10000) @ unquote (drop 6 rest)
                 | None \<Rightarrow> EncodeRune RuneError @ unquote rest)
              else EncodeRune r @ unquote rest)
           else unescape e # unquote es)
      else if byte_of c < 0x80 then c # unquote cs
      else EncodeRune (fst (DecodeRune s)) @ unquote (drop (snd (DecodeRune s)) s))"
  by pat_completeness auto
termination
proof (relation "measure length", goal_cases)
  case (6 s c cs)
  then show ?case using DecodeRune_size_pos [of s] by simp
qed auto

declare unquote.simps [simp del]

definition json_string :: "string \<Rightarrow> (string \<times> string) option" where
  "json_string s = map_option (apfst unquote) (scan_string s)"

section \<open>Values\<close>

datatype json = JNull | JBool bool | JNum string | JStr string | JArr "json list" | JObj "(string \<times> json) list"

definition digits1 :: "string \<Rightarrow> (string \<times> string) option" where
  "digits1 s = (if takeWhile is_digit s = [] then None else Some (takeWhile is_digit s, dropWhile is_digit s))"

definition json_int :: "string \<Rightarrow> (string \<times> string) option" where
  "json_int s = (case s of
      [] \<Rightarrow> None
    | c # cs \<Rightarrow> if c = CHR ''0'' then Some ([c], cs) else digits1 s)"

definition json_frac :: "string \<Rightarrow> (string \<times> string) option" where
  "json_frac s = (case s of
      c # cs \<Rightarrow> if c = CHR ''.'' then map_option (apfst ((#) c)) (digits1 cs) else Some ([], s)
    | [] \<Rightarrow> Some ([], []))"

definition json_exp :: "string \<Rightarrow> (string \<times> string) option" where
  "json_exp s = (case s of
      c # cs \<Rightarrow>
        if c = CHR ''e'' \<or> c = CHR ''E'' then
          (case cs of
             d # ds \<Rightarrow> if d = CHR ''+'' \<or> d = CHR ''-'' then map_option (apfst (\<lambda>x. c # d # x)) (digits1 ds)
               else map_option (apfst ((#) c)) (digits1 cs)
           | [] \<Rightarrow> None)
        else Some ([], s)
    | [] \<Rightarrow> Some ([], []))"

definition json_number :: "string \<Rightarrow> (string \<times> string) option" where
  "json_number s =
     (let neg = (s \<noteq> [] \<and> hd s = CHR ''-'') in
      case json_int (if neg then tl s else s) of
        None \<Rightarrow> None
      | Some (a, s1) \<Rightarrow> (case json_frac s1 of
          None \<Rightarrow> None
        | Some (b, s2) \<Rightarrow> (case json_exp s2 of
            None \<Rightarrow> None
          | Some (c, s3) \<Rightarrow> Some ((if neg then ''-'' else []) @ a @ b @ c, s3))))"

fun jvalue :: "nat \<Rightarrow> string \<Rightarrow> (json \<times> string) option"
  and jmembers :: "nat \<Rightarrow> string \<Rightarrow> ((string \<times> json) list \<times> string) option"
  and jelems :: "nat \<Rightarrow> string \<Rightarrow> (json list \<times> string) option" where
  "jvalue 0 s = None"
| "jvalue (Suc n) s = (case skip_ws s of
      [] \<Rightarrow> None
    | c # cs \<Rightarrow>
      if c = CHR ''{'' then
        (case skip_ws cs of
           [] \<Rightarrow> None
         | d # ds \<Rightarrow> if d = CHR ''}'' then Some (JObj [], ds) else map_option (apfst JObj) (jmembers n cs))
      else if c = CHR ''['' then
        (case skip_ws cs of
           [] \<Rightarrow> None
         | d # ds \<Rightarrow> if d = CHR '']'' then Some (JArr [], ds) else map_option (apfst JArr) (jelems n cs))
      else if c = CHR 0x22 then map_option (apfst JStr) (json_string cs)
      else if take 4 (c # cs) = ''true'' then Some (JBool True, drop 4 (c # cs))
      else if take 5 (c # cs) = ''false'' then Some (JBool False, drop 5 (c # cs))
      else if take 4 (c # cs) = ''null'' then Some (JNull, drop 4 (c # cs))
      else map_option (apfst JNum) (json_number (c # cs)))"
| "jmembers 0 s = None"
| "jmembers (Suc n) s = (case skip_ws s of
      [] \<Rightarrow> None
    | c # cs \<Rightarrow>
      if c \<noteq> CHR 0x22 then None
      else case json_string cs of
          None \<Rightarrow> None
        | Some (k, r) \<Rightarrow> (case skip_ws r of
            [] \<Rightarrow> None
          | d # ds \<Rightarrow>
            if d \<noteq> CHR '':'' then None
            else case jvalue n ds of
                None \<Rightarrow> None
              | Some (v, r1) \<Rightarrow> (case skip_ws r1 of
                  [] \<Rightarrow> None
                | e # es \<Rightarrow>
                  if e = CHR ''}'' then Some ([(k, v)], es)
                  else if e = CHR '','' then map_option (apfst ((#) (k, v))) (jmembers n es)
                  else None)))"
| "jelems 0 s = None"
| "jelems (Suc n) s = (case jvalue n s of
      None \<Rightarrow> None
    | Some (v, r) \<Rightarrow> (case skip_ws r of
        [] \<Rightarrow> None
      | e # es \<Rightarrow>
        if e = CHR '']'' then Some ([v], es)
        else if e = CHR '','' then map_option (apfst ((#) v)) (jelems n es)
        else None))"

section \<open>Decoding into a map of byte slices\<close>

fun to_uint8 :: "json \<Rightarrow> char option" where
  "to_uint8 (JNum s) = Option.bind (ParseUint s 10 64) (\<lambda>n. if n < 256 then Some (chr_of n) else None)"
| "to_uint8 JNull = Some (chr_of 0)"
| "to_uint8 _ = None"

fun to_uint8s :: "json list \<Rightarrow> bytes option" where
  "to_uint8s [] = Some []"
| "to_uint8s (j # js) = (case (to_uint8 j, to_uint8s js) of (Some b, Some bs) \<Rightarrow> Some (b # bs) | _ \<Rightarrow> None)"

fun to_bytes :: "json \<Rightarrow> bytes option" where
  "to_bytes JNull = Some []"
| "to_bytes (JStr s) = DecodeString s"
| "to_bytes (JArr js) = to_uint8s js"
| "to_bytes _ = None"

fun to_entries :: "(string \<times> json) list \<Rightarrow> (string \<rightharpoonup> bytes) \<Rightarrow> (string \<rightharpoonup> bytes) option" where
  "to_entries [] m = Some m"
| "to_entries ((k, v) # es) m = (case to_bytes v of None \<Rightarrow> None | Some b \<Rightarrow> to_entries es (m(k \<mapsto> b)))"

text \<open>The decoded map; the inner \<^const>\<open>None\<close> is the nil map that \<^verbatim>\<open>null\<close> leaves.\<close>

fun to_map :: "json \<Rightarrow> (string \<rightharpoonup> bytes) option option" where
  "to_map JNull = Some None"
| "to_map (JObj es) = map_option Some (to_entries es Map.empty)"
| "to_map _ = None"

definition decode_value :: "string \<Rightarrow> (json \<times> string) option" where
  "decode_value s = jvalue (2 * length s + 1) s"

section \<open>The fuel is enough\<close>

lemma skip_ws_length: "length (skip_ws s) \<le> length s"
  by (simp add: skip_ws_def length_dropWhile_le)

lemma skip_ws_Cons: "skip_ws s = c # cs \<Longrightarrow> length cs < length s"
  using skip_ws_length [of s] by simp

lemma scan_string_length: "scan_string s = Some (a, r) \<Longrightarrow> length r < length s"
proof (induction s arbitrary: a r rule: scan_string.induct)
  case (2 c cs)
  then show ?case
    by (cases cs) (fastforce split: if_splits)+
qed simp

lemma json_string_length: "json_string s = Some (a, r) \<Longrightarrow> length r < length s"
  by (auto simp: json_string_def dest: scan_string_length)

lemma digits1_length: "digits1 s = Some (a, r) \<Longrightarrow> length r < length s"
  by (cases s) (auto simp: digits1_def length_dropWhile_le le_imp_less_Suc split: if_splits)

lemma json_int_length: "json_int s = Some (a, r) \<Longrightarrow> length r < length s"
  by (auto simp: json_int_def dest: digits1_length split: list.splits if_splits)

lemma json_frac_length: "json_frac s = Some (a, r) \<Longrightarrow> length r \<le> length s"
  by (auto simp: json_frac_def dest: digits1_length split: list.splits if_splits)

lemma json_exp_length: "json_exp s = Some (a, r) \<Longrightarrow> length r \<le> length s"
  by (auto simp: json_exp_def dest: digits1_length split: list.splits if_splits)

lemma json_number_length: "json_number s = Some (a, r) \<Longrightarrow> length r < length s"
  by (fastforce simp: json_number_def Let_def split: option.splits if_splits
      dest: json_int_length json_frac_length json_exp_length)

lemma jvalue_length:
  "jvalue n s = Some (v, r) \<Longrightarrow> length r < length s"
  "jmembers n s = Some (ms, r) \<Longrightarrow> length r < length s"
  "jelems n s = Some (js, r) \<Longrightarrow> length r < length s"
proof (induction n s and n s and n s arbitrary: v r and ms r and js r rule: jvalue_jmembers_jelems.induct)
  case (2 n s)
  then show ?case
    by (fastforce split: list.splits if_splits dest: skip_ws_Cons json_string_length json_number_length)
next
  case (4 n s)
  then show ?case
    by (fastforce split: list.splits if_splits option.splits dest: skip_ws_Cons json_string_length)
next
  case (6 n s)
  then show ?case
    by (fastforce split: list.splits if_splits option.splits dest: skip_ws_Cons)
qed simp_all

lemma jvalue_more_fuel:
  "(\<forall>s. 2 * length s + 1 \<le> n \<longrightarrow> jvalue (n + k) s = jvalue n s)
   \<and> (\<forall>s. 2 * length s + 2 \<le> n \<longrightarrow> jmembers (n + k) s = jmembers n s)
   \<and> (\<forall>s. 2 * length s + 2 \<le> n \<longrightarrow> jelems (n + k) s = jelems n s)"
proof (induction n)
  case (Suc n)
  then have V: "\<And>s. 2 * length s + 1 \<le> n \<Longrightarrow> jvalue (n + k) s = jvalue n s"
    and M: "\<And>s. 2 * length s + 2 \<le> n \<Longrightarrow> jmembers (n + k) s = jmembers n s"
    and E: "\<And>s. 2 * length s + 2 \<le> n \<Longrightarrow> jelems (n + k) s = jelems n s"
    by blast+
  have "jvalue (Suc n + k) s = jvalue (Suc n) s" if "2 * length s + 1 \<le> Suc n" for s
  proof (cases "skip_ws s")
    case (Cons c cs)
    then have "2 * length cs + 2 \<le> n" using skip_ws_Cons [OF Cons] that by simp
    then show ?thesis by (simp add: Cons M E split: list.split)
  qed simp
  moreover have "jmembers (Suc n + k) s = jmembers (Suc n) s" if "2 * length s + 2 \<le> Suc n" for s
  proof (cases "skip_ws s")
    case (Cons c cs)
    have V': "jvalue (n + k) ds = jvalue n ds"
      if "json_string cs = Some (x, r)" "skip_ws r = d # ds" for x r d ds
      using skip_ws_Cons [OF Cons] json_string_length [OF that(1)] skip_ws_Cons [OF that(2)]
        \<open>2 * length s + 2 \<le> Suc n\<close> by (intro V) simp
    have M': "jmembers (n + k) es = jmembers n es"
      if "json_string cs = Some (x, r)" "skip_ws r = d # ds" "jvalue n ds = Some (v, r1)" "skip_ws r1 = e # es"
      for x r d ds v r1 e es
      using skip_ws_Cons [OF Cons] json_string_length [OF that(1)] skip_ws_Cons [OF that(2)]
        jvalue_length(1) [OF that(3)] skip_ws_Cons [OF that(4)] \<open>2 * length s + 2 \<le> Suc n\<close>
      by (intro M) simp
    show ?thesis by (simp add: Cons V' M' split: option.split list.split)
  qed simp
  moreover have "jelems (Suc n + k) s = jelems (Suc n) s" if "2 * length s + 2 \<le> Suc n" for s
  proof (cases "jvalue n s")
    case None
    then show ?thesis using V [of s] that by simp
  next
    case (Some p)
    obtain v r where p: "p = (v, r)" by (cases p)
    have E': "jelems (n + k) es = jelems n es" if "skip_ws r = e # es" for e es
      using jvalue_length(1) [OF Some [unfolded p]] skip_ws_Cons [OF that] \<open>2 * length s + 2 \<le> Suc n\<close>
      by (intro E) simp
    show ?thesis using V [of s] that by (simp add: Some p E' split: list.split)
  qed
  ultimately show ?case by blast
qed simp

lemma jvalue_fuel: "2 * length s + 1 \<le> n \<Longrightarrow> jvalue n s = decode_value s"
  using jvalue_more_fuel [of "2 * length s + 1" "n - (2 * length s + 1)"] by (simp add: decode_value_def)

section \<open>Plain strings\<close>

text \<open>Characters that stand for themselves between quotes.\<close>

definition json_plain :: "char \<Rightarrow> bool" where
  "json_plain c \<longleftrightarrow> visible c \<and> c \<noteq> CHR 0x22 \<and> c \<noteq> CHR 0x5C"

lemma json_plain_range: "json_plain c \<Longrightarrow> 0x20 \<le> byte_of c \<and> byte_of c < 0x80"
  by (auto simp: json_plain_def visible_def)

lemma scan_string_plain:
  "list_all json_plain s \<Longrightarrow> scan_string (s @ CHR 0x22 # r) = Some (s, r)"
proof (induction s)
  case (Cons c s)
  then have "json_plain c" by simp
  with json_plain_range [OF this] Cons show ?case by (simp add: json_plain_def)
qed simp

lemma unquote_plain: "list_all json_plain s \<Longrightarrow> unquote s = s"
proof (induction s)
  case Nil
  then show ?case by (simp add: unquote.simps)
next
  case (Cons c s)
  then have "json_plain c" by simp
  with json_plain_range [OF this] Cons show ?case by (subst unquote.simps) (simp add: json_plain_def)
qed

lemma json_string_plain:
  "list_all json_plain s \<Longrightarrow> json_string (s @ CHR 0x22 # r) = Some (s, r)"
  by (simp add: json_string_def scan_string_plain unquote_plain)

lemma EncodeToString_json_plain: "list_all json_plain (EncodeToString s)"
  by (auto simp: list_all_iff json_plain_def b64_plain_def dest!: EncodeToString_plain)

lemma skip_ws_stop [simp]: "\<not> is_ws c \<Longrightarrow> skip_ws (c # cs) = c # cs"
  by (simp add: skip_ws_def)

lemma jvalue_string:
  "list_all json_plain s \<Longrightarrow> jvalue (Suc n) (CHR 0x22 # s @ CHR 0x22 # r) = Some (JStr s, r)"
  by (simp add: is_ws_def json_string_plain)

end
