(* ===== verification/Agent_Client.thy ===== *)
theory Agent_Client
  imports Go_Url Go_Json Prelude
begin

text \<open>
  \<^verbatim>\<open>agent/internal/gateway/gateway.go\<close>: one conditional GET of an exposure. The round trip of
  \<^verbatim>\<open>http.Client.Do\<close>, with the connection, TLS and the time limit, is the argument \<open>do\<close>: it
  takes the request and gives an error or a response. A response has its body up to where the
  stream ends, and whether it ends with an error.
\<close>

section \<open>Requests and responses of the client\<close>

record client_request =
  cr_Method :: string
  cr_URL :: Full_URL
  cr_Header :: "string \<Rightarrow> string list"

record client_response =
  resp_StatusCode :: nat
  resp_Header :: "(string \<times> string) list"
  resp_Body :: bytes
  resp_BodyFails :: bool

datatype fetch_error =
    ErrNotModified
  | InvalidRequest
  | RoundTripFailed string
  | Unauthorized401 string
  | NotFound404 string
  | Unavailable503 string
  | MethodNotAllowed405 string
  | UnexpectedStatus string nat
  | WithoutETag string
  | MalformedResponse string
  | ResponseNull string
  | TrailingData string

record Result =
  Values :: "string \<rightharpoonup> bytes"
  result_ETag :: string

record Client =
  c_base :: Full_URL
  c_http :: "client_request \<Rightarrow> string + client_response"
  c_version :: string

definition MaxExposureBytes :: nat where
  "MaxExposureBytes = 8 * 2 ^ 20"

text \<open>\<^verbatim>\<open>New\<close>: the transport with the given trust, or the error of an unusable CA file.\<close>

datatype ca_error = CAFileUnreadable | NoCertificateFound

definition Client_New ::
  "(string \<rightharpoonup> bytes) \<Rightarrow> (bytes \<Rightarrow> 'pool option) \<Rightarrow> ('pool option \<Rightarrow> duration \<Rightarrow> client_request \<Rightarrow> string + client_response)
    \<Rightarrow> Full_URL \<Rightarrow> string \<Rightarrow> duration \<Rightarrow> string \<Rightarrow> ca_error + Client" where
  "Client_New read_file certs_from_PEM transport URL CAFile Timeout version =
     (if CAFile \<noteq> [] then
        (case read_file CAFile of
           None \<Rightarrow> Inl CAFileUnreadable
         | Some pem \<Rightarrow> (case certs_from_PEM pem of
             None \<Rightarrow> Inl NoCertificateFound
           | Some pool \<Rightarrow> Inr \<lparr>c_base = URL, c_http = transport (Some pool) Timeout, c_version = version\<rparr>))
      else Inr \<lparr>c_base = URL, c_http = transport None Timeout, c_version = version\<rparr>)"

section \<open>Fetch\<close>

definition statusError :: "string \<Rightarrow> nat \<Rightarrow> fetch_error" where
  "statusError exposure st =
     (if st = 401 then Unauthorized401 exposure
      else if st = 404 then NotFound404 exposure
      else if st = 503 then Unavailable503 exposure
      else if st = 405 then MethodNotAllowed405 exposure
      else UnexpectedStatus exposure st)"

definition resp_Get :: "client_response \<Rightarrow> string \<Rightarrow> string" where
  "resp_Get resp k = (case map_of (resp_Header resp) k of None \<Rightarrow> [] | Some v \<Rightarrow> v)"

definition set_header :: "string \<Rightarrow> string \<Rightarrow> client_request \<Rightarrow> client_request" where
  "set_header k v r = r\<lparr>cr_Header := (cr_Header r)(k := [v])\<rparr>"

text \<open>\<^verbatim>\<open>http.NewRequestWithContext\<close> without a body parses the text of the URL again.\<close>

definition NewRequest :: "string \<Rightarrow> string \<Rightarrow> client_request option" where
  "NewRequest method target =
     map_option (\<lambda>u. \<lparr>cr_Method = method, cr_URL = u, cr_Header = (\<lambda>_. [])\<rparr>) (url_Parse target)"

definition exposure_request :: "Client \<Rightarrow> string \<Rightarrow> string \<Rightarrow> string \<Rightarrow> string \<Rightarrow> client_request option" where
  "exposure_request c exposure etag username password =
     (case NewRequest ''GET'' (url_String (JoinPath (c_base c) [''exposures'', exposure])) of
        None \<Rightarrow> None
      | Some req \<Rightarrow>
        (let r1 = set_header ''User-Agent'' (''kube-secret-gateway-agent/'' @ c_version c)
                    (set_header ''Accept'' ''application/json'' req);
             r2 = (if etag \<noteq> [] then set_header ''If-None-Match'' etag r1 else r1)
         in Some (set_header ''Authorization'' (basic_auth_value username password) r2)))"

text \<open>
  The body is read through \<^verbatim>\<open>io.LimitReader\<close>: beyond the limit the stream simply ends, and an
  error of the connection is only seen before that.
\<close>

definition read_values :: "string \<Rightarrow> client_response \<Rightarrow> fetch_error + (string \<rightharpoonup> bytes)" where
  "read_values exposure resp =
     (case decode_value (take MaxExposureBytes (resp_Body resp)) of
        None \<Rightarrow> Inl (MalformedResponse exposure)
      | Some (v, rest) \<Rightarrow> (case to_map v of
          None \<Rightarrow> Inl (MalformedResponse exposure)
        | Some None \<Rightarrow> Inl (ResponseNull exposure)
        | Some (Some values) \<Rightarrow>
          if skip_ws rest \<noteq> [] \<or> resp_BodyFails resp \<and> length (resp_Body resp) < MaxExposureBytes
          then Inl (TrailingData exposure) else Inr values))"

definition Fetch :: "Client \<Rightarrow> string \<Rightarrow> string \<Rightarrow> string \<Rightarrow> string \<Rightarrow> fetch_error + Result" where
  "Fetch c exposure etag username password =
     (case exposure_request c exposure etag username password of
        None \<Rightarrow> Inl InvalidRequest
      | Some req \<Rightarrow> (case c_http c req of
          Inl err \<Rightarrow> Inl (RoundTripFailed err)
        | Inr resp \<Rightarrow>
          if resp_StatusCode resp = 304 then Inl ErrNotModified
          else if resp_StatusCode resp \<noteq> 200 then Inl (statusError exposure (resp_StatusCode resp))
          else if resp_Get resp ''ETag'' = [] then Inl (WithoutETag exposure)
          else case read_values exposure resp of
              Inl err \<Rightarrow> Inl err
            | Inr values \<Rightarrow> Inr \<lparr>Values = values, result_ETag = resp_Get resp ''ETag''\<rparr>))"

end
