(* ===== verification/Delivery.thy ===== *)
theory Delivery
  imports Server Agent_Client
begin

text \<open>
  The agent's client against the gateway's handler: how a request of the one reaches the other
  over HTTP, that the client decodes the canonical body to exactly the configured values, and
  that the request the client builds is the one the server routes to the exposure. The properties
  are in the root theory.
\<close>

section \<open>The wire\<close>

text \<open>
  What \<^verbatim>\<open>net/http\<close> makes of a client's request on the other side of the connection: the
  request line carries \<^verbatim>\<open>RequestURI\<close>, which the server parses with \<^verbatim>\<open>ParseRequestURI\<close>.
\<close>

definition wire :: "string \<Rightarrow> client_request \<Rightarrow> Request option" where
  "wire remote r = map_option (\<lambda>u. \<lparr>req_Method = cr_Method r, req_URL = truncate_URL u, req_Header = cr_Header r,
     req_ContentLength = 0, req_TransferEncoding = [], req_RemoteAddr = remote\<rparr>)
     (ParseRequestURI (RequestURI (cr_URL r)))"

definition gateway_transport :: "k8s_validation \<Rightarrow> Handler \<Rightarrow> string \<Rightarrow> client_request \<Rightarrow> string + client_response" where
  "gateway_transport V h remote r = (case Option.bind (wire remote r) (response V h) of
      None \<Rightarrow> Inl ''EOF''
    | Some w \<Rightarrow> Inr \<lparr>resp_StatusCode = rw_status w, resp_Header = rw_sent w, resp_Body = rw_body w,
        resp_BodyFails = False\<rparr>)"

section \<open>Decoding the body\<close>

definition body_member :: "(string \<rightharpoonup> bytes) \<Rightarrow> string \<Rightarrow> string \<times> json" where
  "body_member data k = (k, JStr (EncodeToString (data_get data k)))"

lemma jmembers_body:
  assumes "list_all (list_all json_plain) (k # ks)" and "length ks + 2 \<le> n"
  shows "jmembers n (body_entry data k @ body_loop data (Suc i) ks @ CHR ''}'' # r)
    = Some (map (body_member data) (k # ks), r)"
  using assms
proof (induction ks arbitrary: k n i)
  case Nil
  then obtain m where n: "n = Suc (Suc m)" by (metis Suc_le_D add_2_eq_Suc' list.size(3) plus_nat.add_0 Suc_le_mono)
  from Nil show ?case
    by (simp add: n body_entry_def quote_def is_ws_def json_string_plain EncodeToString_json_plain body_member_def)
next
  case (Cons k' ks)
  then obtain m where n: "n = Suc (Suc m)" by (metis Suc_le_D add_2_eq_Suc' Suc_le_mono)
  have "jmembers (Suc m) (body_entry data k' @ body_loop data (Suc (Suc i)) ks @ CHR ''}'' # r)
    = Some (map (body_member data) (k' # ks), r)"
    using Cons.prems n by (intro Cons.IH) simp_all
  with Cons.prems show ?case
    by (simp add: n body_entry_def quote_def is_ws_def json_string_plain EncodeToString_json_plain body_member_def)
qed

lemma body_loop_length_ge: "length ks \<le> length (body_loop data i ks)"
proof (induction ks arbitrary: i)
  case (Cons k ks)
  from Cons.IH [of "Suc i"] show ?case by (simp add: body_entry_def)
qed simp

lemma decode_body:
  assumes "list_all (list_all json_plain) ks"
  shows "decode_value (''{'' @ body_loop data 0 ks @ ''}'') = Some (JObj (map (body_member data) ks), [])"
proof (cases ks)
  case Nil
  then show ?thesis by (simp add: decode_value_def is_ws_def eval_nat_numeral)
next
  case (Cons k ks')
  let ?s = "body_entry data k @ body_loop data (Suc 0) ks' @ CHR ''}'' # []"
  have "jmembers (2 * Suc (length ?s)) ?s = Some (map (body_member data) (k # ks'), [])"
    using assms Cons body_loop_length_ge [of ks' data "Suc 0"] by (intro jmembers_body) simp_all
  moreover have "\<exists>cs. ?s = CHR 0x22 # cs" by (simp add: body_entry_def quote_def)
  ultimately show ?thesis by (auto simp: decode_value_def Cons is_ws_def)
qed

lemma to_entries_body:
  "to_entries (map (body_member data) ks) m = Some (\<lambda>k. if k \<in> set ks then Some (data_get data k) else m k)"
  by (induction ks arbitrary: m) (auto simp: body_member_def fun_eq_iff)

lemma read_values_body:
  assumes "list_all (list_all json_plain) (exp_Keys e)" and "length (canonical_body s e) \<le> MaxExposureBytes"
    and "resp_Body resp = canonical_body s e" and "\<not> resp_BodyFails resp"
  shows "read_values name resp =
    Inr (\<lambda>k. if k \<in> set (exp_Keys e) then Some (data_get (sec_Data s) k) else None)"
proof -
  have "decode_value (canonical_body s e) = Some (JObj (map (body_member (sec_Data s)) (sort (exp_Keys e))), [])"
    using decode_body [of "sort (exp_Keys e)" "sec_Data s"] assms(1) by (simp add: canonical_body_def list_all_iff)
  with assms(2-4) show ?thesis
    by (simp add: read_values_def to_entries_body skip_ws_def)
qed

section \<open>The route\<close>

text \<open>The base URL of a gateway that is not behind a path prefix.\<close>

definition root_url :: "string \<Rightarrow> string \<Rightarrow> Full_URL" where
  "root_url scheme host = zero_URL\<lparr>url_Scheme := scheme, url_Host := host\<rparr>"

definition route_name :: "string \<Rightarrow> bool" where
  "route_name name \<longleftrightarrow> list_all subdomain_char name \<and> name \<noteq> [] \<and> name \<noteq> ''.'' \<and> name \<noteq> ''..''"

lemma subdomain_char_path: "subdomain_char c \<Longrightarrow> \<not> shouldEscape c"
  by (auto simp: subdomain_char_def label_char_def shouldEscape_def is_alnum_def)

lemma plain_exposures: "path_plain ''exposures''"
  by (simp add: path_plain_def shouldEscape_def is_alnum_def is_lower_def)

lemma plain_route: "route_name name \<Longrightarrow> path_plain (''/exposures/'' @ name)"
proof -
  assume n: "route_name name"
  have slash: "\<not> shouldEscape (CHR ''/'')" by (simp add: shouldEscape_def)
  from n plain_exposures slash show ?thesis
    by (auto simp: route_name_def path_plain_def list_all_iff subdomain_char_path)
qed

lemma plain_route_rel: "route_name name \<Longrightarrow> path_plain (''exposures/'' @ name)"
  using plain_route [of name] by (simp add: path_plain_def)

lemma no_slash: "route_name name \<Longrightarrow> CHR ''/'' \<notin> set name"
  by (auto simp: route_name_def list_all_iff dest: subdomain_char_plain)

lemma clean_route: "route_name name \<Longrightarrow> path_Clean (''//exposures/'' @ name) = ''/exposures/'' @ name"
  using clean_segs_plain(2) [of "[''exposures'', name]" True]
  by (simp add: path_Clean_rooted HasPrefix_def Split_absent no_slash clean_segs_def route_name_def)

lemma joined_url:
  assumes "route_name name"
  shows "url_String (JoinPath (root_url scheme host) [''exposures'', name])
    = scheme @ ''://'' @ host_escape host @ ''/exposures/'' @ name"
proof -
  have "\<not> HasSuffix name ''/''"
    using no_slash [OF assms] by (auto simp: HasSuffix_def) (metis in_set_dropD list.set_intros(1))
  moreover have "EscapedPath (truncate_URL (root_url scheme host)) = []"
    by (simp add: EscapedPath_def root_url_def zero_URL_def)
  ultimately have "JoinPath (root_url scheme host) [''exposures'', name]
      = (root_url scheme host)\<lparr>url_Path := ''exposures/'' @ name, url_RawPath := []\<rparr>"
    using clean_route [OF assms] plain_route_rel [OF assms]
    by (simp add: JoinPath_def Let_def path_Join_def HasPrefix_def)
  moreover have "EscapedPath (truncate_URL ((root_url scheme host)\<lparr>url_Path := ''exposures/'' @ name, url_RawPath := []\<rparr>))
      = ''exposures/'' @ name"
    using plain_route_rel [OF assms] by (subst EscapedPath_plain) simp_all
  ultimately show ?thesis
    by (simp add: url_String_def Let_def query_suffix_def root_url_def zero_URL_def)
qed

lemma getScheme_http:
  assumes "scheme = ''http'' \<or> scheme = ''https''"
  shows "getScheme (scheme @ '':'' @ rest) = Some (scheme, rest)" "map lower_ascii scheme = scheme"
  using assms by (auto simp: getScheme_def is_lower_def lower_ascii_def is_upper_def is_digit_def)

lemma host_char_stops: "host_char c \<Longrightarrow>
    c \<noteq> CHR ''/'' \<and> c \<noteq> CHR ''?'' \<and> c \<noteq> CHR ''#'' \<and> c \<noteq> CHR ''@'' \<and> \<not> byte_of c < 0x20 \<and> c \<noteq> CHR 0x7F"
  by (auto simp: host_char_def is_alnum_def is_lower_def is_upper_def is_digit_def)

lemma path_char_stops: "\<not> shouldEscape c \<Longrightarrow> c \<noteq> CHR ''?'' \<and> c \<noteq> CHR ''#'' \<and> \<not> byte_of c < 0x20 \<and> c \<noteq> CHR 0x7F"
  by (auto simp: shouldEscape_def is_alnum_def is_lower_def is_upper_def is_digit_def)

lemma Cut_absent: "c \<notin> set s \<Longrightarrow> Cut s c = (s, [], False)"
  by (simp add: Cut_def IndexByte_None [THEN iffD2])

lemma split_query_none: "CHR ''?'' \<notin> set s \<Longrightarrow> split_query s = (s, False, [])"
  by (simp add: split_query_def Cut_absent count_list_0_iff)

lemma parse_plain_url:
  assumes "scheme = ''http'' \<or> scheme = ''https''" and "list_all host_char host" and "parseHost host = Some host"
    and "path_plain (CHR ''/'' # p)"
  shows "url_Parse (scheme @ ''://'' @ host @ CHR ''/'' # p)
    = Some ((root_url scheme host)\<lparr>url_Path := CHR ''/'' # p\<rparr>)"
proof -
  let ?raw = "scheme @ ''://'' @ host @ CHR ''/'' # p"
  have p: "c \<in> set p \<Longrightarrow> \<not> shouldEscape c" for c using assms(4) by (simp add: path_plain_def list_all_iff)
  have h: "c \<in> set host \<Longrightarrow> host_char c" for c using assms(2) by (simp add: list_all_iff)
  have hash: "CHR ''#'' \<notin> set ?raw"
    using assms(1) p h host_char_stops path_char_stops by fastforce
  have ctl: "\<not> has_ctl ?raw"
    using assms(1) p h host_char_stops path_char_stops by (fastforce simp: has_ctl_def list_ex_iff)
  have query: "CHR ''?'' \<notin> set (''//'' @ host @ CHR ''/'' # p)"
    using p h host_char_stops path_char_stops by fastforce
  have slash: "c \<in> set host \<Longrightarrow> c \<noteq> CHR ''/''" for c using h host_char_stops by blast
  have auth: "split_authority (host @ CHR ''/'' # p) = (host, CHR ''/'' # p)"
    using slash by (simp add: split_authority_def takeWhile_append2 dropWhile_append2)
  have "CHR ''@'' \<notin> set host" using h host_char_stops by blast
  then have user: "parseAuthority host = Some (False, host)"
    by (simp add: parseAuthority_def assms(3) LastIndexByte_None [THEN iffD2])
  have "?raw \<noteq> ''*''" "scheme \<noteq> []" using assms(1) by auto
  then have "url_parse False ?raw = Some ((root_url scheme host)\<lparr>url_Path := CHR ''/'' # p\<rparr>)"
    using getScheme_http(1) [OF assms(1), of "''//'' @ host @ CHR ''/'' # p"] getScheme_http(2) [OF assms(1)]
      ctl split_query_none [OF query] auth user assms(4)
    by (simp add: url_parse_def HasPrefix_def root_url_def zero_URL_def)
  with hash show ?thesis
    by (simp add: url_Parse_def Cut_absent root_url_def zero_URL_def)
qed

definition agent_header :: "string \<Rightarrow> string \<Rightarrow> string \<Rightarrow> string \<Rightarrow> string \<Rightarrow> string list" where
  "agent_header version etag username password =
     (\<lambda>k. if k = ''Authorization'' then [basic_auth_value username password]
          else if k = ''If-None-Match'' then (if etag = [] then [] else [etag])
          else if k = ''User-Agent'' then [''kube-secret-gateway-agent/'' @ version]
          else if k = ''Accept'' then [''application/json''] else [])"

text \<open>The request of the agent as the gateway's handler gets it.\<close>

definition agent_request :: "string \<Rightarrow> string \<Rightarrow> string \<Rightarrow> string \<Rightarrow> string \<Rightarrow> string \<Rightarrow> Request" where
  "agent_request remote version name etag username password = \<lparr>req_Method = ''GET'',
     req_URL = \<lparr>url_Path = ''/exposures/'' @ name, url_RawPath = [], url_ForceQuery = False, url_RawQuery = []\<rparr>,
     req_Header = agent_header version etag username password, req_ContentLength = 0,
     req_TransferEncoding = [], req_RemoteAddr = remote\<rparr>"

text \<open>A client of a gateway at the root of a host.\<close>

definition gateway_client :: "Client \<Rightarrow> bool" where
  "gateway_client c \<longleftrightarrow> (\<exists>scheme host. c_base c = root_url scheme host \<and> scheme \<in> {''http'', ''https''}
     \<and> list_all host_char host \<and> parseHost host = Some host)"

lemma exposure_request_root:
  assumes "gateway_client c" and "route_name name"
  shows "\<exists>scheme host. exposure_request c name etag username password = Some \<lparr>cr_Method = ''GET'',
    cr_URL = (root_url scheme host)\<lparr>url_Path := ''/exposures/'' @ name\<rparr>,
    cr_Header = agent_header (c_version c) etag username password\<rparr>"
proof -
  obtain scheme host where c: "c_base c = root_url scheme host" "scheme = ''http'' \<or> scheme = ''https''"
    "list_all host_char host" "parseHost host = Some host"
    using assms(1) by (auto simp: gateway_client_def)
  have "NewRequest ''GET'' (url_String (JoinPath (c_base c) [''exposures'', name])) = Some \<lparr>cr_Method = ''GET'',
      cr_URL = (root_url scheme host)\<lparr>url_Path := ''/exposures/'' @ name\<rparr>, cr_Header = (\<lambda>_. [])\<rparr>"
    using parse_plain_url [OF c(2-4), of "''exposures/'' @ name"] plain_route [OF assms(2)]
    by (simp add: NewRequest_def c(1) joined_url [OF assms(2)] host_escape_id [OF c(3)])
  then show ?thesis
    by (auto simp: exposure_request_def set_header_def agent_header_def Let_def fun_eq_iff)
qed

lemma wire_root:
  assumes "route_name name"
  shows "wire remote \<lparr>cr_Method = ''GET'', cr_URL = (root_url scheme host)\<lparr>url_Path := ''/exposures/'' @ name\<rparr>,
      cr_Header = agent_header version etag username password\<rparr>
    = Some (agent_request remote version name etag username password)"
proof -
  have plain: "path_plain (''/exposures/'' @ name)" by (rule plain_route [OF assms])
  have c: "\<forall>c\<in>set (''/exposures/'' @ name). \<not> shouldEscape c"
    using plain unfolding path_plain_def list_all_iff .
  have ctl: "\<not> has_ctl (''/exposures/'' @ name)"
    using c path_char_stops unfolding has_ctl_def list_ex_iff by blast
  have query: "CHR ''?'' \<notin> set (''/exposures/'' @ name)"
    using c path_char_stops by blast
  have "RequestURI ((root_url scheme host)\<lparr>url_Path := ''/exposures/'' @ name\<rparr>) = ''/exposures/'' @ name"
    using plain by (simp add: RequestURI_def EscapedPath_plain Let_def query_suffix_def root_url_def zero_URL_def)
  moreover have "getScheme (''/exposures/'' @ name) = Some ([], ''/exposures/'' @ name)"
    by (simp add: getScheme_def is_lower_def is_upper_def is_digit_def)
  ultimately show ?thesis
    using plain ctl split_query_none [OF query]
    by (simp add: wire_def ParseRequestURI_def url_parse_def HasPrefix_def truncate_URL_def URL.defs
        agent_request_def zero_URL_def)
qed

lemma agent_parseRoute:
  "route_name name \<Longrightarrow> ValidateName V name = None \<Longrightarrow>
    parseRoute V (EscapedPath (req_URL (agent_request remote version name etag username password))) = Some name"
  using plain_route [of name] no_slash [of name]
  by (simp add: agent_request_def EscapedPath_plain parseRoute_def CutPrefix_def HasPrefix_def exposuresPrefix_def)

section \<open>Fetching from the gateway\<close>

lemma agent_request_etag:
  "agent_request remote version name etag username password = (if etag = []
     then agent_request remote version name [] username password
     else with_header ''If-None-Match'' [etag] (agent_request remote version name [] username password))"
  by (auto simp: agent_request_def with_header_def agent_header_def fun_eq_iff)

lemma agent_admitted:
  "admitted V h (agent_request remote version name etag username password) e
    \<longleftrightarrow> admitted V h (agent_request remote version name [] username password) e"
  "authorized src e (agent_request remote version name etag username password)
    \<longleftrightarrow> authorized src e (agent_request remote version name [] username password)"
  by (subst agent_request_etag, simp)+

definition fetch_outcome :: "string \<Rightarrow> RespWriter option \<Rightarrow> fetch_error + Result" where
  "fetch_outcome name w = (case w of
      None \<Rightarrow> Inl (RoundTripFailed ''EOF'')
    | Some w \<Rightarrow>
      if rw_status w = 304 then Inl ErrNotModified
      else if rw_status w \<noteq> 200 then Inl (statusError name (rw_status w))
      else let resp = \<lparr>resp_StatusCode = 200, resp_Header = rw_sent w, resp_Body = rw_body w, resp_BodyFails = False\<rparr> in
        if resp_Get resp ''ETag'' = [] then Inl (WithoutETag name)
        else map_sum id (\<lambda>values. \<lparr>Values = values, result_ETag = resp_Get resp ''ETag''\<rparr>) (read_values name resp))"

lemma Fetch_gateway:
  assumes "gateway_client c" and "c_http c = gateway_transport V h remote" and "route_name name"
  shows "Fetch c name etag username password
    = fetch_outcome name (response V h (agent_request remote (c_version c) name etag username password))"
proof -
  obtain scheme host where "exposure_request c name etag username password = Some \<lparr>cr_Method = ''GET'',
    cr_URL = (root_url scheme host)\<lparr>url_Path := ''/exposures/'' @ name\<rparr>,
    cr_Header = agent_header (c_version c) etag username password\<rparr>"
    using exposure_request_root [OF assms(1,3)] by blast
  with wire_root [OF assms(3)] obtain req where
    req: "exposure_request c name etag username password = Some req"
      "wire remote req = Some (agent_request remote (c_version c) name etag username password)"
    by blast
  show ?thesis
    by (cases "response V h (agent_request remote (c_version c) name etag username password)")
       (auto simp add: Fetch_def req assms(2) gateway_transport_def fetch_outcome_def Let_def split: sum.split)
qed

lemma ETag_not_Nil [simp]: "ETag b u \<noteq> []" "[] \<noteq> ETag b u"
  by (simp_all add: ETag_def)

lemma etagMatches_ETag: "etagMatches [ETag b u] tag \<longleftrightarrow> ETag b u = tag"
proof -
  have "Split (ETag b u) (CHR '','') = [ETag b u]"
    using etag_chars [of _ b u] by (intro Split_absent) blast
  moreover have "TrimSpace (ETag b u) = ETag b u"
    using etag_chars [of _ b u] by (intro TrimSpace_visible) (metis hd_in_set last_in_set)
  moreover have "TrimPrefix (ETag b u) ''W/'' = ETag b u" "ETag b u \<noteq> ''*''"
    by (auto simp: TrimPrefix_def HasPrefix_def ETag_def quote_def)
  ultimately show ?thesis by (simp add: etagMatches_def Let_def)
qed

lemma fetch_outcome_body:
  assumes "list_all (list_all json_plain) (exp_Keys e)" and "length (canonical_body s e) \<le> MaxExposureBytes"
  shows "fetch_outcome name (Some (ok_response ''GET'' (canonical_body s e) uid)) =
    Inr \<lparr>Values = (\<lambda>k. if k \<in> set (exp_Keys e) then Some (data_get (sec_Data s) k) else None),
         result_ETag = ETag (canonical_body s e) uid\<rparr>"
  using read_values_body [OF assms]
  by (simp add: fetch_outcome_def ok_response_def body_headers_def Let_def resp_Get_def)

text \<open>The tags an agent can have: none, or one the gateway gave it.\<close>

definition gateway_tag :: "string \<Rightarrow> bool" where
  "gateway_tag etag \<longleftrightarrow> etag = [] \<or> (\<exists>b u. etag = ETag b u)"

lemma agent_conditional:
  assumes "gateway_tag etag"
  shows "conditional (agent_request remote version name etag username password) b u \<longleftrightarrow> etag = ETag b u"
proof (cases "etag = []")
  case True
  then show ?thesis
    by (simp add: conditional_def agent_request_def Header_Values_def agent_header_def etagMatches_def)
next
  case False
  then obtain b' u' where e: "etag = ETag b' u'" using assms by (auto simp: gateway_tag_def)
  show ?thesis unfolding e
    by (simp add: conditional_def agent_request_def Header_Values_def agent_header_def etagMatches_ETag)
qed

lemma available_get:
  assumes "available src e s"
  shows "(if k \<in> set (exp_Keys e) then Some (data_get (sec_Data s) k) else None)
    = (if k \<in> set (exp_Keys e) then sec_Data s k else None)"
  using assms by (auto simp: available_def list_all_iff data_get_def split: option.split)

lemma Fetch_served:
  assumes "gateway_client c" and "c_http c = gateway_transport V h remote" and "route_name name"
    and "gateway_tag etag" and "keys_nonempty h"
    and "admitted V h (agent_request remote (c_version c) name [] username password) e"
    and "authorized (h_secrets h) e (agent_request remote (c_version c) name [] username password)"
    and "available (h_secrets h) e s"
    and "list_all (list_all json_plain) (exp_Keys e)" and "length (canonical_body s e) \<le> MaxExposureBytes"
  shows "Fetch c name etag username password = (if etag = ETag (canonical_body s e) (sec_UID s) then Inl ErrNotModified
    else Inr \<lparr>Values = (\<lambda>k. if k \<in> set (exp_Keys e) then sec_Data s k else None),
              result_ETag = ETag (canonical_body s e) (sec_UID s)\<rparr>)"
proof -
  let ?r = "agent_request remote (c_version c) name etag username password"
  have "response V h ?r = Some (body_response ?r (canonical_body s e) (sec_UID s))"
    using agent_admitted(1) [THEN iffD2, OF assms(6)] agent_admitted(2) [THEN iffD2, OF assms(7)]
      assms(8,5) by (rule response_served)
  moreover have "req_Method ?r = ''GET''" by (simp add: agent_request_def)
  moreover have "(\<lambda>k. if k \<in> set (exp_Keys e) then Some (data_get (sec_Data s) k) else None)
      = (\<lambda>k. if k \<in> set (exp_Keys e) then sec_Data s k else None)"
    by (rule ext) (rule available_get [OF assms(8)])
  ultimately show ?thesis
    using fetch_outcome_body [OF assms(9,10), of name "sec_UID s"] agent_conditional [OF assms(4)]
    by (simp add: Fetch_gateway [OF assms(1-3)] body_response_def)
       (simp add: fetch_outcome_def not_modified_response_def)
qed

text \<open>The bodies of the gateway are within what the client reads, and its keys need no escapes.\<close>

definition deliverable :: "Handler \<Rightarrow> bool" where
  "deliverable h \<longleftrightarrow> (\<forall>name e s. h_exposures h name = Some e \<longrightarrow> available (h_secrets h) e s \<longrightarrow>
     list_all (list_all json_plain) (exp_Keys e) \<and> length (canonical_body s e) \<le> MaxExposureBytes)"

lemma deliverableD:
  assumes "deliverable h" and "admitted V h r e" and "available (h_secrets h) e s"
  shows "list_all (list_all json_plain) (exp_Keys e)" "length (canonical_body s e) \<le> MaxExposureBytes"
  using assms by (auto simp: deliverable_def admitted_def)

lemma fetch_outcome_Inr: "fetch_outcome name w = Inr res \<Longrightarrow> \<exists>w'. w = Some w' \<and> rw_status w' = 200"
  by (auto simp: fetch_outcome_def split: option.splits if_splits)

lemma Fetch_Inr_served:
  assumes "gateway_client c" and "c_http c = gateway_transport V h remote" and "route_name name"
    and "keys_nonempty h" and "Fetch c name etag username password = Inr res"
  shows "\<exists>e s. admitted V h (agent_request remote (c_version c) name [] username password) e
    \<and> authorized (h_secrets h) e (agent_request remote (c_version c) name [] username password)
    \<and> available (h_secrets h) e s"
proof -
  let ?r = "agent_request remote (c_version c) name etag username password"
  obtain w where "response V h ?r = Some w" "rw_status w = 200"
    using fetch_outcome_Inr [OF assms(5) [unfolded Fetch_gateway [OF assms(1-3)]]] by blast
  then have "\<exists>e s. admitted V h ?r e \<and> authorized (h_secrets h) e ?r \<and> available (h_secrets h) e s"
    by (intro response_status_served [OF _ disjI1 assms(4)])
  then show ?thesis
    using agent_admitted(1) [THEN iffD1] agent_admitted(2) [THEN iffD1] by blast
qed

section \<open>An example\<close>

definition ex_client :: Client where
  "ex_client = \<lparr>c_base = root_url ''https'' ''gw'', c_http = gateway_transport ex_V ex_handler ''10.0.0.1:1234'',
     c_version = ''1''\<rparr>"

lemma ex_gateway_client: "gateway_client ex_client"
  unfolding gateway_client_def
proof (intro exI conjI)
  show "c_base ex_client = root_url ''https'' ''gw''" by (simp add: ex_client_def)
qed (simp_all add: host_char_def is_alnum_def is_lower_def parseHost_def)

lemma ex_route_name: "route_name ''app''"
  by (simp add: route_name_def subdomain_char_def label_char_def is_lower_def)

lemma ex_agent_request:
  "admitted ex_V ex_handler (agent_request ''10.0.0.1:1234'' ''1'' ''app'' [] ''u'' ''p'') ex_exposure"
  "authorized ex_secrets ex_exposure (agent_request ''10.0.0.1:1234'' ''1'' ''app'' [] ''u'' ''p'')"
proof -
  let ?r = "agent_request ''10.0.0.1:1234'' ''1'' ''app'' [] ''u'' ''p''"
  have "Resolve (Resolver []) ?r = (Addr4 0x0A000001, Addr4 0x0A000001, None)"
    by (simp add: Resolve_hops agent_request_def agent_header_def isTrusted_def normalizeAddr_def eval_simps)
  moreover have "parseRoute ex_V (EscapedPath (req_URL ?r)) = Some ''app''"
    by (rule agent_parseRoute [OF ex_route_name])
       (simp add: ValidateName_def ex_V_def subdomain_char_def label_char_def is_lower_def)
  ultimately show "admitted ex_V ex_handler ?r ex_exposure"
    by (simp add: admitted_def ex_handler_def AllowsClient_def ex_exposure_def has_payload_def)
       (simp add: agent_request_def)
  have "BasicAuth ?r = Some (''u'', ''p'')"
    by (rule BasicAuth_SetBasicAuth) (simp_all add: agent_request_def agent_header_def)
  then show "authorized ex_secrets ex_exposure ?r"
    by (simp add: authorized_def ex_exposure_def ex_secrets_def ex_creds_def NewBasic_Inr UsernameKey_def
        PasswordKey_def Verify_def Basic_matches_iff)
qed

lemma ex_body_length: "length (canonical_body ex_source ex_exposure) = 12"
  by (simp add: canonical_body_def ex_source_def ex_exposure_def body_entry_def data_get_def)

lemma ex_deliverable: "deliverable ex_handler"
proof -
  have "length (canonical_body ex_source ex_exposure) \<le> MaxExposureBytes"
    by (simp add: ex_body_length MaxExposureBytes_def)
  then show ?thesis
    by (auto simp: deliverable_def ex_handler_def available_def ex_exposure_def ex_secrets_def json_plain_def visible_def
        split: if_splits)
qed

end
