(* ===== verification/Gwtest.thy ===== *)
theory Gwtest
  imports Delivery "HOL-Library.AList"
begin

text \<open>
  \<^verbatim>\<open>agent/internal/gwtest/gwtest.go\<close>: the gateway that the agent's tests run against. Its values
  are an association list, because the body enumerates them; a nil map is the empty one. The maps a
  test hands over are copied here, the code shares them. The property says that the double answers
  like the gateway, so what the tests show of the agent holds for the real one.
\<close>

section \<open>Quoting\<close>

text \<open>
  \<^verbatim>\<open>strconv.Quote\<close>, which \<^verbatim>\<open>%q\<close> uses. Which code points outside ASCII are printable is a table of
  the \<^verbatim>\<open>unicode\<close> package and a parameter.
\<close>

definition hex_digit :: "nat \<Rightarrow> char" where
  "hex_digit n = (if n < 10 then chr_of (48 + n) else chr_of (87 + n))"

fun hex_digits :: "nat \<Rightarrow> nat \<Rightarrow> string" where
  "hex_digits 0 n = []"
| "hex_digits (Suc k) n = hex_digits k (n div 16) @ [hex_digit (n mod 16)]"

definition backslash :: char where
  "backslash = CHR 0x5C"

definition quote_rune :: "(nat \<Rightarrow> bool) \<Rightarrow> nat \<Rightarrow> string \<Rightarrow> string" where
  "quote_rune IsPrint r encoded =
     (if r = 0x22 \<or> r = 0x5C then backslash # encoded
      else if 0x20 \<le> r \<and> r < 0x7F \<or> 0x80 \<le> r \<and> IsPrint r then encoded
      else if r = 7 then [backslash, CHR ''a'']
      else if r = 8 then [backslash, CHR ''b'']
      else if r = 9 then [backslash, CHR ''t'']
      else if r = 10 then [backslash, CHR ''n'']
      else if r = 11 then [backslash, CHR ''v'']
      else if r = 12 then [backslash, CHR ''f'']
      else if r = 13 then [backslash, CHR ''r'']
      else if r < 0x20 \<or> r = 0x7F then [backslash, CHR ''x''] @ hex_digits 2 r
      else if r < 0x10000 then [backslash, CHR ''u''] @ hex_digits 4 r
      else [backslash, CHR ''U''] @ hex_digits 8 r)"

function quote_with :: "(nat \<Rightarrow> bool) \<Rightarrow> string \<Rightarrow> string" where
  "quote_with IsPrint s =
     (if s = [] then []
      else (if fst (DecodeRune s) = RuneError \<and> snd (DecodeRune s) = 1
            then [backslash, CHR ''x''] @ hex_digits 2 (byte_of (hd s))
            else quote_rune IsPrint (fst (DecodeRune s)) (take (snd (DecodeRune s)) s))
        @ quote_with IsPrint (drop (snd (DecodeRune s)) s))"
  by pat_completeness auto
termination
  by (relation "measure (length \<circ> snd)") auto

declare quote_with.simps [simp del]

definition Quote :: "(nat \<Rightarrow> bool) \<Rightarrow> string \<Rightarrow> string" where
  "Quote IsPrint s = [quote] @ quote_with IsPrint s @ [quote]"

section \<open>The double\<close>

record gw_Exposure =
  gx_Username :: string
  gx_Password :: string
  gx_Values :: "(string \<times> bytes) list"
  gx_UID :: string
  gx_Status :: nat

record gw_Gateway =
  gw_exposures :: "string \<rightharpoonup> gw_Exposure"
  gw_requests :: nat
  gw_notMod :: nat

definition gw_New :: gw_Gateway where
  "gw_New = \<lparr>gw_exposures = Map.empty, gw_requests = 0, gw_notMod = 0\<rparr>"

definition gw_Set :: "string \<Rightarrow> gw_Exposure \<Rightarrow> gw_Gateway \<Rightarrow> gw_Gateway" where
  "gw_Set name e g =
     (let e' = (if gx_UID e = [] then e\<lparr>gx_UID := ''uid-'' @ name\<rparr> else e)
      in g\<lparr>gw_exposures := (gw_exposures g)(name \<mapsto> e')\<rparr>)"

text \<open>For an unknown name \<^verbatim>\<open>Rotate\<close> panics, and the others dereference nil: \<^const>\<open>None\<close>.\<close>

definition gw_change :: "string \<Rightarrow> (gw_Exposure \<Rightarrow> gw_Exposure) \<Rightarrow> gw_Gateway \<Rightarrow> gw_Gateway option" where
  "gw_change name f g = (case gw_exposures g name of
      None \<Rightarrow> None
    | Some e \<Rightarrow> Some (g\<lparr>gw_exposures := (gw_exposures g)(name \<mapsto> f e)\<rparr>))"

definition gw_Rotate :: "string \<Rightarrow> (string \<times> bytes) list \<Rightarrow> gw_Gateway \<Rightarrow> gw_Gateway option" where
  "gw_Rotate name values =
     gw_change name (\<lambda>e. e\<lparr>gx_Values := fold (\<lambda>(k, v). AList.update k v) values (gx_Values e)\<rparr>)"

definition gw_Remove :: "string \<Rightarrow> string \<Rightarrow> gw_Gateway \<Rightarrow> gw_Gateway option" where
  "gw_Remove name key = gw_change name (\<lambda>e. e\<lparr>gx_Values := AList.delete key (gx_Values e)\<rparr>)"

definition gw_SetStatus :: "string \<Rightarrow> nat \<Rightarrow> gw_Gateway \<Rightarrow> gw_Gateway option" where
  "gw_SetStatus name st = gw_change name (\<lambda>e. e\<lparr>gx_Status := st\<rparr>)"

definition gw_Requests :: "gw_Gateway \<Rightarrow> nat \<times> nat" where
  "gw_Requests g = (gw_requests g, gw_notMod g)"

fun gw_body_loop :: "(nat \<Rightarrow> bool) \<Rightarrow> (string \<times> bytes) list \<Rightarrow> nat \<Rightarrow> string list \<Rightarrow> bytes" where
  "gw_body_loop IsPrint values i [] = []"
| "gw_body_loop IsPrint values i (k # ks) =
     (if 0 < i then '','' else [])
     @ Quote IsPrint k @ '':'' @ Quote IsPrint (EncodeToString (data_get (map_of values) k))
     @ gw_body_loop IsPrint values (Suc i) ks"

definition gw_body :: "(nat \<Rightarrow> bool) \<Rightarrow> (string \<times> bytes) list \<Rightarrow> bytes" where
  "gw_body IsPrint values = ''{'' @ gw_body_loop IsPrint values 0 (sort (map fst values)) @ ''}''"

definition gw_etag :: "bytes \<Rightarrow> string \<Rightarrow> string" where
  "gw_etag payload uid = [quote] @ ''hmac-sha256:'' @ hex_encode (hmac_sha256 uid payload) @ [quote]"

definition gw_ETag :: "(nat \<Rightarrow> bool) \<Rightarrow> string \<Rightarrow> gw_Gateway \<Rightarrow> string option" where
  "gw_ETag IsPrint name g =
     map_option (\<lambda>e. gw_etag (gw_body IsPrint (gx_Values e)) (gx_UID e)) (gw_exposures g name)"

definition gw_matches :: "string \<Rightarrow> string \<Rightarrow> bool" where
  "gw_matches header tag =
     list_ex (\<lambda>candidate. let c = TrimSpace candidate in c = ''*'' \<or> TrimPrefix c ''W/'' = tag) (Split header (CHR '',''))"

text \<open>\<^verbatim>\<open>http.Error\<close>; no \<^verbatim>\<open>Content-Length\<close> has been set before.\<close>

definition http_Error :: "string \<Rightarrow> nat \<Rightarrow> RespWriter \<Rightarrow> RespWriter" where
  "http_Error msg code w = rw_Write (msg @ [CHR 0x0A]) (rw_WriteHeader code
     (rw_set ''X-Content-Type-Options'' ''nosniff'' (rw_set ''Content-Type'' ''text/plain; charset=utf-8'' w)))"

definition gw_deliver :: "(nat \<Rightarrow> bool) \<Rightarrow> gw_Exposure \<Rightarrow> Request \<Rightarrow> gw_Gateway \<Rightarrow> RespWriter \<Rightarrow> RespWriter \<times> gw_Gateway" where
  "gw_deliver IsPrint e r g w =
     (let payload = gw_body IsPrint (gx_Values e);
          tag = gw_etag payload (gx_UID e);
          w1 = rw_set ''X-Content-Type-Options'' ''nosniff'' (rw_set ''Cache-Control'' ''no-store'' (rw_set ''ETag'' tag w));
          match = Header_Get r ''If-None-Match''
      in if match \<noteq> [] \<and> gw_matches match tag then (rw_WriteHeader 304 w1, g\<lparr>gw_notMod := Suc (gw_notMod g)\<rparr>)
         else let w2 = rw_WriteHeader 200 (rw_set ''Content-Length'' (Itoa (length payload))
                         (rw_set ''Content-Type'' ''application/json'' w1))
              in (if req_Method r \<noteq> ''HEAD'' then rw_Write payload w2 else w2, g))"

definition gw_serve :: "(nat \<Rightarrow> bool) \<Rightarrow> (nat \<Rightarrow> string) \<Rightarrow> Request \<Rightarrow> gw_Gateway \<Rightarrow> RespWriter \<Rightarrow> RespWriter \<times> gw_Gateway" where
  "gw_serve IsPrint StatusText' r g0 w =
     (let g = g0\<lparr>gw_requests := Suc (gw_requests g0)\<rparr> in
      if req_Method r \<noteq> ''GET'' \<and> req_Method r \<noteq> ''HEAD''
      then (http_Error ''Method Not Allowed'' 405 (rw_set ''Allow'' ''GET, HEAD'' w), g)
      else case CutPrefix (EscapedPath (req_URL r)) ''/exposures/'' of (name, ok) \<Rightarrow>
        if \<not> ok \<or> name = [] \<or> CHR ''/'' \<in> set name then (http_Error ''Not Found'' 404 w, g)
        else case gw_exposures g name of
            None \<Rightarrow> (http_Error ''Not Found'' 404 w, g)
          | Some e \<Rightarrow>
            if gx_Status e \<noteq> 0 then (http_Error (StatusText' (gx_Status e)) (gx_Status e) w, g)
            else if (case BasicAuth r of None \<Rightarrow> True | Some (user, pass) \<Rightarrow> user \<noteq> gx_Username e \<or> pass \<noteq> gx_Password e)
            then (http_Error ''Unauthorized'' 401 (rw_set ''WWW-Authenticate''
                    (''Basic realm='' @ [quote] @ ''kube-secret-gateway'' @ [quote]) w), g)
            else gw_deliver IsPrint e r g w)"

section \<open>The double answers like the gateway\<close>

lemma byte_eq_iff: "byte_of c = byte_of d \<longleftrightarrow> c = d"
  by (metis byte_of_inverse)

lemma quote_with_plain: "list_all json_plain s \<Longrightarrow> quote_with IsPrint s = s"
proof (induction s)
  case (Cons c s)
  then have "json_plain c" by simp
  then have "0x20 \<le> byte_of c" "byte_of c < 0x7F" "byte_of c \<noteq> 0x22" "byte_of c \<noteq> 0x5C"
    using byte_eq_iff [of c "CHR 0x22"] byte_eq_iff [of c "CHR 0x5C"] by (auto simp: json_plain_def visible_def)
  then show ?case using Cons
    by (subst quote_with.simps) (simp add: quote_rune_def RuneError_def)
qed (simp add: quote_with.simps)

lemma gw_body_loop_eq:
  assumes "list_all (list_all json_plain) ks" and "\<forall>k\<in>set ks. data_get (map_of values) k = data_get data k"
  shows "gw_body_loop IsPrint values i ks = body_loop data i ks"
  using assms
  by (induction ks arbitrary: i) (simp_all add: Quote_def quote_with_plain EncodeToString_json_plain body_entry_def)

text \<open>The Secrets of an exposure hold the credentials and the values of the double.\<close>

definition same_exposure :: "SecretSource \<Rightarrow> Exposure \<Rightarrow> gw_Exposure \<Rightarrow> bool" where
  "same_exposure secrets e x \<longleftrightarrow> gx_Status x = 0
     \<and> (\<exists>a. secrets (Auth_SecretRef (exp_Auth e)) = Inr a \<and> sec_Present a \<and> sec_Data a UsernameKey = Some (gx_Username x)
          \<and> sec_Data a PasswordKey = Some (gx_Password x) \<and> gx_Username x \<noteq> [] \<and> gx_Password x \<noteq> [])
     \<and> (\<exists>s. secrets (exp_Source e) = Inr s \<and> sec_Present s \<and> sec_UID s = gx_UID x
          \<and> sort (exp_Keys e) = sort (map fst (gx_Values x)) \<and> list_all (list_all json_plain) (exp_Keys e)
          \<and> [] \<notin> set (exp_Keys e) \<and> (\<forall>k\<in>set (exp_Keys e). sec_Data s k = map_of (gx_Values x) k))"

definition imitates :: "k8s_validation \<Rightarrow> Handler \<Rightarrow> gw_Gateway \<Rightarrow> bool" where
  "imitates V h g \<longleftrightarrow> (\<forall>name. ValidateName V name = None \<longrightarrow> (case h_exposures h name of
         None \<Rightarrow> gw_exposures g name = None
       | Some e \<Rightarrow> \<exists>x. gw_exposures g name = Some x \<and> same_exposure (h_secrets h) e x))
     \<and> (\<forall>name x. gw_exposures g name = Some x \<longrightarrow> ValidateName V name = None)
     \<and> ValidateName V [] \<noteq> None"

text \<open>A request for which the two must agree: without a payload, from an allowed client.\<close>

definition comparable :: "Handler \<Rightarrow> gw_Gateway \<Rightarrow> Request \<Rightarrow> bool" where
  "comparable h g r \<longleftrightarrow> \<not> has_payload r \<and> length (Header_Values r ''If-None-Match'') \<le> 1
     \<and> (\<forall>name e. h_exposures h name = Some e \<longrightarrow>
          (\<exists>client peer. Resolve (h_clientIP h) r = (client, peer, None) \<and> AllowsClient e client))
     \<and> (\<forall>u p name x. BasicAuth r = Some (u, p) \<longrightarrow> gw_exposures g name = Some x \<longrightarrow>
          no_collision u (gx_Username x) \<and> no_collision p (gx_Password x))"

definition double :: "(nat \<Rightarrow> bool) \<Rightarrow> (nat \<Rightarrow> string) \<Rightarrow> gw_Gateway \<Rightarrow> Request \<Rightarrow> RespWriter" where
  "double IsPrint StatusText' g r = fst (gw_serve IsPrint StatusText' r g (new_response (req_Method r)))"

definition alike :: "RespWriter \<Rightarrow> RespWriter \<Rightarrow> bool" where
  "alike w f \<longleftrightarrow> rw_status w = rw_status f \<and> rw_body w = rw_body f \<and> (rw_status w \<in> {200, 304} \<longrightarrow> rw_sent w = rw_sent f)"

lemma http_Error_new:
  "code \<noteq> 0 \<Longrightarrow> code \<noteq> 304 \<Longrightarrow> rw_status (http_Error msg code (new_response m)) = code
    \<and> rw_body (http_Error msg code (new_response m)) = (if m = ''HEAD'' then [] else msg @ [CHR 0x0A])"
  "code \<noteq> 0 \<Longrightarrow> code \<noteq> 304 \<Longrightarrow> rw_status (http_Error msg code (rw_set k v (new_response m))) = code
    \<and> rw_body (http_Error msg code (rw_set k v (new_response m))) = (if m = ''HEAD'' then [] else msg @ [CHR 0x0A])"
  by (simp_all add: http_Error_def rw_set_def rw_WriteHeader_def rw_Write_def new_response_def Let_def)

lemma gw_etag_ETag: "gw_etag = ETag"
  by (simp add: fun_eq_iff gw_etag_def ETag_def)

lemma gw_matches_conditional:
  assumes "length (Header_Values r ''If-None-Match'') \<le> 1"
  shows "(Header_Get r ''If-None-Match'' \<noteq> [] \<and> gw_matches (Header_Get r ''If-None-Match'') (ETag b u)) = conditional r b u"
proof (cases "req_Header r ''If-None-Match''")
  case Nil
  then show ?thesis by (simp add: Header_Get_def conditional_def Header_Values_def etagMatches_def)
next
  case (Cons v vs)
  with assms have v: "req_Header r ''If-None-Match'' = [v]" by (simp add: Header_Values_def)
  have "TrimSpace [] = []" by code_simp
  then have "\<not> gw_matches [] (ETag b u)" by (simp add: gw_matches_def TrimPrefix_def HasPrefix_def ETag_def)
  with v show ?thesis
    by (auto simp: Header_Get_def conditional_def Header_Values_def etagMatches_def gw_matches_def)
qed

lemma same_exposureE:
  assumes "same_exposure secrets e x"
  obtains a s v where "gx_Status x = 0" "secrets (Auth_SecretRef (exp_Auth e)) = Inr a" "sec_Present a"
    "NewBasic (sec_Data a) = Inr v" "v = \<lparr>b_username = Sum256 (gx_Username x), b_password = Sum256 (gx_Password x)\<rparr>"
    "secrets (exp_Source e) = Inr s" "sec_Present s" "sec_UID s = gx_UID x"
    "sort (exp_Keys e) = sort (map fst (gx_Values x))" "list_all (list_all json_plain) (exp_Keys e)" "[] \<notin> set (exp_Keys e)"
    "\<And>k. k \<in> set (exp_Keys e) \<Longrightarrow> sec_Data s k = map_of (gx_Values x) k"
    "list_all (\<lambda>k. sec_Data s k \<noteq> None) (exp_Keys e)"
proof -
  from assms obtain a s where x: "gx_Status x = 0"
    and a: "secrets (Auth_SecretRef (exp_Auth e)) = Inr a" "sec_Present a" "sec_Data a UsernameKey = Some (gx_Username x)"
      "sec_Data a PasswordKey = Some (gx_Password x)" "gx_Username x \<noteq> []" "gx_Password x \<noteq> []"
    and s: "secrets (exp_Source e) = Inr s" "sec_Present s" "sec_UID s = gx_UID x"
      "sort (exp_Keys e) = sort (map fst (gx_Values x))" "list_all (list_all json_plain) (exp_Keys e)" "[] \<notin> set (exp_Keys e)"
      "\<forall>k\<in>set (exp_Keys e). sec_Data s k = map_of (gx_Values x) k"
    unfolding same_exposure_def by blast
  have "set (exp_Keys e) = set (map fst (gx_Values x))" using s(4) by (metis set_sort)
  then have "map_of (gx_Values x) k \<noteq> None" if "k \<in> set (exp_Keys e)" for k
    using that by (simp add: map_of_eq_None_iff del: not_None_eq)
  then have "list_all (\<lambda>k. sec_Data s k \<noteq> None) (exp_Keys e)" using s(7) by (simp add: list_all_iff del: not_None_eq)
  with x a s show thesis by (intro that) (auto simp: NewBasic_Inr)
qed

lemma same_exposure_body:
  assumes "same_exposure secrets e x" and "secrets (exp_Source e) = Inr s"
  shows "gw_body IsPrint (gx_Values x) = canonical_body s e" and "gx_UID x = sec_UID s"
proof -
  obtain s' where "secrets (exp_Source e) = Inr s'" "sec_UID s' = gx_UID x" and keys: "sort (map fst (gx_Values x)) = sort (exp_Keys e)"
    and plain: "list_all (list_all json_plain) (exp_Keys e)"
    and data: "\<And>k. k \<in> set (exp_Keys e) \<Longrightarrow> sec_Data s' k = map_of (gx_Values x) k"
    using assms(1) by (rule same_exposureE) simp
  moreover from this assms(2) have "s' = s" by simp
  moreover have "list_all (list_all json_plain) (sort (exp_Keys e))" using plain by (simp add: list_all_iff)
  ultimately show "gw_body IsPrint (gx_Values x) = canonical_body s e" "gx_UID x = sec_UID s"
    unfolding gw_body_def canonical_body_def keys by (auto intro!: gw_body_loop_eq simp: data_get_def)
qed

lemma gw_deliver_new:
  assumes "same_exposure secrets e x" and "secrets (exp_Source e) = Inr s" and "length (Header_Values r ''If-None-Match'') \<le> 1"
  shows "fst (gw_deliver IsPrint x r g (new_response (req_Method r))) = body_response r (canonical_body s e) (sec_UID s)"
proof -
  note m = gw_matches_conditional [OF assms(3), of "canonical_body s e" "sec_UID s"]
  show ?thesis
    unfolding gw_deliver_def Let_def same_exposure_body [OF assms(1,2)] gw_etag_ETag m body_response_def
    by (simp add: not_modified_response_def ok_response_def body_headers_def new_response_def rw_set_def header_set_def
        rw_WriteHeader_def rw_Write_def Let_def)
qed

lemma same_exposure_Verify:
  assumes "v = \<lparr>b_username = Sum256 (gx_Username x), b_password = Sum256 (gx_Password x)\<rparr>" and "\<And>u p. BasicAuth r = Some (u, p) \<Longrightarrow> no_collision u (gx_Username x) \<and> no_collision p (gx_Password x)"
  shows "Verify v r \<longleftrightarrow> BasicAuth r = Some (gx_Username x, gx_Password x)"
  using assms by (auto simp: Verify_def Basic_matches_iff no_collision_def split: option.splits)

lemma imitates_exposure:
  assumes "imitates V h g" and "ValidateName V name = None" and "h_exposures h name = Some e"
  shows "\<exists>x. gw_exposures g name = Some x \<and> same_exposure (h_secrets h) e x"
proof -
  from assms(1,2) have "case h_exposures h name of None \<Rightarrow> gw_exposures g name = None
      | Some e \<Rightarrow> \<exists>x. gw_exposures g name = Some x \<and> same_exposure (h_secrets h) e x"
    unfolding imitates_def by blast
  with assms(3) show ?thesis by simp
qed

lemma parseRoute_Some:
  "parseRoute V p = Some name \<longleftrightarrow> CutPrefix p exposuresPrefix = (name, True) \<and> CHR ''/'' \<notin> set name \<and> ValidateName V name = None"
  by (auto simp: parseRoute_def split: prod.splits if_splits)

text \<open>The route, as the double sees it.\<close>

lemma double_routed:
  assumes "parseRoute V (EscapedPath (req_URL r)) = Some name" and "ValidateName V [] \<noteq> None" and "gw_exposures g name = Some x"
    and "gx_Status x = 0" and "req_Method r = ''GET'' \<or> req_Method r = ''HEAD''"
  shows "double IsPrint StatusText' g r = (if BasicAuth r = Some (gx_Username x, gx_Password x)
    then fst (gw_deliver IsPrint x r (g\<lparr>gw_requests := Suc (gw_requests g)\<rparr>) (new_response (req_Method r)))
    else http_Error ''Unauthorized'' 401 (rw_set ''WWW-Authenticate''
      (''Basic realm='' @ [quote] @ ''kube-secret-gateway'' @ [quote]) (new_response (req_Method r))))"
proof -
  have r: "CutPrefix (EscapedPath (req_URL r)) ''/exposures/'' = (name, True)" "name \<noteq> []" "CHR ''/'' \<notin> set name"
    using assms(1,2) by (auto simp: parseRoute_Some exposuresPrefix_def)
  show ?thesis using assms(3-5) r
    by (auto simp: double_def gw_serve_def Let_def split: option.splits)
qed

lemma double_refused:
  assumes "imitates V h g" and "comparable h g r" and "\<And>e. \<not> admitted V h r e"
  shows "alike (refusal r) (double IsPrint StatusText' g r)"
proof (cases "req_Method r = ''GET'' \<or> req_Method r = ''HEAD''")
  case False
  then show ?thesis
    by (simp add: alike_def refusal_def double_def gw_serve_def Let_def http_Error_new StatusText_def)
next
  case True
  obtain name ok where c: "CutPrefix (EscapedPath (req_URL r)) ''/exposures/'' = (name, ok)" by fastforce
  have "gw_exposures g name = None" if "ok" "CHR ''/'' \<notin> set name"
  proof (rule ccontr)
    assume "gw_exposures g name \<noteq> None"
    then have valid: "ValidateName V name = None" using assms(1) by (auto simp: imitates_def)
    then obtain e where e: "h_exposures h name = Some e"
      using assms(1) \<open>gw_exposures g name \<noteq> None\<close> by (fastforce simp: imitates_def split: option.splits)
    have "admitted V h r e"
      using True e valid that c assms(2) by (auto simp: admitted_def comparable_def parseRoute_Some exposuresPrefix_def)
    with assms(3) show False by blast
  qed
  with True c show ?thesis
    by (auto simp: alike_def refusal_def double_def gw_serve_def Let_def http_Error_new StatusText_def)
qed

lemma double_alike:
  assumes "imitates V h g" and "comparable h g r"
  shows "\<exists>w. response V h r = Some w \<and> alike w (double IsPrint StatusText' g r)"
proof (cases "\<exists>e. admitted V h r e")
  case False
  then show ?thesis using response_refused [of V h r] double_refused [OF assms] by blast
next
  case True
  then obtain e where e: "admitted V h r e" by blast
  then obtain name where r: "parseRoute V (EscapedPath (req_URL r)) = Some name" "h_exposures h name = Some e"
    "req_Method r = ''GET'' \<or> req_Method r = ''HEAD''" by (auto simp: admitted_def)
  then have "ValidateName V name = None" by (simp add: parseRoute_Some)
  then obtain x where x: "gw_exposures g name = Some x" "same_exposure (h_secrets h) e x"
    using imitates_exposure [OF assms(1) _ r(2)] by blast
  from x(2) obtain a s v where a: "gx_Status x = 0" "h_secrets h (Auth_SecretRef (exp_Auth e)) = Inr a" "sec_Present a"
    "NewBasic (sec_Data a) = Inr v" "v = \<lparr>b_username = Sum256 (gx_Username x), b_password = Sum256 (gx_Password x)\<rparr>"
    "h_secrets h (exp_Source e) = Inr s" "sec_Present s" "[] \<notin> set (exp_Keys e)" "list_all (\<lambda>k. sec_Data s k \<noteq> None) (exp_Keys e)"
    by (rule same_exposureE)
  have ver: "Verify v r \<longleftrightarrow> BasicAuth r = Some (gx_Username x, gx_Password x)"
    using same_exposure_Verify [OF a(5), of r] assms(2) x(1) unfolding comparable_def by blast
  note d = double_routed [OF r(1) _ x(1) a(1) r(3), of IsPrint StatusText']
  have nil: "ValidateName V [] \<noteq> None" using assms(1) by (simp add: imitates_def)
  show ?thesis
  proof (cases "Verify v r")
    case True
    have "response V h r = Some (body_response r (canonical_body s e) (sec_UID s))"
      using pipeline_admitted [OF e] a True deliver_new [OF a(8)] by (auto simp: response_pipeline authenticate_new)
    moreover have "double IsPrint StatusText' g r = body_response r (canonical_body s e) (sec_UID s)"
      using d [OF nil] True ver gw_deliver_new [OF x(2) a(6)] assms(2) by (simp add: comparable_def)
    ultimately show ?thesis by (simp add: alike_def)
  next
    case False
    have "response V h r = Some (challenge_response r)"
      using pipeline_admitted [OF e] a False by (auto simp: response_pipeline authenticate_new)
    moreover have "alike (challenge_response r) (double IsPrint StatusText' g r)"
      using d [OF nil] False ver by (simp add: alike_def challenge_response_def http_Error_new StatusText_def)
    ultimately show ?thesis by blast
  qed
qed

text \<open>
  C17: the test double conforms. When the Secrets of a gateway hold what the double was given, then
  for every request without a payload from an allowed client the two answer alike: the same status
  and the same body, and with a body or a 304 also the same headers, the entity tag among them.
\<close>

theorem gwtest_conforms:
  assumes "imitates V h g" and "comparable h g r"
  shows "\<exists>w. response V h r = Some w \<and> alike w (double IsPrint StatusText' g r)"
  by (rule double_alike [OF assms])

section \<open>The agent cannot tell the two apart\<close>

definition double_transport :: "(nat \<Rightarrow> bool) \<Rightarrow> (nat \<Rightarrow> string) \<Rightarrow> gw_Gateway \<Rightarrow> string \<Rightarrow> client_request \<Rightarrow> string + client_response" where
  "double_transport IsPrint StatusText' g remote req = (case wire remote req of
      None \<Rightarrow> Inl ''EOF''
    | Some r \<Rightarrow> let w = double IsPrint StatusText' g r in
        Inr \<lparr>resp_StatusCode = rw_status w, resp_Header = rw_sent w, resp_Body = rw_body w, resp_BodyFails = False\<rparr>)"

lemma Fetch_double:
  assumes "gateway_client c" and "c_http c = double_transport IsPrint StatusText' g remote" and "route_name name"
  shows "Fetch c name etag username password
    = fetch_outcome name (Some (double IsPrint StatusText' g (agent_request remote (c_version c) name etag username password)))"
proof -
  obtain req where req: "exposure_request c name etag username password = Some req"
      "wire remote req = Some (agent_request remote (c_version c) name etag username password)"
    using exposure_request_root [OF assms(1,3)] wire_root [OF assms(3)] by blast
  show ?thesis
    by (auto simp add: Fetch_def req assms(2) double_transport_def fetch_outcome_def Let_def split: sum.split)
qed

lemma fetch_outcome_alike: "alike w f \<Longrightarrow> fetch_outcome name (Some w) = fetch_outcome name (Some f)"
  by (simp add: alike_def fetch_outcome_def Let_def)

text \<open>Every result and every error of a fetch from the double is that of a fetch from the gateway.\<close>

lemma Fetch_double_gateway:
  assumes "gateway_client c" and "route_name name" and "imitates V h g"
    and "comparable h g (agent_request remote (c_version c) name etag username password)"
  shows "Fetch (c\<lparr>c_http := double_transport IsPrint StatusText' g remote\<rparr>) name etag username password
    = Fetch (c\<lparr>c_http := gateway_transport V h remote\<rparr>) name etag username password"
proof -
  have c: "gateway_client (c\<lparr>c_http := t\<rparr>)" for t using assms(1) by (simp add: gateway_client_def)
  let ?r = "agent_request remote (c_version c) name etag username password"
  obtain w where w: "response V h ?r = Some w" "alike w (double IsPrint StatusText' g ?r)"
    using double_alike [OF assms(3,4)] by blast
  with Fetch_double [OF c _ assms(2)] Fetch_gateway [OF c _ assms(2)] fetch_outcome_alike [OF w(2)] show ?thesis by simp
qed

section \<open>Examples\<close>

definition ex_double :: gw_Gateway where
  "ex_double = gw_Set ''app'' \<lparr>gx_Username = ''u'', gx_Password = ''p'', gx_Values = [(''k'', ''v'')], gx_UID = ''d'',
     gx_Status = 0\<rparr> gw_New"

lemma ex_double_exposures: "gw_exposures ex_double = [''app'' \<mapsto> \<lparr>gx_Username = ''u'', gx_Password = ''p'',
    gx_Values = [(''k'', ''v'')], gx_UID = ''d'', gx_Status = 0\<rparr>]"
  by (simp add: ex_double_def gw_Set_def gw_New_def)

lemma ex_imitates: "imitates ex_V ex_handler ex_double"
proof -
  have "ValidateName ex_V ''app'' = None" "ValidateName ex_V [] \<noteq> None"
    using ex_parseRoute by (simp_all add: parseRoute_Some ValidateName_def ex_V_def)
  moreover have "same_exposure ex_secrets ex_exposure \<lparr>gx_Username = ''u'', gx_Password = ''p'', gx_Values = [(''k'', ''v'')],
      gx_UID = ''d'', gx_Status = 0\<rparr>"
    by (simp add: same_exposure_def ex_secrets_def ex_exposure_def ex_creds_def ex_source_def UsernameKey_def PasswordKey_def
        json_plain_def visible_def)
  ultimately show ?thesis by (simp add: imitates_def ex_handler_def ex_double_exposures)
qed

lemma ex_comparable: "comparable ex_handler ex_double (ex_login ''p'')"
proof -
  have "BasicAuth (ex_login ''p'') = Some (''u'', ''p'')"
    by (rule BasicAuth_SetBasicAuth) (simp_all add: ex_login_def with_header_def)
  moreover have "Header_Values (ex_login ''p'') ''If-None-Match'' = []"
    by (simp add: ex_login_def with_header_def ex_request_def Header_Values_def forwardedForHeader_def)
  ultimately show ?thesis
    by (simp add: comparable_def ex_handler_def ex_exposure_def AllowsClient_def ex_double_exposures)
qed

theorem gwtest_conforms_witness:
  "alike (ok_response ''GET'' (canonical_body ex_source ex_exposure) ''d'') (double (\<lambda>_. False) (\<lambda>_. []) ex_double (ex_login ''p''))"
  using gwtest_conforms [OF ex_imitates ex_comparable, of "\<lambda>_. False" "\<lambda>_. []"] ex_ok by (simp add: ex_source_def)

end
