(* ===== verification/Agent_Config.thy ===== *)
theory Agent_Config
  imports Exposure Go_Parse Go_Url
begin

text \<open>
  \<^verbatim>\<open>agent/internal/config/config.go\<close>: the agent's configuration, with every check of
  \<^verbatim>\<open>document.resolve\<close> in the order of the code. A problem has a constructor for each message, with
  its arguments. The YAML decoder is a parameter, as for the gateway. The two regular expressions
  are bool-valued functions; with them the contract \<open>k8s_names\<close> of the Kubernetes validators has
  an instance that the repository itself contains.
\<close>

section \<open>Data\<close>

definition agent_DefaultMetricsListenAddress :: string where
  "agent_DefaultMetricsListenAddress = ''0.0.0.0:9091''"

definition DefaultTimeout :: duration where
  "DefaultTimeout = 30 * second"

definition MinTimeout :: duration where
  "MinTimeout = second"

definition MaxTimeout :: duration where
  "MaxTimeout = 10 * minute"

definition DefaultInterval :: duration where
  "DefaultInterval = 5 * minute"

definition MinInterval :: duration where
  "MinInterval = 10 * second"

definition MaxInterval :: duration where
  "MaxInterval = 7 * 24 * hour"

type_synonym FileMode = "32 word"

text \<open>\<open>0o600\<close>.\<close>

definition DefaultFileMode :: FileMode where
  "DefaultFileMode = 0x180"

record Gateway =
  gw_URL :: "Full_URL option"
  gw_CAFile :: string
  gw_Timeout :: duration

record agent_Auth =
  Username :: string
  PasswordFile :: string

record Target =
  t_Key :: string
  t_Path :: string
  t_Mode :: FileMode

record agent_Exposure =
  e_Name :: string
  e_Auth :: agent_Auth
  e_Interval :: duration
  e_OnChangeCommand :: "string list"
  e_Targets :: "Target list"

record agent_Config =
  a_Gateway :: Gateway
  a_MetricsListenAddress :: string
  a_Exposures :: "agent_Exposure list"

record targetDoc =
  td_Key :: string
  td_Path :: string
  td_Mode :: string

record exposureDoc =
  ed_Name :: string
  ed_Auth :: "agent_Auth option"
  ed_Interval :: string
  ed_Targets :: "targetDoc list"
  ed_OnChangeCommand :: "string list option"

record agent_document =
  ad_URL :: string
  ad_CAFile :: string
  ad_Timeout :: string
  ad_MetricsListenAddress :: "string option"
  ad_Exposures :: "exposureDoc list"

datatype agent_listen_error = MustNotBeEmpty | InvalidAddress string | InvalidPort string string

datatype agent_problem =
    URLRequired
  | URLInvalid string
  | URLScheme string
  | URLNoHost string
  | URLCarries string
  | TimeoutInvalid string
  | TimeoutOutside duration
  | MetricsListenAddress agent_listen_error
  | ExposuresEmpty
  | NameRequired nat
  | NameInvalid nat string
  | NameDuplicate nat string nat
  | AuthRequired nat
  | UsernameRequired nat
  | PasswordFileRequired nat
  | PasswordFileRelative nat string
  | IntervalInvalid nat string
  | IntervalOutside nat duration
  | CommandEmpty nat
  | TargetsEmpty nat
  | TargetKeyRequired nat nat
  | TargetKeyInvalid nat nat string
  | TargetKeyDuplicate nat nat string nat
  | TargetPathRequired nat nat
  | TargetPathRelative nat nat string
  | TargetPathDirectory nat nat string
  | TargetPathDuplicate nat nat string string "nat \<times> nat"
  | TargetModeNotOctal nat nat string
  | TargetModeBits nat nat string

section \<open>Regular expressions\<close>

definition dns1123LabelPattern :: "string \<Rightarrow> bool" where
  "dns1123LabelPattern s \<longleftrightarrow> s \<noteq> [] \<and> list_all label_char s \<and> hd s \<noteq> CHR ''-'' \<and> last s \<noteq> CHR ''-''"

definition nameRE :: "string \<Rightarrow> bool" where
  "nameRE s = list_all dns1123LabelPattern (Split s (CHR ''.''))"

definition keyRE :: "string \<Rightarrow> bool" where
  "keyRE s \<longleftrightarrow> s \<noteq> [] \<and> list_all key_char s"

section \<open>Validation\<close>

definition agent_validateListenAddress :: "string \<Rightarrow> agent_listen_error option" where
  "agent_validateListenAddress addr =
     (if addr = [] then Some MustNotBeEmpty
      else case SplitHostPort addr of
          None \<Rightarrow> Some (InvalidAddress addr)
        | Some (host, port) \<Rightarrow> if ParseUint port 10 16 = None then Some (InvalidPort port addr) else None)"

definition resolve_url :: "string \<Rightarrow> agent_problem list \<times> Full_URL option" where
  "resolve_url raw =
     (if raw = [] then ([URLRequired], None)
      else case url_Parse raw of
          None \<Rightarrow> ([URLInvalid raw], None)
        | Some u \<Rightarrow>
          if url_Scheme u \<noteq> ''http'' \<and> url_Scheme u \<noteq> ''https'' then ([URLScheme raw], None)
          else if url_Host u = [] then ([URLNoHost raw], None)
          else if url_RawQuery u \<noteq> [] \<or> url_Fragment u \<noteq> [] \<or> url_hasUser u then ([URLCarries raw], None)
          else ([], Some (u\<lparr>url_Path := TrimSuffix (url_Path u) ''/''\<rparr>)))"

definition resolve_timeout :: "string \<Rightarrow> agent_problem list \<times> duration" where
  "resolve_timeout s =
     (if s = [] then ([], DefaultTimeout)
      else case ParseDuration s of
          None \<Rightarrow> ([TimeoutInvalid s], DefaultTimeout)
        | Some t \<Rightarrow> if t < MinTimeout \<or> MaxTimeout < t then ([TimeoutOutside t], DefaultTimeout) else ([], t))"

definition resolve_name :: "nat \<Rightarrow> (string \<rightharpoonup> nat) \<Rightarrow> string \<Rightarrow> agent_problem list \<times> (string \<rightharpoonup> nat)" where
  "resolve_name i seenName name =
     (if name = [] then ([NameRequired i], seenName)
      else if \<not> nameRE name \<or> 253 < length name then ([NameInvalid i name], seenName)
      else case seenName name of
          Some j \<Rightarrow> ([NameDuplicate i name j], seenName)
        | None \<Rightarrow> ([], seenName(name \<mapsto> i)))"

definition resolve_auth :: "nat \<Rightarrow> agent_Auth option \<Rightarrow> agent_problem list \<times> agent_Auth" where
  "resolve_auth i auth = (case auth of
      None \<Rightarrow> ([AuthRequired i], \<lparr>Username = [], PasswordFile = []\<rparr>)
    | Some a \<Rightarrow> ((if Username a = [] then [UsernameRequired i] else [])
        @ (if PasswordFile a = [] then [PasswordFileRequired i]
           else if \<not> path_IsAbs (PasswordFile a) then [PasswordFileRelative i (PasswordFile a)] else []), a))"

definition resolve_interval :: "nat \<Rightarrow> string \<Rightarrow> agent_problem list \<times> duration" where
  "resolve_interval i s =
     (if s = [] then ([], DefaultInterval)
      else case ParseDuration s of
          None \<Rightarrow> ([IntervalInvalid i s], DefaultInterval)
        | Some d \<Rightarrow> if d < MinInterval \<or> MaxInterval < d then ([IntervalOutside i d], DefaultInterval) else ([], d))"

definition resolve_command :: "nat \<Rightarrow> string list option \<Rightarrow> agent_problem list \<times> string list" where
  "resolve_command i cmd = (case cmd of
      None \<Rightarrow> ([], [])
    | Some c \<Rightarrow> if c = [] \<or> hd c = [] then ([CommandEmpty i], []) else ([], c))"

definition resolve_key :: "nat \<Rightarrow> nat \<Rightarrow> (string \<rightharpoonup> nat) \<Rightarrow> string \<Rightarrow> agent_problem list \<times> (string \<rightharpoonup> nat)" where
  "resolve_key i j seenKey key =
     (if key = [] then ([TargetKeyRequired i j], seenKey)
      else if \<not> keyRE key then ([TargetKeyInvalid i j key], seenKey)
      else case seenKey key of
          Some first \<Rightarrow> ([TargetKeyDuplicate i j key first], seenKey)
        | None \<Rightarrow> ([], seenKey(key \<mapsto> j)))"

text \<open>\<open>seenPath\<close> maps a path to the target it belongs to, by the two indices of its \<^verbatim>\<open>targetWhere\<close>.\<close>

definition resolve_path :: "nat \<Rightarrow> nat \<Rightarrow> (string \<rightharpoonup> nat \<times> nat) \<Rightarrow> string
    \<Rightarrow> agent_problem list \<times> (string \<rightharpoonup> nat \<times> nat) \<times> string" where
  "resolve_path i j seenPath path =
     (if path = [] then ([TargetPathRequired i j], seenPath, [])
      else if \<not> path_IsAbs path then ([TargetPathRelative i j path], seenPath, [])
      else if HasSuffix path ''/'' then ([TargetPathDirectory i j path], seenPath, [])
      else let cleanPath = path_Clean path in
        case seenPath cleanPath of
          Some owner \<Rightarrow> ([TargetPathDuplicate i j path cleanPath owner], seenPath, cleanPath)
        | None \<Rightarrow> ([], seenPath(cleanPath \<mapsto> (i, j)), cleanPath))"

definition resolve_mode :: "nat \<Rightarrow> nat \<Rightarrow> string \<Rightarrow> agent_problem list \<times> FileMode" where
  "resolve_mode i j m =
     (if m = [] then ([], DefaultFileMode)
      else case ParseUint m 8 32 of
          None \<Rightarrow> ([TargetModeNotOctal i j m], DefaultFileMode)
        | Some mode \<Rightarrow>
          if \<not> HasPrefix m ''0'' then ([TargetModeNotOctal i j m], DefaultFileMode)
          else if 0x1FF < mode then ([TargetModeBits i j m], DefaultFileMode)
          else ([], word_of_nat mode))"

fun targets_loop :: "nat \<Rightarrow> nat \<Rightarrow> (string \<rightharpoonup> nat) \<Rightarrow> (string \<rightharpoonup> nat \<times> nat) \<Rightarrow> targetDoc list
    \<Rightarrow> agent_problem list \<times> (string \<rightharpoonup> nat \<times> nat) \<times> Target list" where
  "targets_loop i j seenKey seenPath [] = ([], seenPath, [])"
| "targets_loop i j seenKey seenPath (t # ts) =
     (case resolve_key i j seenKey (td_Key t) of (p1, seenKey') \<Rightarrow>
      case resolve_path i j seenPath (td_Path t) of (p2, seenPath', path) \<Rightarrow>
      case resolve_mode i j (td_Mode t) of (p3, mode) \<Rightarrow>
      case targets_loop i (Suc j) seenKey' seenPath' ts of (ps, seenPath'', targets) \<Rightarrow>
        (p1 @ p2 @ p3 @ ps, seenPath'', \<lparr>t_Key = td_Key t, t_Path = path, t_Mode = mode\<rparr> # targets))"

fun agent_exposures_loop :: "nat \<Rightarrow> (string \<rightharpoonup> nat) \<Rightarrow> (string \<rightharpoonup> nat \<times> nat) \<Rightarrow> exposureDoc list
    \<Rightarrow> agent_problem list \<times> agent_Exposure list" where
  "agent_exposures_loop i seenName seenPath [] = ([], [])"
| "agent_exposures_loop i seenName seenPath (r # rs) =
     (case resolve_name i seenName (ed_Name r) of (p1, seenName') \<Rightarrow>
      case resolve_auth i (ed_Auth r) of (p2, auth) \<Rightarrow>
      case resolve_interval i (ed_Interval r) of (p3, interval) \<Rightarrow>
      case resolve_command i (ed_OnChangeCommand r) of (p4, command) \<Rightarrow>
      case targets_loop i 0 Map.empty seenPath (ed_Targets r) of (p6, seenPath', targets) \<Rightarrow>
      case agent_exposures_loop (Suc i) seenName' seenPath' rs of (ps, es) \<Rightarrow>
        (p1 @ p2 @ p3 @ p4 @ (if ed_Targets r = [] then [TargetsEmpty i] else []) @ p6 @ ps,
         \<lparr>e_Name = ed_Name r, e_Auth = auth, e_Interval = interval, e_OnChangeCommand = command,
          e_Targets = targets\<rparr> # es))"

definition agent_resolve :: "agent_document \<Rightarrow> agent_problem list + agent_Config" where
  "agent_resolve d =
     (case resolve_url (ad_URL d) of (p1, url) \<Rightarrow>
      case resolve_timeout (ad_Timeout d) of (p2, timeout) \<Rightarrow>
      let addr = (case ad_MetricsListenAddress d of None \<Rightarrow> agent_DefaultMetricsListenAddress | Some a \<Rightarrow> a);
          p3 = (case agent_validateListenAddress addr of None \<Rightarrow> [] | Some e \<Rightarrow> [MetricsListenAddress e]);
          p4 = (if ad_Exposures d = [] then [ExposuresEmpty] else []) in
      case agent_exposures_loop 0 Map.empty Map.empty (ad_Exposures d) of (p5, exposures) \<Rightarrow>
      let problems = p1 @ p2 @ p3 @ p4 @ p5 in
      if problems \<noteq> [] then Inl problems
      else Inr \<lparr>a_Gateway = \<lparr>gw_URL = url, gw_CAFile = ad_CAFile d, gw_Timeout = timeout\<rparr>,
                a_MetricsListenAddress = addr, a_Exposures = exposures\<rparr>)"

section \<open>Parsing, loading and credentials\<close>

datatype 'a yaml_decoded = Decoded 'a | EndOfInput | MalformedInput string

datatype agent_config_error = Problems "agent_problem list" | EmptyConfiguration | NotSingleDocument
  | MalformedYAML string | ReadError string

definition agent_Parse :: "(bytes \<Rightarrow> agent_document yaml_decoded) \<Rightarrow> (bytes \<Rightarrow> unit yaml_decoded) \<Rightarrow> bytes
    \<Rightarrow> agent_config_error + agent_Config" where
  "agent_Parse first_doc second_doc data = (case first_doc data of
      EndOfInput \<Rightarrow> Inl EmptyConfiguration
    | MalformedInput e \<Rightarrow> Inl (MalformedYAML e)
    | Decoded doc \<Rightarrow> (case second_doc data of
        MalformedInput e \<Rightarrow> Inl (MalformedYAML e)
      | Decoded _ \<Rightarrow> Inl NotSingleDocument
      | EndOfInput \<Rightarrow> (case agent_resolve doc of Inl ps \<Rightarrow> Inl (Problems ps) | Inr cfg \<Rightarrow> Inr cfg)))"

definition agent_Load :: "(bytes \<Rightarrow> agent_document yaml_decoded) \<Rightarrow> (bytes \<Rightarrow> unit yaml_decoded)
    \<Rightarrow> (string \<Rightarrow> string + bytes) \<Rightarrow> string \<Rightarrow> agent_config_error + agent_Config" where
  "agent_Load first_doc second_doc readFile path = (case readFile path of
      Inl e \<Rightarrow> Inl (ReadError e)
    | Inr data \<Rightarrow> agent_Parse first_doc second_doc data)"

datatype password_error = PasswordUnreadable | PasswordEmpty

text \<open>\<^verbatim>\<open>Auth.Resolve\<close> on the result of reading the password file.\<close>

definition Auth_Resolve :: "agent_Auth \<Rightarrow> bytes option \<Rightarrow> password_error + string \<times> string" where
  "Auth_Resolve a content = (case content of
      None \<Rightarrow> Inl PasswordUnreadable
    | Some password \<Rightarrow> if password = [] then Inl PasswordEmpty else Inr (Username a, password))"

section \<open>The names the agent accepts\<close>

lemma Split_chars: "c \<in> set s \<Longrightarrow> c = d \<or> (\<exists>seg\<in>set (Split s d). c \<in> set seg)"
proof (induction s d arbitrary: c rule: Split.induct)
  case (2 x xs d)
  obtain p ps where "Split xs d = p # ps" by (cases "Split xs d") simp_all
  with 2 show ?case by (cases "x = d") auto
qed simp

lemma nameRE_chars: "nameRE s \<Longrightarrow> list_all subdomain_char s"
proof -
  assume s: "nameRE s"
  have "subdomain_char c" if "c \<in> set s" for c
    using Split_chars [OF that, of "CHR ''.''"] s
    by (auto simp: nameRE_def dns1123LabelPattern_def list_all_iff subdomain_char_def)
  then show ?thesis by (simp add: list_all_iff)
qed

lemma nameRE_special: "\<not> nameRE []" "\<not> nameRE ''.''" "\<not> nameRE ''..''"
  by (simp_all add: nameRE_def dns1123LabelPattern_def)

definition agent_validation :: k8s_validation where
  "agent_validation = \<lparr>
     IsDNS1123Subdomain = (\<lambda>s. if nameRE s \<and> length s \<le> 253 then [] else [''not a valid exposure name'']),
     IsDNS1123Label = (\<lambda>s. if dns1123LabelPattern s \<and> length s \<le> 63 then [] else [''not a label'']),
     IsConfigMapKey = (\<lambda>s. if keyRE s then [] else [''not a valid Secret key''])\<rparr>"

interpretation agent_names: k8s_names agent_validation
proof
  fix s
  show "s \<noteq> [] \<and> length s \<le> 253 \<and> list_all subdomain_char s" if "IsDNS1123Subdomain agent_validation s = []"
    using that nameRE_chars nameRE_special by (auto simp: agent_validation_def split: if_splits)
qed (auto simp: agent_validation_def dns1123LabelPattern_def keyRE_def split: if_splits)

section \<open>What a valid configuration is\<close>

definition target_ok :: "Target \<Rightarrow> bool" where
  "target_ok t \<longleftrightarrow> keyRE (t_Key t) \<and> path_IsAbs (t_Path t) \<and> path_Clean (t_Path t) = t_Path t \<and> t_Mode t \<le> 0x1FF"

definition agent_exposure_ok :: "agent_Exposure \<Rightarrow> bool" where
  "agent_exposure_ok e \<longleftrightarrow> nameRE (e_Name e) \<and> length (e_Name e) \<le> 253
     \<and> Username (e_Auth e) \<noteq> [] \<and> path_IsAbs (PasswordFile (e_Auth e))
     \<and> MinInterval \<le> e_Interval e \<and> e_Interval e \<le> MaxInterval
     \<and> (e_OnChangeCommand e = [] \<or> hd (e_OnChangeCommand e) \<noteq> [])
     \<and> e_Targets e \<noteq> [] \<and> distinct (map t_Key (e_Targets e)) \<and> list_all target_ok (e_Targets e)"

definition target_paths :: "agent_Exposure list \<Rightarrow> string list" where
  "target_paths es = concat (map (\<lambda>e. map t_Path (e_Targets e)) es)"

definition agent_config_ok :: "agent_Config \<Rightarrow> bool" where
  "agent_config_ok cfg \<longleftrightarrow> a_Exposures cfg \<noteq> [] \<and> distinct (map e_Name (a_Exposures cfg))
     \<and> list_all agent_exposure_ok (a_Exposures cfg) \<and> distinct (target_paths (a_Exposures cfg))
     \<and> MinTimeout \<le> gw_Timeout (a_Gateway cfg) \<and> gw_Timeout (a_Gateway cfg) \<le> MaxTimeout
     \<and> agent_validateListenAddress (a_MetricsListenAddress cfg) = None
     \<and> (\<exists>u. gw_URL (a_Gateway cfg) = Some u \<and> (url_Scheme u = ''http'' \<or> url_Scheme u = ''https'') \<and> url_Host u \<noteq> []
          \<and> url_RawQuery u = [] \<and> url_Fragment u = [] \<and> \<not> url_hasUser u)"

text \<open>What the document says: values that are given, in its order, paths in their shortest form, or the defaults.\<close>

definition same_target :: "targetDoc \<Rightarrow> Target \<Rightarrow> bool" where
  "same_target d t \<longleftrightarrow> t_Key t = td_Key d \<and> t_Path t = path_Clean (td_Path d)
     \<and> (if td_Mode d = [] then t_Mode t = 0x180
        else HasPrefix (td_Mode d) ''0'' \<and> ParseUint (td_Mode d) 8 32 = Some (unat (t_Mode t)))"

definition duration_given :: "duration \<Rightarrow> string \<Rightarrow> duration \<Rightarrow> bool" where
  "duration_given def s t \<longleftrightarrow> (if s = [] then t = def else ParseDuration s = Some t)"

definition same_agent_exposure :: "exposureDoc \<Rightarrow> agent_Exposure \<Rightarrow> bool" where
  "same_agent_exposure r e \<longleftrightarrow> e_Name e = ed_Name r \<and> ed_Auth r = Some (e_Auth e)
     \<and> duration_given (5 * minute) (ed_Interval r) (e_Interval e)
     \<and> e_OnChangeCommand e = (case ed_OnChangeCommand r of None \<Rightarrow> [] | Some c \<Rightarrow> c)
     \<and> list_all2 same_target (ed_Targets r) (e_Targets e)"

definition same_agent_config :: "agent_document \<Rightarrow> agent_Config \<Rightarrow> bool" where
  "same_agent_config d cfg \<longleftrightarrow> list_all2 same_agent_exposure (ad_Exposures d) (a_Exposures cfg)
     \<and> (\<exists>u. url_Parse (ad_URL d) = Some u
          \<and> gw_URL (a_Gateway cfg) = Some (u\<lparr>url_Path := TrimSuffix (url_Path u) ''/''\<rparr>))
     \<and> gw_CAFile (a_Gateway cfg) = ad_CAFile d
     \<and> duration_given (30 * second) (ad_Timeout d) (gw_Timeout (a_Gateway cfg))
     \<and> a_MetricsListenAddress cfg = (case ad_MetricsListenAddress d of None \<Rightarrow> ''0.0.0.0:9091'' | Some a \<Rightarrow> a)"

lemma resolve_key_ok:
  "resolve_key i j seen k = ([], seen') \<Longrightarrow> keyRE k \<and> seen k = None \<and> seen' = seen(k \<mapsto> j)"
  by (auto simp: resolve_key_def split: if_splits option.splits)

lemma resolve_path_ok:
  "resolve_path i j seen p = ([], seen', q) \<Longrightarrow>
    path_IsAbs q \<and> path_Clean q = q \<and> q = path_Clean p \<and> seen q = None \<and> seen' = seen(q \<mapsto> (i, j))"
  by (auto simp: resolve_path_def Let_def path_Clean_idem path_Clean_abs split: if_splits option.splits)

lemma resolve_mode_ok:
  assumes "resolve_mode i j m = ([], mode)"
  shows "mode \<le> 0x1FF"
    and "if m = [] then mode = 0x180 else HasPrefix m ''0'' \<and> ParseUint m 8 32 = Some (unat mode)"
proof -
  from assms consider "m = []" "mode = 0x180"
    | n where "m \<noteq> []" "HasPrefix m ''0''" "ParseUint m 8 32 = Some n" "n \<le> 0x1FF" "mode = word_of_nat n"
    by (auto simp: resolve_mode_def DefaultFileMode_def not_less split: if_splits option.splits)
  then have "mode \<le> 0x1FF \<and> (if m = [] then mode = 0x180 else HasPrefix m ''0'' \<and> ParseUint m 8 32 = Some (unat mode))"
    by cases (simp_all add: word_le_nat_alt unat_of_nat)
  then show "mode \<le> 0x1FF"
    and "if m = [] then mode = 0x180 else HasPrefix m ''0'' \<and> ParseUint m 8 32 = Some (unat mode)" by simp_all
qed

lemma targets_loop_Cons:
  assumes "targets_loop i j seenKey seenPath (t # ts) = ([], seenPath', out)"
  shows "\<exists>path mode out'. out = \<lparr>t_Key = td_Key t, t_Path = path, t_Mode = mode\<rparr> # out'
    \<and> keyRE (td_Key t) \<and> seenKey (td_Key t) = None \<and> mode \<le> 0x1FF
    \<and> path_IsAbs path \<and> path_Clean path = path \<and> seenPath path = None
    \<and> same_target t \<lparr>t_Key = td_Key t, t_Path = path, t_Mode = mode\<rparr>
    \<and> targets_loop i (Suc j) (seenKey(td_Key t \<mapsto> j)) (seenPath(path \<mapsto> (i, j))) ts = ([], seenPath', out')"
proof -
  obtain seenKey' seenPath1 path mode out' where
    *: "resolve_key i j seenKey (td_Key t) = ([], seenKey')"
    "resolve_path i j seenPath (td_Path t) = ([], seenPath1, path)"
    "resolve_mode i j (td_Mode t) = ([], mode)"
    "targets_loop i (Suc j) seenKey' seenPath1 ts = ([], seenPath', out')"
    "out = \<lparr>t_Key = td_Key t, t_Path = path, t_Mode = mode\<rparr> # out'"
    using assms by (auto split: prod.splits)
  with resolve_path_ok [OF *(2)] resolve_mode_ok(2) [OF *(3)]
  have "same_target t \<lparr>t_Key = td_Key t, t_Path = path, t_Mode = mode\<rparr>" unfolding same_target_def by simp
  with * show ?thesis
    using resolve_key_ok [OF *(1)] resolve_path_ok [OF *(2)] resolve_mode_ok(1) [OF *(3)] by blast
qed

lemma targets_loop_same:
  "targets_loop i j seenKey seenPath ts = ([], seenPath', out) \<Longrightarrow>
    list_all target_ok out \<and> list_all2 same_target ts out"
proof (induction ts arbitrary: j seenKey seenPath out)
  case (Cons t ts)
  from targets_loop_Cons [OF Cons.prems] obtain path mode out' where
    out: "out = \<lparr>t_Key = td_Key t, t_Path = path, t_Mode = mode\<rparr> # out'"
      "keyRE (td_Key t)" "mode \<le> 0x1FF" "path_IsAbs path" "path_Clean path = path" "same_target t (hd out)"
    and rest: "targets_loop i (Suc j) (seenKey(td_Key t \<mapsto> j)) (seenPath(path \<mapsto> (i, j))) ts = ([], seenPath', out')"
    by auto
  from Cons.IH [OF rest] out show ?case by (simp add: target_ok_def)
qed simp

lemma targets_loop_keys:
  "targets_loop i j seenKey seenPath ts = ([], seenPath', out) \<Longrightarrow>
    distinct (map t_Key out) \<and> (\<forall>t\<in>set out. seenKey (t_Key t) = None)"
proof (induction ts arbitrary: j seenKey seenPath out)
  case (Cons t ts)
  from targets_loop_Cons [OF Cons.prems] Cons.IH show ?case by (fastforce split: if_splits)
qed simp

lemma targets_loop_paths:
  "targets_loop i j seenKey seenPath ts = ([], seenPath', out) \<Longrightarrow>
    distinct (map t_Path out) \<and> (\<forall>t\<in>set out. t_Path t \<notin> dom seenPath)
    \<and> dom seenPath' = dom seenPath \<union> t_Path ` set out"
proof (induction ts arbitrary: j seenKey seenPath out)
  case (Cons t ts)
  from targets_loop_Cons [OF Cons.prems] obtain path mode out' where
    out: "out = \<lparr>t_Key = td_Key t, t_Path = path, t_Mode = mode\<rparr> # out'" and path: "path \<notin> dom seenPath" and
    rest: "targets_loop i (Suc j) (seenKey(td_Key t \<mapsto> j)) (seenPath(path \<mapsto> (i, j))) ts = ([], seenPath', out')"
    by blast
  from Cons.IH [OF rest] path show ?case by (auto simp: out)
qed simp

lemma resolve_name_ok:
  "resolve_name i seen n = ([], seen') \<Longrightarrow>
    nameRE n \<and> length n \<le> 253 \<and> n \<notin> dom seen \<and> seen' = seen(n \<mapsto> i)"
  by (auto simp: resolve_name_def split: if_splits option.splits)

lemma resolve_auth_ok:
  "resolve_auth i a = ([], x) \<Longrightarrow> a = Some x \<and> Username x \<noteq> [] \<and> path_IsAbs (PasswordFile x)"
  by (auto simp: resolve_auth_def split: if_splits option.splits)

lemma resolve_interval_ok:
  "resolve_interval i s = ([], d) \<Longrightarrow> MinInterval \<le> d \<and> d \<le> MaxInterval \<and> duration_given (5 * minute) s d"
  by (auto simp: resolve_interval_def duration_given_def DefaultInterval_def MinInterval_def MaxInterval_def second_def minute_def hour_def
      split: if_splits option.splits)

lemma resolve_command_ok:
  "resolve_command i c = ([], x) \<Longrightarrow> (x = [] \<or> hd x \<noteq> []) \<and> x = (case c of None \<Rightarrow> [] | Some y \<Rightarrow> y)"
  by (auto simp: resolve_command_def split: if_splits option.splits)

lemma agent_exposures_loop_Cons:
  assumes "agent_exposures_loop i seenName seenPath (r # rs) = ([], out)"
  obtains e out' seenPath' where "out = e # out'" "agent_exposure_ok e" "same_agent_exposure r e"
    "e_Name e \<notin> dom seenName" "distinct (map t_Path (e_Targets e))"
    "\<forall>t\<in>set (e_Targets e). t_Path t \<notin> dom seenPath"
    "dom seenPath' = dom seenPath \<union> t_Path ` set (e_Targets e)"
    "agent_exposures_loop (Suc i) (seenName(e_Name e \<mapsto> i)) seenPath' rs = ([], out')"
proof -
  obtain seenName' auth interval command seenPath' targets out' where
    n: "resolve_name i seenName (ed_Name r) = ([], seenName')" and a: "resolve_auth i (ed_Auth r) = ([], auth)" and
    d: "resolve_interval i (ed_Interval r) = ([], interval)" and
    c: "resolve_command i (ed_OnChangeCommand r) = ([], command)" and
    t: "targets_loop i 0 Map.empty seenPath (ed_Targets r) = ([], seenPath', targets)" and ne: "ed_Targets r \<noteq> []" and
    r: "agent_exposures_loop (Suc i) seenName' seenPath' rs = ([], out')" and
    out: "out = \<lparr>e_Name = ed_Name r, e_Auth = auth, e_Interval = interval, e_OnChangeCommand = command,
      e_Targets = targets\<rparr> # out'"
    using assms by (auto split: prod.splits if_splits)
  have "targets \<noteq> []"
  proof
    assume "targets = []"
    with targets_loop_same [OF t] ne show False by simp
  qed
  then have "agent_exposure_ok (hd out)"
    unfolding agent_exposure_ok_def out
    using resolve_name_ok [OF n] resolve_auth_ok [OF a] resolve_interval_ok [OF d]
      conjunct1 [OF resolve_command_ok [OF c]] conjunct1 [OF targets_loop_same [OF t]] targets_loop_keys [OF t] by simp
  with out r resolve_name_ok [OF n] resolve_auth_ok [OF a] resolve_interval_ok [OF d] conjunct2 [OF resolve_command_ok [OF c]]
    targets_loop_same [OF t] targets_loop_paths [OF t]
  show ?thesis
    by (intro that [of "hd out" out' seenPath']) (simp_all add: same_agent_exposure_def)
qed

lemma agent_exposures_loop_ok:
  "agent_exposures_loop i seenName seenPath rs = ([], out) \<Longrightarrow>
    list_all agent_exposure_ok out \<and> list_all2 same_agent_exposure rs out
    \<and> distinct (map e_Name out) \<and> (\<forall>e\<in>set out. e_Name e \<notin> dom seenName)
    \<and> distinct (target_paths out) \<and> (\<forall>p\<in>set (target_paths out). p \<notin> dom seenPath)"
proof (induction rs arbitrary: i seenName seenPath out)
  case Nil
  then show ?case by (simp add: target_paths_def)
next
  case (Cons r rs)
  obtain e out' seenPath' where
    e: "out = e # out'" "agent_exposure_ok e" "same_agent_exposure r e"
      "e_Name e \<notin> dom seenName" "distinct (map t_Path (e_Targets e))"
      "\<forall>t\<in>set (e_Targets e). t_Path t \<notin> dom seenPath" and
    d: "dom seenPath' = dom seenPath \<union> t_Path ` set (e_Targets e)" and
    rest: "agent_exposures_loop (Suc i) (seenName(e_Name e \<mapsto> i)) seenPath' rs = ([], out')"
    by (rule agent_exposures_loop_Cons [OF Cons.prems])
  note rest = Cons.IH [OF rest]
  have IH: "list_all agent_exposure_ok out'" "list_all2 same_agent_exposure rs out'"
    "distinct (map e_Name out')" "distinct (target_paths out')"
    using rest by blast+
  have names: "e_Name x \<noteq> e_Name e \<and> e_Name x \<notin> dom seenName" if "x \<in> set out'" for x
  proof -
    from that rest have "e_Name x \<notin> dom (seenName(e_Name e \<mapsto> i))" by blast
    then show ?thesis by simp
  qed
  have paths: "p \<notin> dom seenPath \<and> p \<notin> t_Path ` set (e_Targets e)" if "p \<in> set (target_paths out')" for p
    using that rest d by blast
  have tp: "target_paths out = map t_Path (e_Targets e) @ target_paths out'" by (simp add: e target_paths_def)
  have "distinct (target_paths out)" using e(5) IH(4) paths by (auto simp: tp)
  moreover have "\<forall>p\<in>set (target_paths out). p \<notin> dom seenPath" using e(6) paths unfolding tp by auto
  moreover have "distinct (map e_Name out)" using IH(3) names unfolding e(1) by (simp add: image_iff) metis
  moreover have "\<forall>x\<in>set out. e_Name x \<notin> dom seenName" using names e(4) unfolding e(1) by auto
  ultimately show ?case using IH(1,2) e(1-3) by simp
qed

lemma resolve_url_ok:
  "resolve_url raw = ([], u) \<Longrightarrow> (\<exists>v. url_Parse raw = Some v \<and> u = Some (v\<lparr>url_Path := TrimSuffix (url_Path v) ''/''\<rparr>)) \<and>
    (\<exists>v. u = Some v \<and> (url_Scheme v = ''http'' \<or> url_Scheme v = ''https'') \<and> url_Host v \<noteq> []
    \<and> url_RawQuery v = [] \<and> url_Fragment v = [] \<and> \<not> url_hasUser v)"
  by (auto simp: resolve_url_def split: if_splits option.splits)

lemma resolve_timeout_ok:
  "resolve_timeout s = ([], t) \<Longrightarrow> MinTimeout \<le> t \<and> t \<le> MaxTimeout \<and> duration_given (30 * second) s t"
  by (auto simp: resolve_timeout_def duration_given_def DefaultTimeout_def MinTimeout_def MaxTimeout_def second_def minute_def
      split: if_splits option.splits)

lemma agent_resolve_ok:
  assumes "agent_resolve d = Inr cfg"
  shows "agent_config_ok cfg \<and> same_agent_config d cfg"
proof -
  obtain url timeout exposures where
    u: "resolve_url (ad_URL d) = ([], url)" and t: "resolve_timeout (ad_Timeout d) = ([], timeout)" and
    e: "agent_exposures_loop 0 Map.empty Map.empty (ad_Exposures d) = ([], exposures)" and
    ne: "ad_Exposures d \<noteq> []" and
    a: "agent_validateListenAddress (case ad_MetricsListenAddress d of None \<Rightarrow> agent_DefaultMetricsListenAddress
      | Some a \<Rightarrow> a) = None" and
    cfg: "cfg = \<lparr>a_Gateway = \<lparr>gw_URL = url, gw_CAFile = ad_CAFile d, gw_Timeout = timeout\<rparr>,
      a_MetricsListenAddress = (case ad_MetricsListenAddress d of None \<Rightarrow> agent_DefaultMetricsListenAddress | Some a \<Rightarrow> a),
      a_Exposures = exposures\<rparr>"
    using assms by (auto simp: agent_resolve_def Let_def split: prod.splits if_splits option.splits)
  from agent_exposures_loop_ok [OF e] ne have "exposures \<noteq> []" by (auto simp: list_all2_Nil2)
  with resolve_url_ok [OF u] resolve_timeout_ok [OF t] agent_exposures_loop_ok [OF e] a cfg
  show ?thesis by (simp add: agent_config_ok_def same_agent_config_def agent_DefaultMetricsListenAddress_def cong: option.case_cong)
qed

section \<open>Properties\<close>


definition ex_document :: agent_document where
  "ex_document = \<lparr>ad_URL = ''https://gw/'', ad_CAFile = [], ad_Timeout = [], ad_MetricsListenAddress = None,
     ad_Exposures = [\<lparr>ed_Name = ''app'', ed_Auth = Some \<lparr>Username = ''u'', PasswordFile = ''/p''\<rparr>, ed_Interval = [],
       ed_Targets = [\<lparr>td_Key = ''k'', td_Path = ''/a/../b'', td_Mode = ''0640''\<rparr>], ed_OnChangeCommand = Some [''reload'']\<rparr>]\<rparr>"

definition ex_agent_exposure :: agent_Exposure where
  "ex_agent_exposure = \<lparr>e_Name = ''app'', e_Auth = \<lparr>Username = ''u'', PasswordFile = ''/p''\<rparr>,
     e_Interval = DefaultInterval, e_OnChangeCommand = [''reload''],
     e_Targets = [\<lparr>t_Key = ''k'', t_Path = ''/b'', t_Mode = 0x1A0\<rparr>]\<rparr>"

lemmas url_eval = resolve_url_def url_Parse_def url_parse_def Cut_def has_ctl_def getScheme_def split_query_def
  HasSuffix_def HasPrefix_def split_authority_def parseAuthority_def parseHost_def host_char_def is_alnum_def
  setPath_def shouldEscape_def TrimSuffix_def zero_URL_def lower_ascii_def eval_simps

lemma ex_url: "resolve_url ''https://gw/'' = ([], Some (zero_URL\<lparr>url_Scheme := ''https'', url_Host := ''gw''\<rparr>))"
  by (simp add: url_eval)

lemma ex_exposures: "agent_exposures_loop 0 Map.empty Map.empty (ad_Exposures ex_document) = ([], [ex_agent_exposure])"
proof -
  have "resolve_mode 0 0 ''0640'' = ([], 0x1A0)"
    by (simp add: resolve_mode_def ParseUint_def HasPrefix_def eval_simps)
  moreover have "resolve_path 0 0 Map.empty ''/a/../b'' = ([], [''/b'' \<mapsto> (0, 0)], ''/b'')"
    by (simp add: resolve_path_def path_IsAbs_def HasPrefix_def HasSuffix_def path_Clean_def clean_segs_def
        clean_step_def Let_def)
  ultimately show ?thesis
    by (simp add: ex_document_def resolve_name_def nameRE_def dns1123LabelPattern_def label_char_def
        resolve_auth_def path_IsAbs_def HasPrefix_def resolve_interval_def resolve_command_def resolve_key_def
        keyRE_def key_char_def subdomain_char_def ex_agent_exposure_def eval_simps)
qed

lemma ex_listen: "agent_validateListenAddress agent_DefaultMetricsListenAddress = None"
  by (simp add: agent_validateListenAddress_def agent_DefaultMetricsListenAddress_def SplitHostPort_def
      ParseUint_def eval_simps)

lemma ex_agent_resolve: "agent_resolve ex_document = Inr \<lparr>a_Gateway = \<lparr>gw_URL =
    Some (zero_URL\<lparr>url_Scheme := ''https'', url_Host := ''gw''\<rparr>), gw_CAFile = [], gw_Timeout = DefaultTimeout\<rparr>,
    a_MetricsListenAddress = agent_DefaultMetricsListenAddress, a_Exposures = [ex_agent_exposure]\<rparr>"
proof -
  have "ad_URL ex_document = ''https://gw/''" "ad_Timeout ex_document = []" "ad_CAFile ex_document = []"
    "ad_MetricsListenAddress ex_document = None" "ad_Exposures ex_document \<noteq> []" by (simp_all add: ex_document_def)
  then show ?thesis
    by (simp add: agent_resolve_def ex_url resolve_timeout_def ex_listen ex_exposures)
qed


section \<open>Two base URLs that do not work as they read\<close>

text \<open>
  A trailing question mark passes as no query, but stays in every request; and cutting a
  trailing slash off the decoded path only makes \<^verbatim>\<open>EscapedPath\<close> discard the encoded one, so that
  an encoded slash in the prefix becomes a separator.
\<close>

lemma url_force_query:
  "map_option url_String (map_option (\<lambda>u. JoinPath u [''exposures'', ''app'']) (snd (resolve_url ''https://gw?'')))
    = Some ''https://gw/exposures/app?''"
  by (simp_all add: url_eval url_String_def JoinPath_def EscapedPath_def validEncoded_def path_Join_def path_Clean_def
      clean_segs_def clean_step_def query_suffix_def unhex_def upper_hex_def truncate_URL_def URL.defs Let_def)

lemma url_trailing_slash:
  "map_option url_String (map_option (\<lambda>u. JoinPath u [''exposures'', ''app'']) (snd (resolve_url ''https://gw/a%2Fb'')))
    = Some ''https://gw/a%2Fb/exposures/app''"
  "map_option url_String (map_option (\<lambda>u. JoinPath u [''exposures'', ''app'']) (snd (resolve_url ''https://gw/a%2Fb/'')))
    = Some ''https://gw/a/b/exposures/app''"
  by code_simp+

end
