(* ===== verification/Agent_Disk.thy ===== *)
theory Agent_Disk
  imports Go_Url Agent_Config "HOL-Library.Word"
begin

text \<open>
  The operating system under the agent: files, the calls that read and change them, and what a
  crash or a loss of power leaves. Every system call takes its fate from a list in the state: it
  works, it fails, or the process dies in it; the number says how much of it had happened by then.
  So a theorem about all lists of fates is one about every error and every moment of a crash.

  The file system has, for every path, the file that is there now and the entries the path may
  still have after a loss of power, because its directory was not flushed since. A file whose
  content was not flushed can have any content after a loss of power. Hard and symbolic links and
  other processes that write these files are not modelled.
\<close>

section \<open>The world\<close>

datatype fate = Fine | Fail nat | Crash nat

record File =
  f_data :: bytes
  f_mode :: FileMode
  f_synced :: bool

record command_run =
  run_exposure :: string
  run_command :: "string list"
  run_ok :: bool
  run_files :: "string \<rightharpoonup> File"

record world =
  w_fs :: "string \<rightharpoonup> File"
  w_past :: "string \<Rightarrow> File option list"
  w_fate :: "fate list"
  w_rand :: "nat list"
  w_umask :: FileMode
  w_TempDir :: string
  w_now :: string
  w_ran :: "command_run list"

text \<open>A computation on the world; \<open>Crashed\<close> is a process that died, without its deferred calls.\<close>

datatype 'a outcome = Done 'a | Crashed

type_synonym 'a io = "world \<Rightarrow> 'a outcome \<times> world"

definition io_return :: "'a \<Rightarrow> 'a io" where
  "io_return a w = (Done a, w)"

definition io_bind :: "'a io \<Rightarrow> ('a \<Rightarrow> 'b io) \<Rightarrow> 'b io" where
  "io_bind m k w = (case m w of (Done a, w') \<Rightarrow> k a w' | (Crashed, w') \<Rightarrow> (Crashed, w'))"

text \<open>A system call by its effect when it works, fails or is the last one. The result says if it worked.\<close>

definition syscall :: "(world \<Rightarrow> world) \<Rightarrow> (nat \<Rightarrow> world \<Rightarrow> world) \<Rightarrow> (nat \<Rightarrow> world \<Rightarrow> world) \<Rightarrow> bool io" where
  "syscall full failed crashed w = (case w_fate w of
      [] \<Rightarrow> (Done True, full w)
    | Fine # fs \<Rightarrow> (Done True, full (w\<lparr>w_fate := fs\<rparr>))
    | Fail n # fs \<Rightarrow> (Done False, failed n (w\<lparr>w_fate := fs\<rparr>))
    | Crash n # fs \<Rightarrow> (Crashed, crashed n (w\<lparr>w_fate := fs\<rparr>)))"

text \<open>Calls that happen as a whole or not at all.\<close>

definition atomically :: "(world \<Rightarrow> world) \<Rightarrow> bool io" where
  "atomically full = syscall full (\<lambda>_ w. w) (\<lambda>n w. if 0 < n then full w else w)"

definition set_entry :: "string \<Rightarrow> File option \<Rightarrow> world \<Rightarrow> world" where
  "set_entry p f w = w\<lparr>w_fs := (w_fs w)(p := f), w_past := (w_past w)(p := w_fs w p # w_past w p)\<rparr>"

definition change_file :: "string \<Rightarrow> (File \<Rightarrow> File) \<Rightarrow> world \<Rightarrow> world" where
  "change_file p g w = w\<lparr>w_fs := (w_fs w)(p := map_option g (w_fs w p))\<rparr>"

section \<open>System calls\<close>

definition os_Create :: "string \<Rightarrow> bool io" where
  "os_Create p = atomically (set_entry p (Some \<lparr>f_data = [], f_mode = 0x180, f_synced = False\<rparr>))"

definition os_Chmod :: "string \<Rightarrow> FileMode \<Rightarrow> bool io" where
  "os_Chmod p mode = atomically (change_file p (\<lambda>f. f\<lparr>f_mode := mode, f_synced := False\<rparr>))"

definition append_data :: "string \<Rightarrow> bytes \<Rightarrow> world \<Rightarrow> world" where
  "append_data p d = change_file p (\<lambda>f. f\<lparr>f_data := f_data f @ d, f_synced := False\<rparr>)"

definition os_Write :: "string \<Rightarrow> bytes \<Rightarrow> bool io" where
  "os_Write p d = syscall (append_data p d) (\<lambda>n. append_data p (take n d)) (\<lambda>n. append_data p (take n d))"

definition os_Sync :: "string \<Rightarrow> bool io" where
  "os_Sync p = atomically (change_file p (\<lambda>f. f\<lparr>f_synced := True\<rparr>))"

definition os_Close :: "bool io" where
  "os_Close = atomically id"

definition os_Remove :: "string \<Rightarrow> bool io" where
  "os_Remove p = atomically (set_entry p None)"

definition os_Rename :: "string \<Rightarrow> string \<Rightarrow> bool io" where
  "os_Rename a b = atomically (\<lambda>w. set_entry a None (set_entry b (w_fs w a) w))"

text \<open>Flushing a directory makes its current entries the only ones.\<close>

definition os_SyncDir :: "string \<Rightarrow> bool io" where
  "os_SyncDir dir = atomically (\<lambda>w. w\<lparr>w_past := (\<lambda>p. if path_Dir p = dir then [] else w_past w p)\<rparr>)"

datatype 'a read_result = NotExist | ReadFailed | Content 'a

definition os_Read :: "string \<Rightarrow> (File \<Rightarrow> 'a) \<Rightarrow> 'a read_result io" where
  "os_Read p g = io_bind (atomically id) (\<lambda>ok w. (Done (if \<not> ok then ReadFailed
     else case w_fs w p of None \<Rightarrow> NotExist | Some f \<Rightarrow> Content (g f)), w))"

text \<open>
  \<^verbatim>\<open>os.CreateTemp\<close>: a random number replaces the last star of the pattern, or is appended if there
  is none, until the name is free, 10000 times at most; without a directory the one for temporary
  files is used.
\<close>

definition prefixAndSuffix :: "string \<Rightarrow> string \<times> string" where
  "prefixAndSuffix pattern =
     (if CHR ''*'' \<in> set pattern
      then (rev (tl (dropWhile (\<lambda>c. c \<noteq> CHR ''*'') (rev pattern))), rev (takeWhile (\<lambda>c. c \<noteq> CHR ''*'') (rev pattern)))
      else (pattern, []))"

definition temp_name :: "string \<Rightarrow> string \<Rightarrow> string \<Rightarrow> nat \<Rightarrow> string" where
  "temp_name tempDir dir pattern r =
     (let d = (if dir = [] then tempDir else dir); (prefix, suffix) = prefixAndSuffix pattern in
      (if HasSuffix d ''/'' then d else d @ ''/'') @ prefix @ Itoa r @ suffix)"

fun create_loop :: "(nat \<Rightarrow> string) \<Rightarrow> nat list \<Rightarrow> string option io" where
  "create_loop name [] w = (Done None, w)"
| "create_loop name (r # rs) w =
     (if w_fs w (name r) \<noteq> None then create_loop name rs w
      else io_bind (os_Create (name r)) (\<lambda>ok. io_return (if ok then Some (name r) else None)) w)"

definition os_CreateTemp :: "string \<Rightarrow> string \<Rightarrow> string option io" where
  "os_CreateTemp dir pattern w =
     create_loop (temp_name (w_TempDir w) dir pattern) (take 10000 (w_rand w)) (w\<lparr>w_rand := tl (w_rand w)\<rparr>)"

section \<open>What calls leave alone\<close>

definition failing :: "world \<Rightarrow> bool" where
  "failing w \<longleftrightarrow> (\<exists>n. Fail n \<in> set (w_fate w))"

text \<open>Nothing outside \<open>X\<close> has changed.\<close>

definition frame :: "string set \<Rightarrow> world \<Rightarrow> world \<Rightarrow> bool" where
  "frame X w w' \<longleftrightarrow> (\<forall>p. p \<notin> X \<longrightarrow> w_fs w' p = w_fs w p \<and> w_past w' p = w_past w p) \<and> w_ran w' = w_ran w
     \<and> w_TempDir w' = w_TempDir w \<and> w_umask w' = w_umask w \<and> w_now w' = w_now w
     \<and> set (w_fate w') \<subseteq> set (w_fate w)"

lemma frame_refl [simp]: "frame X w w"
  by (simp add: frame_def)

lemma frame_trans: "frame X w w1 \<Longrightarrow> frame Y w1 w2 \<Longrightarrow> frame (X \<union> Y) w w2"
  by (auto simp: frame_def)

lemma frame_trans1: "frame X w w1 \<Longrightarrow> frame X w1 w2 \<Longrightarrow> frame X w w2"
  using frame_trans [of X w w1 X w2] by simp

lemma frame_mono: "frame X w w' \<Longrightarrow> X \<subseteq> Y \<Longrightarrow> frame Y w w'"
  by (auto simp: frame_def)

lemma frame_entry [simp]: "frame {p} w (set_entry p f w)" "frame {p} w (change_file p g w)"
  by (auto simp: frame_def set_entry_def change_file_def)

lemma frame_fate: "set fs \<subseteq> set (w_fate w) \<Longrightarrow> frame X w (w\<lparr>w_fate := fs\<rparr>)"
  by (simp add: frame_def)

lemma frame_failing: "frame X w w' \<Longrightarrow> failing w' \<Longrightarrow> failing w"
  by (auto simp: frame_def failing_def)

lemma frame_fs: "frame X w w' \<Longrightarrow> p \<notin> X \<Longrightarrow> w_fs w' p = w_fs w p"
  by (simp add: frame_def)

section \<open>Taking computations apart\<close>

lemma io_bind_cases:
  assumes "io_bind m k w = (r, w')"
  obtains (crashed) "m w = (Crashed, w')" "r = Crashed"
    | (returned) a w1 where "m w = (Done a, w1)" "k a w1 = (r, w')"
  using assms by (auto simp: io_bind_def split: prod.splits outcome.splits)

lemma io_return_iff [simp]: "io_return a w = (r, w') \<longleftrightarrow> r = Done a \<and> w' = w"
  by (auto simp: io_return_def)

lemma io_bind_return [simp]: "io_bind (io_return a) k = k a"
  by (simp add: io_bind_def io_return_def fun_eq_iff)

lemma io_bind_Done_iff: "io_bind m k w = (Done b, w') \<longleftrightarrow> (\<exists>a w1. m w = (Done a, w1) \<and> k a w1 = (Done b, w'))"
  by (auto simp: io_bind_def split: prod.splits outcome.splits)

lemma syscall_cases:
  assumes "syscall full failed crashed w = (r, w')"
  obtains (ok) v where "r = Done True" "frame {} w v" "w_fs v = w_fs w" "w_past v = w_past w" "w' = full v"
    | (failed) v n where "r = Done False" "frame {} w v" "w_fs v = w_fs w" "w_past v = w_past w" "w' = failed n v" "failing w"
    | (crashed) v n where "r = Crashed" "frame {} w v" "w_fs v = w_fs w" "w_past v = w_past w" "w' = crashed n v"
proof (cases "w_fate w")
  case Nil
  with assms show ?thesis by (intro ok [of w]) (simp_all add: syscall_def)
next
  case (Cons f fs)
  then have v: "frame {} w (w\<lparr>w_fate := fs\<rparr>)" by (intro frame_fate) auto
  show ?thesis
  proof (cases f)
    case Fine
    with assms Cons v show ?thesis by (intro ok [of "w\<lparr>w_fate := fs\<rparr>"]) (simp_all add: syscall_def)
  next
    case (Fail n)
    with assms Cons v show ?thesis
      by (intro failed [of "w\<lparr>w_fate := fs\<rparr>" n]) (auto simp add: syscall_def failing_def)
  next
    case (Crash n)
    with assms Cons v show ?thesis by (intro crashed [of "w\<lparr>w_fate := fs\<rparr>" n]) (simp_all add: syscall_def)
  qed
qed

lemma atomically_cases:
  assumes "atomically full w = (r, w')"
  obtains (ok) v where "r = Done True" "frame {} w v" "w_fs v = w_fs w" "w_past v = w_past w" "w' = full v"
    | (failed) "r = Done False" "frame {} w w'" "w_fs w' = w_fs w" "w_past w' = w_past w" "failing w"
    | (crashed) v where "r = Crashed" "frame {} w v" "w_fs v = w_fs w" "w_past v = w_past w" "w' = v \<or> w' = full v"
  using assms unfolding atomically_def by (cases rule: syscall_cases) (auto split: if_splits)

lemma atomically_frame:
  assumes "atomically full w = (r, w')" and "\<And>v. frame X v (full v)"
  shows "frame X w w'"
  using assms(1)
proof (cases rule: atomically_cases)
  case (ok v)
  then show ?thesis using frame_trans [OF ok(2) assms(2) [of v]] by simp
next
  case failed
  then show ?thesis by (auto intro: frame_mono)
next
  case (crashed v)
  then show ?thesis using frame_trans [OF crashed(2) assms(2) [of v]] by (auto intro: frame_mono)
qed

lemma change_atomically:
  assumes "atomically (change_file p g) w = (r, w')" and "w_fs w p = Some f"
  shows "frame {p} w w'" and "w_fs w' p \<in> {Some f, Some (g f)}"
    and "r = Done True \<Longrightarrow> w_fs w' p = Some (g f)" and "r = Done False \<Longrightarrow> failing w"
proof -
  show "frame {p} w w'" using assms(1) by (rule atomically_frame) simp
  from assms(1) show "w_fs w' p \<in> {Some f, Some (g f)}"
    by (cases rule: atomically_cases) (auto simp: change_file_def assms(2))
  from assms(1) show "r = Done True \<Longrightarrow> w_fs w' p = Some (g f)" "r = Done False \<Longrightarrow> failing w"
    by (cases rule: atomically_cases; simp add: change_file_def assms(2))+
qed

lemma os_Write_frame: "os_Write p d w = (r, w') \<Longrightarrow> frame {p} w w'"
proof -
  have app: "frame {p} v (append_data p x v)" for v x by (simp add: append_data_def)
  assume "os_Write p d w = (r, w')"
  then show ?thesis unfolding os_Write_def
    by (cases rule: syscall_cases) (auto intro: frame_trans [of "{}", simplified, OF _ app])
qed

lemma os_Write_cases:
  assumes "os_Write p d w = (r, w')" and "w_fs w p = Some f"
  shows "frame {p} w w'" and "\<exists>n. w_fs w' p = Some (f\<lparr>f_data := f_data f @ take n d, f_synced := False\<rparr>)"
    and "r = Done True \<Longrightarrow> w_fs w' p = Some (f\<lparr>f_data := f_data f @ d, f_synced := False\<rparr>)"
    and "r = Done False \<Longrightarrow> failing w"
proof -
  show "frame {p} w w'" using assms(1) by (rule os_Write_frame)
  from assms(1) [unfolded os_Write_def]
  show "\<exists>n. w_fs w' p = Some (f\<lparr>f_data := f_data f @ take n d, f_synced := False\<rparr>)"
  proof (cases rule: syscall_cases)
    case (ok v)
    with assms(2) show ?thesis by (intro exI [of _ "length d"]) (simp add: append_data_def change_file_def)
  qed (auto simp: append_data_def change_file_def assms(2))
  from assms(1) [unfolded os_Write_def]
  show "r = Done True \<Longrightarrow> w_fs w' p = Some (f\<lparr>f_data := f_data f @ d, f_synced := False\<rparr>)" "r = Done False \<Longrightarrow> failing w"
    by (cases rule: syscall_cases; simp add: append_data_def change_file_def assms(2))+
qed

lemma os_Close_frame: "os_Close w = (r, w') \<Longrightarrow> frame {} w w' \<and> w_fs w' = w_fs w \<and> (r = Done False \<longrightarrow> failing w)"
  unfolding os_Close_def by (erule atomically_cases) (auto intro: frame_trans1)

lemma os_Remove_frame: "os_Remove p w = (r, w') \<Longrightarrow> frame {p} w w' \<and> (w_fs w' p = w_fs w p \<or> w_fs w' p = None)"
proof -
  assume *: "os_Remove p w = (r, w')"
  then have "frame {p} w w'" unfolding os_Remove_def by (rule atomically_frame) simp
  with * show ?thesis unfolding os_Remove_def by (cases rule: atomically_cases) (auto simp: set_entry_def)
qed

section \<open>Entries after a loss of power\<close>

text \<open>The entries a path can have after a loss of power.\<close>

definition may :: "world \<Rightarrow> string \<Rightarrow> File option set" where
  "may w p = insert (w_fs w p) (set (w_past w p))"

text \<open>Outside \<open>X\<close> every path has its old file or the new one of \<open>N\<close>, now and after a loss of power.\<close>

definition progress :: "(string \<rightharpoonup> File) \<Rightarrow> string set \<Rightarrow> world \<Rightarrow> world \<Rightarrow> bool" where
  "progress N X w w' \<longleftrightarrow> (\<forall>p. p \<notin> X \<longrightarrow> (w_fs w' p = w_fs w p \<or> N p \<noteq> None \<and> w_fs w' p = N p)
       \<and> may w' p \<subseteq> may w p \<union> ({N p} - {None}))
     \<and> w_ran w' = w_ran w \<and> w_TempDir w' = w_TempDir w \<and> w_umask w' = w_umask w \<and> w_now w' = w_now w
     \<and> set (w_fate w') \<subseteq> set (w_fate w)"

lemma frame_progress: "frame X w w' \<Longrightarrow> progress N X w w'"
  by (auto simp: frame_def progress_def may_def)

lemma progress_trans:
  assumes "progress N X w w1" and "progress N Y w1 w2"
  shows "progress N (X \<union> Y) w w2"
proof -
  have "(w_fs w2 p = w_fs w p \<or> N p \<noteq> None \<and> w_fs w2 p = N p) \<and> may w2 p \<subseteq> may w p \<union> ({N p} - {None})"
    if "p \<notin> X \<union> Y" for p
  proof -
    have "w_fs w1 p = w_fs w p \<or> N p \<noteq> None \<and> w_fs w1 p = N p" "may w1 p \<subseteq> may w p \<union> ({N p} - {None})"
      "w_fs w2 p = w_fs w1 p \<or> N p \<noteq> None \<and> w_fs w2 p = N p" "may w2 p \<subseteq> may w1 p \<union> ({N p} - {None})"
      using assms that by (simp_all add: progress_def)
    then show ?thesis by (intro conjI) (metis, blast)
  qed
  moreover have "set (w_fate w2) \<subseteq> set (w_fate w)" using assms unfolding progress_def by blast
  ultimately show ?thesis using assms by (simp add: progress_def)
qed

lemma progress_trans1: "progress N X w w1 \<Longrightarrow> progress N X w1 w2 \<Longrightarrow> progress N X w w2"
  using progress_trans [of N X w w1 X w2] by simp

lemma progress_mono: "progress N X w w' \<Longrightarrow> X \<subseteq> Y \<Longrightarrow> progress N Y w w'"
  unfolding progress_def by blast

lemma progress_failing: "progress N X w w' \<Longrightarrow> failing w' \<Longrightarrow> failing w"
  by (auto simp: progress_def failing_def)

lemma progress_old:
  assumes "progress N X w w'" and "p \<notin> X" and "N p = None"
  shows "w_fs w' p = w_fs w p \<and> may w' p \<subseteq> may w p"
proof -
  have "(w_fs w' p = w_fs w p \<or> N p \<noteq> None \<and> w_fs w' p = N p) \<and> may w' p \<subseteq> may w p \<union> ({N p} - {None})"
    using assms(1,2) unfolding progress_def by blast
  with assms(3) show ?thesis by simp
qed

lemma progress_new:
  assumes "progress N X w w'" and "p \<notin> X" and "N p = Some f"
  shows "w_fs w' p \<in> {w_fs w p, Some f} \<and> may w' p \<subseteq> insert (Some f) (may w p)"
proof -
  have "(w_fs w' p = w_fs w p \<or> N p \<noteq> None \<and> w_fs w' p = N p) \<and> may w' p \<subseteq> may w p \<union> ({N p} - {None})"
    using assms(1,2) unfolding progress_def by blast
  with assms(3) show ?thesis by auto
qed

lemma os_Rename_cases:
  assumes "os_Rename tmp p w = (r, w')" and "w_fs w tmp = N p" and "N p \<noteq> None" and "tmp \<noteq> p"
  shows "progress N {tmp} w w'" and "q \<noteq> tmp \<Longrightarrow> q \<noteq> p \<Longrightarrow> w_fs w' q = w_fs w q"
    and "r = Done True \<Longrightarrow> w_fs w' p = N p \<and> w_fs w' tmp = None" and "r = Done False \<Longrightarrow> w_fs w' = w_fs w \<and> failing w"
    and "w_fs w' tmp \<in> {w_fs w tmp, None}"
proof -
  let ?mv = "\<lambda>v. set_entry tmp None (set_entry p (w_fs v tmp) v)"
  have mv: "progress N {tmp} v (?mv v)" if "w_fs v = w_fs w" "w_past v = w_past w" for v
    using that assms by (auto simp: progress_def set_entry_def may_def)
  from assms(1) [unfolded os_Rename_def] show "progress N {tmp} w w'"
  proof (cases rule: atomically_cases)
    case (ok v)
    with progress_trans [OF frame_progress [OF ok(2)] mv] show ?thesis by simp
  next
    case failed
    then show ?thesis by (auto intro: progress_mono frame_progress)
  next
    case (crashed v)
    with progress_trans [OF frame_progress [OF crashed(2)] mv] show ?thesis
      by (auto intro: progress_mono frame_progress)
  qed
  from assms(1) [unfolded os_Rename_def] show "q \<noteq> tmp \<Longrightarrow> q \<noteq> p \<Longrightarrow> w_fs w' q = w_fs w q"
    "r = Done True \<Longrightarrow> w_fs w' p = N p \<and> w_fs w' tmp = None" "r = Done False \<Longrightarrow> w_fs w' = w_fs w \<and> failing w"
    "w_fs w' tmp \<in> {w_fs w tmp, None}"
    using assms(2,4) by (cases rule: atomically_cases; auto simp: set_entry_def)+
qed

lemma os_SyncDir_cases:
  assumes "os_SyncDir dir w = (r, w')"
  shows "progress N {} w w' \<and> w_fs w' = w_fs w \<and> (\<forall>p. w_past w' p = w_past w p \<or> w_past w' p = [])
    \<and> (r = Done True \<longrightarrow> (\<forall>p. path_Dir p = dir \<longrightarrow> w_past w' p = [])) \<and> (r = Done False \<longrightarrow> failing w)"
proof -
  let ?s = "\<lambda>v. v\<lparr>w_past := (\<lambda>p. if path_Dir p = dir then [] else w_past v p)\<rparr>"
  have s: "progress N {} v (?s v)" for v by (auto simp: progress_def may_def)
  from assms [unfolded os_SyncDir_def] show ?thesis
  proof (cases rule: atomically_cases)
    case (ok v)
    with progress_trans [OF frame_progress [OF ok(2)] s] show ?thesis by simp
  next
    case failed
    then show ?thesis by (simp add: frame_progress)
  next
    case (crashed v)
    then show ?thesis using progress_trans [OF frame_progress [OF crashed(2)] s] frame_progress by auto
  qed
qed

lemma quiet_cases:
  assumes "atomically id w = (r, w')"
  shows "progress N {} w w'" "w_fs w' = w_fs w" "w_past w' = w_past w" "r = Done False \<Longrightarrow> failing w"
  using assms by (cases rule: atomically_cases; auto simp: frame_progress)+

lemma os_Read_cases:
  assumes "os_Read p g w = (r, w')"
  shows "frame {} w w'" and "r = Done (Content d) \<Longrightarrow> \<exists>f. w_fs w p = Some f \<and> d = g f"
proof -
  from assms have *: "frame {} w w' \<and> (\<forall>d. r = Done (Content d) \<longrightarrow> (\<exists>f. w_fs w p = Some f \<and> d = g f))"
    unfolding os_Read_def
  proof (cases rule: io_bind_cases)
    case crashed
    with os_Close_frame [OF crashed(1) [folded os_Close_def]] show ?thesis by simp
  next
    case (returned ok w1)
    with os_Close_frame [OF returned(1) [folded os_Close_def]] show ?thesis
      by (auto split: if_splits option.splits)
  qed
  then show "frame {} w w'" "r = Done (Content d) \<Longrightarrow> \<exists>f. w_fs w p = Some f \<and> d = g f" by auto
qed

lemma frame_empty_fs: "frame {} w w' \<Longrightarrow> w_fs w' = w_fs w"
  by (auto simp: frame_def)

end
