(* ===== verification/Agent_Install.thy ===== *)
theory Agent_Install
  imports Agent_Disk
begin

text \<open>
  The part of \<^verbatim>\<open>agent/internal/fetch/fetch.go\<close> that replaces files: \<^verbatim>\<open>writeTemp\<close>,
  \<^verbatim>\<open>writeFile\<close> and \<^verbatim>\<open>install\<close> with its loops and its deferred clean-up, call by call. The lemmas follow
  each of them through every outcome: \<open>writeTemp_cases\<close>, \<open>write_temps_cases\<close>,
  \<open>rename_temps_cases\<close>, \<open>sync_dirs_cases\<close>, \<open>install_cases\<close>, \<open>writeFile_cases\<close>.
\<close>

section \<open>Installing files\<close>

datatype install_error = Preparing string | Writing string | Installing string

definition fill_temp :: "string \<Rightarrow> bytes \<Rightarrow> FileMode \<Rightarrow> bool io" where
  "fill_temp tmp data mode = io_bind (os_Chmod tmp mode) (\<lambda>ok. if \<not> ok then io_return False
     else io_bind (os_Write tmp data) (\<lambda>ok. if \<not> ok then io_return False else os_Sync tmp))"

definition close_temp :: "string \<Rightarrow> string \<Rightarrow> bool \<Rightarrow> (install_error + string) io" where
  "close_temp path tmp ok = io_bind os_Close (\<lambda>closed.
     if \<not> (ok \<and> closed) then io_bind (os_Remove tmp) (\<lambda>_. io_return (Inl (Writing path)))
     else io_return (Inr tmp))"

definition writeTemp :: "string \<Rightarrow> bytes \<Rightarrow> FileMode \<Rightarrow> (install_error + string) io" where
  "writeTemp path data mode = (case path_Split path of (dir, base) \<Rightarrow>
     io_bind (os_CreateTemp dir (''.'' @ base @ ''.tmp'')) (\<lambda>created. case created of
        None \<Rightarrow> io_return (Inl (Preparing path))
      | Some tmp \<Rightarrow> io_bind (fill_temp tmp data mode) (close_temp path tmp)))"

definition writeFile :: "string \<Rightarrow> bytes \<Rightarrow> FileMode \<Rightarrow> install_error option io" where
  "writeFile path data mode = io_bind (writeTemp path data mode) (\<lambda>res. case res of
      Inl err \<Rightarrow> io_return (Some err)
    | Inr tmp \<Rightarrow> io_bind (os_Rename tmp path) (\<lambda>ok.
        if ok then io_return None else io_bind (os_Remove tmp) (\<lambda>_. io_return (Some (Installing path)))))"

fun remove_temps :: "string list \<Rightarrow> unit io" where
  "remove_temps [] = io_return ()"
| "remove_temps (tmp # temps) =
     (if tmp = [] then remove_temps temps else io_bind (os_Remove tmp) (\<lambda>_. remove_temps temps))"

text \<open>The first two loops of \<^verbatim>\<open>install\<close>, with the list \<^verbatim>\<open>temps\<close> as they leave it.\<close>

fun write_temps :: "(string \<rightharpoonup> bytes) \<Rightarrow> Target list \<Rightarrow> string list \<Rightarrow> (install_error option \<times> string list) io" where
  "write_temps values [] temps = io_return (None, temps)"
| "write_temps values (f # files) temps =
     io_bind (writeTemp (t_Path f) (case values (t_Key f) of None \<Rightarrow> [] | Some v \<Rightarrow> v) (t_Mode f)) (\<lambda>res. case res of
        Inl err \<Rightarrow> io_return (Some err, temps)
      | Inr tmp \<Rightarrow> write_temps values files (temps @ [tmp]))"

fun rename_temps :: "nat \<Rightarrow> Target list \<Rightarrow> string list \<Rightarrow> (install_error option \<times> string list) io" where
  "rename_temps i [] temps = io_return (None, temps)"
| "rename_temps i (f # files) temps =
     io_bind (os_Rename (temps ! i) (t_Path f)) (\<lambda>ok.
       if \<not> ok then io_return (Some (Installing (t_Path f)), temps)
       else rename_temps (Suc i) files (temps[i := []]))"

fun dirs_loop :: "string list \<Rightarrow> Target list \<Rightarrow> string list" where
  "dirs_loop out [] = out"
| "dirs_loop out (f # files) =
     (let dir = path_Dir (t_Path f) in dirs_loop (if dir \<in> set out then out else out @ [dir]) files)"

definition dirs :: "Target list \<Rightarrow> string list" where
  "dirs files = dirs_loop [] files"

definition sync_dir :: "string \<Rightarrow> unit io" where
  "sync_dir dir = io_bind (atomically id) (\<lambda>opened. if \<not> opened then io_return ()
     else io_bind (os_SyncDir dir) (\<lambda>_. io_bind os_Close (\<lambda>_. io_return ())))"

fun sync_dirs :: "string list \<Rightarrow> unit io" where
  "sync_dirs [] = io_return ()"
| "sync_dirs (dir # ds) = io_bind (sync_dir dir) (\<lambda>_. sync_dirs ds)"

definition install :: "Target list \<Rightarrow> (string \<rightharpoonup> bytes) \<Rightarrow> install_error option io" where
  "install files values = io_bind (write_temps values files []) (\<lambda>(err, temps). case err of
      Some e \<Rightarrow> io_bind (remove_temps temps) (\<lambda>_. io_return (Some e))
    | None \<Rightarrow> io_bind (rename_temps 0 files temps) (\<lambda>(err, temps). case err of
        Some e \<Rightarrow> io_bind (remove_temps temps) (\<lambda>_. io_return (Some e))
      | None \<Rightarrow> io_bind (sync_dirs (dirs files)) (\<lambda>_. io_bind (remove_temps temps) (\<lambda>_. io_return None))))"

text \<open>\<^verbatim>\<open>touchStamp\<close> writes in place; a new file gets \<open>0o644\<close> less the bits of the process's mask.\<close>

section \<open>Temporary files\<close>

text \<open>The names of temporary files for a destination.\<close>

definition temp_names :: "string \<Rightarrow> string \<Rightarrow> string set" where
  "temp_names tempDir path = (case path_Split path of (dir, base) \<Rightarrow>
     range (temp_name tempDir dir (''.'' @ base @ ''.tmp'')))"

text \<open>
  What a temporary file can hold: nothing yet, with the mode it was created with, or a part of the
  value, with the mode of the destination.
\<close>

definition discreet :: "FileMode \<Rightarrow> bytes \<Rightarrow> File option \<Rightarrow> bool" where
  "discreet mode data f = (case f of None \<Rightarrow> True | Some f \<Rightarrow>
     f_mode f = 0x180 \<and> f_data f = [] \<or> f_mode f = mode \<and> (\<exists>n. f_data f = take n data))"

lemma discreet_simps [simp]: "discreet mode data None" "discreet mode data (Some \<lparr>f_data = data, f_mode = mode, f_synced = b\<rparr>)"
  by (auto simp: discreet_def intro: exI [of _ "length data"])

lemma create_loop_cases:
  assumes "create_loop name rs w = (res, w')"
  obtains (none) "res = Done None" "frame {} w w'"
    | (some) r where "w_fs w (name r) = None" "frame {name r} w w'"
        "w_fs w' (name r) \<in> {None, Some \<lparr>f_data = [], f_mode = 0x180, f_synced = False\<rparr>}"
        "res = Crashed \<or> res = Done (Some (name r))
           \<and> w_fs w' (name r) = Some \<lparr>f_data = [], f_mode = 0x180, f_synced = False\<rparr>"
  using assms
proof (induction rs arbitrary: thesis)
  case (Cons r rs)
  show ?case
  proof (cases "w_fs w (name r) = None")
    case False
    with Cons show ?thesis by auto
  next
    case True
    let ?new = "Some \<lparr>f_data = [], f_mode = 0x180, f_synced = False\<rparr> :: File option"
    from Cons.prems(3) True have "io_bind (os_Create (name r))
      (\<lambda>ok. io_return (if ok then Some (name r) else None)) w = (res, w')" by simp
    then show ?thesis
    proof (cases rule: io_bind_cases)
      case crashed
      note c = crashed
      from c(1) have f: "frame {name r} w w'" unfolding os_Create_def by (rule atomically_frame) simp
      from c(1) have "w_fs w' (name r) \<in> {None, ?new}" unfolding os_Create_def
        by (cases rule: atomically_cases) (auto simp: set_entry_def True)
      with f True c show ?thesis by (intro Cons.prems(2) [of r]) simp_all
    next
      case (returned ok w1)
      from returned(1) have f: "frame {name r} w w1" unfolding os_Create_def by (rule atomically_frame) simp
      from returned(1) show ?thesis unfolding os_Create_def
      proof (cases rule: atomically_cases)
        case (ok v)
        with f True returned show ?thesis by (intro Cons.prems(2) [of r]) (simp_all add: set_entry_def)
      next
        case failed
        with returned show ?thesis by (intro Cons.prems(1)) simp_all
      qed simp
    qed
  qed
qed simp

lemma os_CreateTemp_cases:
  assumes "os_CreateTemp dir (''.'' @ base @ ''.tmp'') w = (res, w')" and "path_Split path = (dir, base)"
  obtains (none) "res = Done None" "frame {} w w'"
    | (some) tmp where "tmp \<in> temp_names (w_TempDir w) path" "w_fs w tmp = None" "frame {tmp} w w'"
        "w_fs w' tmp \<in> {None, Some \<lparr>f_data = [], f_mode = 0x180, f_synced = False\<rparr>}"
        "res = Crashed \<or> res = Done (Some tmp) \<and> w_fs w' tmp = Some \<lparr>f_data = [], f_mode = 0x180, f_synced = False\<rparr>"
proof -
  have w: "frame {} w (w\<lparr>w_rand := rs\<rparr>)" "w_fs (w\<lparr>w_rand := rs\<rparr>) = w_fs w" for rs by (simp_all add: frame_def)
  from assms(1) show thesis
    unfolding os_CreateTemp_def
  proof (cases rule: create_loop_cases)
    case none
    with w(1) [of "tl (w_rand w)"] show ?thesis by (intro that(1)) (auto intro: frame_trans1)
  next
    case (some r)
    let ?tmp = "temp_name (w_TempDir w) dir (''.'' @ base @ ''.tmp'') r"
    have "?tmp \<in> temp_names (w_TempDir w) path" using assms(2) by (auto simp: temp_names_def)
    moreover have "frame {?tmp} w w'" using frame_trans [OF w(1) some(2)] by simp
    ultimately show ?thesis using some by (intro that(2) [of ?tmp]) simp_all
  qed
qed

lemma fill_temp_cases:
  assumes "fill_temp tmp data mode w = (r, w')"
    and "w_fs w tmp = Some \<lparr>f_data = [], f_mode = 0x180, f_synced = False\<rparr>"
  shows "frame {tmp} w w' \<and> discreet mode data (w_fs w' tmp)
    \<and> (r = Done True \<longrightarrow> w_fs w' tmp = Some \<lparr>f_data = data, f_mode = mode, f_synced = True\<rparr>)
    \<and> (r = Done False \<longrightarrow> failing w)"
  using assms(1) unfolding fill_temp_def
proof (cases rule: io_bind_cases)
  case crashed
  note chmod = change_atomically [OF crashed(1) [unfolded os_Chmod_def] assms(2)]
  from chmod(1,2) crashed show ?thesis by (auto simp: discreet_def)
next
  case (returned ok w1)
  note chmod = change_atomically [OF returned(1) [unfolded os_Chmod_def] assms(2)]
  show ?thesis
  proof (cases ok)
    case False
    with chmod returned show ?thesis by (auto simp: discreet_def)
  next
    case True
    with chmod(3) returned have f1: "w_fs w1 tmp = Some \<lparr>f_data = [], f_mode = mode, f_synced = False\<rparr>" by simp
    from returned(2) True have "io_bind (os_Write tmp data) (\<lambda>ok. if \<not> ok then io_return False else os_Sync tmp) w1
      = (r, w')" by simp
    then show ?thesis
    proof (cases rule: io_bind_cases)
      case crashed
      note wr = os_Write_cases [OF crashed(1) f1]
      from frame_trans1 [OF chmod(1) wr(1)] wr(2) crashed show ?thesis by (auto simp: discreet_def)
    next
      case (returned ok w2)
      note wr = os_Write_cases [OF returned(1) f1]
      note fr = frame_trans1 [OF chmod(1) wr(1)]
      show ?thesis
      proof (cases ok)
        case False
        with wr(2,4) fr returned frame_failing [OF chmod(1)] show ?thesis by (auto simp: discreet_def)
      next
        case True
        with wr(3) returned have f2: "w_fs w2 tmp = Some \<lparr>f_data = data, f_mode = mode, f_synced = False\<rparr>" by simp
        from returned(2) True have "os_Sync tmp w2 = (r, w')" by simp
        note sy = change_atomically [OF this [unfolded os_Sync_def] f2]
        from frame_trans1 [OF fr sy(1)] sy(2-4) frame_failing [OF fr] show ?thesis by auto
      qed
    qed
  qed
qed

text \<open>The result of \<^verbatim>\<open>writeTemp\<close>: a complete flushed file, or an error.\<close>

definition temp_result :: "string \<Rightarrow> bytes \<Rightarrow> FileMode \<Rightarrow> string \<Rightarrow> (install_error + string) outcome \<Rightarrow> bool \<Rightarrow> world \<Rightarrow> bool" where
  "temp_result path data mode tmp r bad w' = (case r of
      Done (Inr t) \<Rightarrow> t = tmp \<and> w_fs w' tmp = Some \<lparr>f_data = data, f_mode = mode, f_synced = True\<rparr>
    | Done (Inl e) \<Rightarrow> e = Writing path \<and> bad
    | Crashed \<Rightarrow> True)"

lemma close_temp_cases:
  assumes "close_temp path tmp ok w = (r, w')" and "ok \<or> bad" and "failing w \<Longrightarrow> bad"
    and "discreet mode data (w_fs w tmp)"
    and "ok \<Longrightarrow> w_fs w tmp = Some \<lparr>f_data = data, f_mode = mode, f_synced = True\<rparr>"
  shows "frame {tmp} w w' \<and> discreet mode data (w_fs w' tmp) \<and> temp_result path data mode tmp r bad w'"
  using assms(1) unfolding close_temp_def
proof (cases rule: io_bind_cases)
  case crashed
  with os_Close_frame [OF crashed(1)] assms(4) show ?thesis by (auto simp: temp_result_def intro: frame_mono)
next
  case (returned closed w1)
  note cl = os_Close_frame [OF returned(1)]
  have fr: "frame {tmp} w w1" using cl by (auto intro: frame_mono)
  show ?thesis
  proof (cases "ok \<and> closed")
    case True
    with returned(2) cl fr assms(4,5) show ?thesis by (auto simp: temp_result_def)
  next
    case False
    then have bad using cl assms(2,3) by auto
    from returned(2) False have "io_bind (os_Remove tmp) (\<lambda>_. io_return (Inl (Writing path))) w1 = (r, w')" by simp
    then obtain r0 where rm: "os_Remove tmp w1 = (r0, w')" and r: "r = Crashed \<or> r = Done (Inl (Writing path))"
      by (cases rule: io_bind_cases) auto
    from os_Remove_frame [OF rm] cl assms(4) \<open>bad\<close> r frame_trans1 [OF fr] show ?thesis
      by (auto simp: temp_result_def discreet_def)
  qed
qed

lemma writeTemp_cases:
  assumes "writeTemp path data mode w = (r, w')"
  obtains (none) "r = Done (Inl (Preparing path))" "frame {} w w'"
    | (some) tmp where "tmp \<in> temp_names (w_TempDir w) path" "w_fs w tmp = None" "frame {tmp} w w'"
        "discreet mode data (w_fs w' tmp)" "temp_result path data mode tmp r (failing w) w'"
proof -
  obtain dir base where sp: "path_Split path = (dir, base)" by fastforce
  from assms show thesis unfolding writeTemp_def sp prod.case
  proof (cases rule: io_bind_cases)
    case crashed
    from crashed(1) sp show ?thesis
    proof (cases rule: os_CreateTemp_cases)
      case (some tmp)
      with crashed show ?thesis by (intro that(2) [of tmp]) (auto simp: discreet_def temp_result_def)
    qed simp
  next
    case (returned created w1)
    from returned(1) sp show ?thesis
    proof (cases rule: os_CreateTemp_cases)
      case none
      with returned show ?thesis by (intro that(1)) simp_all
    next
      case (some tmp)
      then have created: "created = Some tmp" and
        f1: "w_fs w1 tmp = Some \<lparr>f_data = [], f_mode = 0x180, f_synced = False\<rparr>" by auto
      have "frame {tmp} w1 w' \<and> discreet mode data (w_fs w' tmp) \<and> temp_result path data mode tmp r (failing w) w'"
        using returned(2) [unfolded created option.case]
      proof (cases rule: io_bind_cases)
        case crashed
        with fill_temp_cases [OF crashed(1) f1] show ?thesis by (simp add: temp_result_def)
      next
        case (returned ok w2)
        note fill = fill_temp_cases [OF returned(1) f1]
        have "ok \<or> failing w" using fill frame_failing [OF some(3)] by auto
        moreover have "failing w2 \<Longrightarrow> failing w"
          using fill frame_failing [OF some(3)] frame_failing by blast
        ultimately show ?thesis
          using close_temp_cases [OF returned(2), of "failing w" mode data] fill frame_trans1 by auto
      qed
      with some frame_trans1 [OF some(3)] show ?thesis by (intro that(2) [of tmp]) blast+
    qed
  qed
qed

section \<open>Writing all temporary files\<close>

definition new_file :: "(string \<rightharpoonup> bytes) \<Rightarrow> Target \<Rightarrow> File" where
  "new_file values f = \<lparr>f_data = (case values (t_Key f) of None \<Rightarrow> [] | Some v \<Rightarrow> v), f_mode = t_Mode f, f_synced = True\<rparr>"

definition private_to :: "(string \<rightharpoonup> bytes) \<Rightarrow> Target \<Rightarrow> File option \<Rightarrow> bool" where
  "private_to values f x = discreet (t_Mode f) (f_data (new_file values f)) x"

lemma private_to_None [simp]: "private_to values f None"
  by (simp add: private_to_def)

definition temp_space :: "string \<Rightarrow> Target list \<Rightarrow> string set" where
  "temp_space tempDir files = (\<Union>f\<in>set files. temp_names tempDir (t_Path f))"

definition temps_result :: "(string \<rightharpoonup> bytes) \<Rightarrow> Target list \<Rightarrow> string list \<Rightarrow> string set
    \<Rightarrow> (install_error option \<times> string list) outcome \<Rightarrow> world \<Rightarrow> bool" where
  "temps_result values files temps X r w' = (case r of
      Crashed \<Rightarrow> True
    | Done (Some e, temps') \<Rightarrow> (\<exists>p. e = Preparing p \<or> e = Writing p) \<and> (\<exists>ts. temps' = temps @ ts \<and> set ts \<subseteq> X)
    | Done (None, temps') \<Rightarrow> (\<exists>ts. temps' = temps @ ts \<and> set ts = X \<and> distinct ts
        \<and> list_all2 (\<lambda>f t. w_fs w' t = Some (new_file values f)) files ts))"

lemma write_temps_cases:
  assumes "write_temps values files temps w = (r, w')"
  shows "\<exists>X \<subseteq> temp_space (w_TempDir w) files. frame X w w'
    \<and> (\<forall>x\<in>X. w_fs w x = None \<and> (\<exists>f\<in>set files. private_to values f (w_fs w' x)))
    \<and> temps_result values files temps X r w'"
  using assms
proof (induction files arbitrary: temps w)
  case Nil
  then show ?case by (intro exI [of _ "{}"]) (auto simp: temps_result_def)
next
  case (Cons f files)
  let ?d = "case values (t_Key f) of None \<Rightarrow> [] | Some v \<Rightarrow> v"
  have new: "new_file values f = \<lparr>f_data = ?d, f_mode = t_Mode f, f_synced = True\<rparr>" by (simp add: new_file_def)
  have priv: "private_to values f x = discreet (t_Mode f) ?d x" for x by (simp add: private_to_def new)
  from Cons.prems [unfolded write_temps.simps] show ?case
  proof (cases rule: io_bind_cases)
    case crashed
    from crashed(1) show ?thesis
    proof (cases rule: writeTemp_cases)
      case (some tmp)
      with crashed(2) show ?thesis by (intro exI [of _ "{tmp}"]) (auto simp: temp_space_def temps_result_def priv)
    qed simp
  next
    case (returned res w1)
    from returned(1) show ?thesis
    proof (cases rule: writeTemp_cases)
      case none
      with returned(2) show ?thesis by (intro exI [of _ "{}"]) (auto simp: temps_result_def)
    next
      case (some tmp)
      show ?thesis
      proof (cases res)
        case (Inl e)
        with some returned(2) show ?thesis
          by (intro exI [of _ "{tmp}"]) (auto simp: temp_space_def temps_result_def temp_result_def priv)
      next
        case (Inr t)
        with some have t: "t = tmp" and f1: "w_fs w1 tmp = Some (new_file values f)"
          by (auto simp: temp_result_def new)
        from returned(2) Inr have "write_temps values files (temps @ [tmp]) w1 = (r, w')" by (simp add: t)
        from Cons.IH [OF this] obtain X where X: "X \<subseteq> temp_space (w_TempDir w1) files" "frame X w1 w'"
          "\<forall>x\<in>X. w_fs w1 x = None \<and> (\<exists>f\<in>set files. private_to values f (w_fs w' x))"
          "temps_result values files (temps @ [tmp]) X r w'" by blast
        have tmp: "tmp \<notin> X" using X(3) f1 by auto
        have td: "w_TempDir w1 = w_TempDir w" using some(3) by (simp add: frame_def)
        have f': "w_fs w' tmp = Some (new_file values f)" using frame_fs [OF X(2) tmp] f1 by simp
        have "\<forall>x\<in>insert tmp X. w_fs w x = None \<and> (\<exists>f\<in>set (f # files). private_to values f (w_fs w' x))"
        proof -
          have "w_fs w x = None" if "x \<in> X" for x
            using that X(3) tmp frame_fs [OF some(3), of x] by (cases "x = tmp") auto
          moreover have "private_to values f (w_fs w' tmp)" by (simp add: f' priv new)
          ultimately show ?thesis using X(3) some(2) by auto
        qed
        moreover have "temps_result values (f # files) temps (insert tmp X) r w'"
          using X(4) tmp f' unfolding temps_result_def by (fastforce split: outcome.splits prod.splits option.splits)
        moreover have "frame (insert tmp X) w w'" using frame_trans [OF some(3) X(2)] by simp
        moreover have "insert tmp X \<subseteq> temp_space (w_TempDir w) (f # files)"
          using X(1) some(1) by (auto simp: temp_space_def td)
        ultimately show ?thesis by blast
      qed
    qed
  qed
qed

section \<open>Renaming them into place\<close>

definition renames_result :: "(string \<rightharpoonup> File) \<Rightarrow> Target list \<Rightarrow> nat \<Rightarrow> string list
    \<Rightarrow> (install_error option \<times> string list) outcome \<Rightarrow> world \<Rightarrow> bool" where
  "renames_result N files i temps r w' = (case r of
      Crashed \<Rightarrow> True
    | Done (Some e, temps') \<Rightarrow> (\<exists>p. e = Installing p) \<and> set temps' \<subseteq> insert [] (set temps)
    | Done (None, temps') \<Rightarrow> temps' = take i temps @ replicate (length files) []
        \<and> (\<forall>f\<in>set files. w_fs w' (t_Path f) = N (t_Path f)) \<and> (\<forall>t\<in>set (drop i temps). w_fs w' t = None))"

text \<open>What holds after the renames from \<open>i\<close> on.\<close>

definition renamed :: "(string \<rightharpoonup> File) \<Rightarrow> Target list \<Rightarrow> nat \<Rightarrow> string list
    \<Rightarrow> (install_error option \<times> string list) outcome \<Rightarrow> world \<Rightarrow> world \<Rightarrow> bool" where
  "renamed N files i temps r w w' \<longleftrightarrow> progress N (set (drop i temps)) w w' \<and> renames_result N files i temps r w'
    \<and> (\<forall>t\<in>set (drop i temps). w_fs w' t \<in> {w_fs w t, None})
    \<and> (\<forall>q. q \<notin> set (drop i temps) \<union> t_Path ` set files \<longrightarrow> w_fs w' q = w_fs w q)"

lemma renamed_step:
  assumes "renamed N files (Suc i) (temps[i := []]) r w1 w'" and "drop i temps = tmp # drop (Suc i) temps"
    and "progress N {tmp} w w1" and "w_fs w1 (t_Path f) = N (t_Path f)" and "w_fs w1 tmp = None"
    and others: "\<And>q. q \<noteq> tmp \<Longrightarrow> q \<noteq> t_Path f \<Longrightarrow> w_fs w1 q = w_fs w q"
    and distinct: "tmp \<notin> set (drop (Suc i) temps)" "t_Path f \<notin> t_Path ` set files"
    and apart: "\<forall>g\<in>set (f # files). t_Path g \<notin> set (drop i temps)"
  shows "renamed N (f # files) i temps r w w'"
proof -
  have d': "drop (Suc i) (temps[i := []]) = drop (Suc i) temps" by simp
  note IH = assms(1) [unfolded renamed_def d']
  have tmp: "tmp \<notin> set (drop (Suc i) temps) \<union> t_Path ` set files" and f: "t_Path f \<notin> set (drop (Suc i) temps) \<union> t_Path ` set files"
    using distinct apart assms(2) by auto
  have now: "w_fs w' tmp = None" "w_fs w' (t_Path f) = N (t_Path f)"
    using IH tmp f assms(4,5) by auto
  have "progress N (set (drop i temps)) w w'"
    using progress_trans [OF assms(3), of "set (drop (Suc i) temps)" w'] IH by (simp add: assms(2))
  moreover have "\<forall>t\<in>set (drop i temps). w_fs w' t \<in> {w_fs w t, None}"
  proof -
    have "w_fs w' t \<in> {w_fs w t, None}" if "t \<in> set (drop (Suc i) temps)" for t
    proof -
      have "t \<noteq> tmp" "t \<noteq> t_Path f" using that f distinct(1) by auto
      then have "w_fs w1 t = w_fs w t" by (rule others)
      moreover have "w_fs w' t \<in> {w_fs w1 t, None}" using that IH by blast
      ultimately show ?thesis by simp
    qed
    with now(1) show ?thesis by (auto simp: assms(2))
  qed
  moreover have "w_fs w' q = w_fs w q" if "q \<notin> set (drop i temps) \<union> t_Path ` set (f # files)" for q
    using that IH others [of q] by (auto simp: assms(2))
  moreover have "i < length temps" using assms(2) by (metis drop_all list.distinct(1) not_less)
  then have "take (Suc i) (temps[i := []]) = take i temps @ [[]]" by (simp add: take_Suc_conv_app_nth)
  then have "renames_result N (f # files) i temps r w'"
    using IH now set_update_subset_insert [of temps i "[]"]
    unfolding renames_result_def by (auto simp: assms(2) split: outcome.splits prod.splits option.splits)
  ultimately show ?thesis by (simp add: renamed_def)
qed

lemma rename_temps_cases:
  assumes "rename_temps i files temps w = (r, w')" and "length temps = i + length files"
    and "list_all2 (\<lambda>f t. w_fs w t = N (t_Path f)) files (drop i temps)" and "distinct (drop i temps)"
    and "\<forall>f\<in>set files. N (t_Path f) \<noteq> None \<and> t_Path f \<notin> set (drop i temps)" and "distinct (map t_Path files)"
  shows "renamed N files i temps r w w'"
  using assms
proof (induction files arbitrary: i temps w)
  case Nil
  then show ?case by (auto simp: renamed_def renames_result_def frame_progress)
next
  case (Cons f files)
  define tmp where "tmp = temps ! i"
  have d: "drop i temps = tmp # drop (Suc i) temps" using Cons.prems(2) by (simp add: tmp_def Cons_nth_drop_Suc)
  note prems = Cons.prems(3-6) [unfolded d]
  have old: "w_fs w tmp = N (t_Path f)" "N (t_Path f) \<noteq> None" "tmp \<noteq> t_Path f" using prems(1,3) by auto
  from Cons.prems(1) [unfolded rename_temps.simps] show ?case
  proof (cases rule: io_bind_cases)
    case crashed
    note rn = os_Rename_cases [where N = N, OF crashed(1) [folded tmp_def] old]
    have "progress N (set (drop i temps)) w w'" using rn(1) by (rule progress_mono) (simp add: d)
    moreover have "w_fs w' t = w_fs w t" if "t \<in> set (drop (Suc i) temps)" for t
      using rn(2) [of t] that prems(2,3) by auto
    ultimately show ?thesis using rn(2,5) crashed by (auto simp: renamed_def renames_result_def d)
  next
    case (returned ok w1)
    note rn = os_Rename_cases [where N = N, OF returned(1) [folded tmp_def] old]
    show ?thesis
    proof (cases ok)
      case False
      with rn(4) returned have "w_fs w' = w_fs w" "r = Done (Some (Installing (t_Path f)), temps)" "w' = w1" by auto
      with progress_mono [OF rn(1)] show ?thesis by (auto simp: renamed_def renames_result_def d)
    next
      case True
      have keep: "w_fs w1 t = w_fs w t" if "t \<in> set (drop (Suc i) temps)" for t
        using rn(2) [of t] that prems(2,3) by auto
      have d': "drop (Suc i) (temps[i := []]) = drop (Suc i) temps" by simp
      have "renamed N files (Suc i) (temps[i := []]) r w1 w'"
      proof (rule Cons.IH, unfold d')
        show "rename_temps (Suc i) files (temps[i := []]) w1 = (r, w')" using returned(2) True by simp
        show "list_all2 (\<lambda>f t. w_fs w1 t = N (t_Path f)) files (drop (Suc i) temps)"
          using prems(1) keep by (auto elim!: list.rel_mono_strong)
      qed (insert Cons.prems(2) prems, auto)
      then show ?thesis
        using rn(1,3) True prems by (intro renamed_step [OF _ d _ _ _ rn(2)]) (auto simp: d)
    qed
  qed
qed

section \<open>Flushing the directories and cleaning up\<close>

definition dirs_flushed :: "string list \<Rightarrow> unit outcome \<Rightarrow> world \<Rightarrow> world \<Rightarrow> bool" where
  "dirs_flushed ds r w w' \<longleftrightarrow> w_fs w' = w_fs w \<and> (\<forall>p. w_past w' p = w_past w p \<or> w_past w' p = [])
    \<and> (r = Done () \<and> \<not> failing w \<longrightarrow> (\<forall>p. path_Dir p \<in> set ds \<longrightarrow> w_past w' p = []))"

lemma dirs_flushed_trans:
  assumes "dirs_flushed ds (Done ()) w w1" and "dirs_flushed es r w1 w2" and "failing w1 \<Longrightarrow> failing w"
  shows "dirs_flushed (ds @ es) r w w2"
  using assms unfolding dirs_flushed_def by (metis Un_iff set_append)

lemma dirs_flushed_crashed: "dirs_flushed ds Crashed w w' = dirs_flushed es Crashed w w'"
  by (simp add: dirs_flushed_def)

lemma sync_dir_cases:
  assumes "sync_dir dir w = (r, w')"
  shows "progress N {} w w' \<and> dirs_flushed [dir] r w w'"
  using assms unfolding sync_dir_def
proof (cases rule: io_bind_cases)
  case crashed
  with quiet_cases(1-3) [OF crashed(1)] show ?thesis by (simp add: dirs_flushed_def)
next
  case (returned opened w1)
  note op = quiet_cases [OF returned(1)]
  show ?thesis
  proof (cases opened)
    case False
    with op returned(2) show ?thesis by (simp add: dirs_flushed_def)
  next
    case True
    with returned(2) have "io_bind (os_SyncDir dir) (\<lambda>_. io_bind os_Close (\<lambda>_. io_return ())) w1 = (r, w')" by simp
    then show ?thesis
    proof (cases rule: io_bind_cases)
      case crashed
      with os_SyncDir_cases [OF crashed(1), of N] op(1-3) progress_trans1 [OF op(1)] show ?thesis
        by (simp add: dirs_flushed_def)
    next
      case (returned ok w2)
      note sd = os_SyncDir_cases [OF returned(1), of N]
      obtain r3 where c: "os_Close w2 = (r3, w')" using returned(2) by (cases rule: io_bind_cases) auto
      note cl = quiet_cases(1-3) [OF c [unfolded os_Close_def]]
      have "ok \<or> failing w" using sd progress_failing [OF op(1)] by auto
      with sd op(2,3) cl(2,3) progress_trans1 [OF progress_trans1 [OF op(1)] cl(1)] show ?thesis
        by (auto simp: dirs_flushed_def)
    qed
  qed
qed

lemma sync_dirs_cases:
  "sync_dirs ds w = (r, w') \<Longrightarrow> progress N {} w w' \<and> dirs_flushed ds r w w'"
proof (induction ds arbitrary: w)
  case Nil
  then show ?case by (simp add: frame_progress dirs_flushed_def)
next
  case (Cons dir ds)
  from Cons.prems [unfolded sync_dirs.simps] show ?case
  proof (cases rule: io_bind_cases)
    case crashed
    with sync_dir_cases [OF crashed(1)] dirs_flushed_crashed show ?thesis by blast
  next
    case (returned u w1)
    note sd = sync_dir_cases [OF returned(1)]
    from dirs_flushed_trans [of "[dir]" w w1 ds r w'] sd Cons.IH [OF returned(2)] progress_trans1 progress_failing
    show ?thesis by fastforce
  qed
qed

lemma set_dirs: "set (dirs files) = path_Dir ` t_Path ` set files"
proof -
  have "set (dirs_loop out files) = set out \<union> path_Dir ` t_Path ` set files" for out
    by (induction files arbitrary: out) (auto simp: Let_def)
  then show ?thesis by (simp add: dirs_def)
qed

lemma remove_temps_cases:
  "remove_temps temps w = (r, w') \<Longrightarrow> frame (set temps - {[]}) w w' \<and> (\<forall>t. w_fs w' t \<in> {w_fs w t, None})"
proof (induction temps arbitrary: w)
  case (Cons tmp temps)
  show ?case
  proof (cases "tmp = []")
    case True
    with Cons show ?thesis by simp
  next
    case False
    with Cons.prems have "io_bind (os_Remove tmp) (\<lambda>_. remove_temps temps) w = (r, w')" by simp
    then show ?thesis
    proof (cases rule: io_bind_cases)
      case crashed
      from os_Remove_frame [OF crashed(1)] have rm: "frame {tmp} w w'" "w_fs w' tmp \<in> {w_fs w tmp, None}" by auto
      have "w_fs w' t \<in> {w_fs w t, None}" for t using rm frame_fs [OF rm(1), of t] by (cases "t = tmp") auto
      with frame_mono [OF rm(1)] False show ?thesis by simp
    next
      case (returned ok w1)
      from os_Remove_frame [OF returned(1)] have rm: "frame {tmp} w w1" "w_fs w1 tmp \<in> {w_fs w tmp, None}" by auto
      have *: "w_fs w1 t \<in> {w_fs w t, None}" for t using rm frame_fs [OF rm(1), of t] by (cases "t = tmp") auto
      from Cons.IH [OF returned(2)] have IH: "frame (set temps - {[]}) w1 w'" "\<And>t. w_fs w' t \<in> {w_fs w1 t, None}" by auto
      have "frame (set (tmp # temps) - {[]}) w w'"
        using frame_mono [OF frame_trans [OF rm(1) IH(1)], of "set (tmp # temps) - {[]}"] False by auto
      moreover have "w_fs w' t \<in> {w_fs w t, None}" for t using * [of t] IH(2) [of t] by auto
      ultimately show ?thesis by blast
    qed
  qed
qed simp

lemma remove_no_temps [simp]: "remove_temps (replicate n []) = io_return ()"
  by (induction n) simp_all

section \<open>The whole installation\<close>

definition new_files :: "(string \<rightharpoonup> bytes) \<Rightarrow> Target list \<Rightarrow> string \<rightharpoonup> File" where
  "new_files values files = map_of (map (\<lambda>f. (t_Path f, new_file values f)) files)"

lemma new_files_target:
  "distinct (map t_Path files) \<Longrightarrow> f \<in> set files \<Longrightarrow> new_files values files (t_Path f) = Some (new_file values f)"
  unfolding new_files_def by (rule map_of_is_SomeI) (auto simp: comp_def)

lemma new_files_None [simp]: "new_files values files p = None \<longleftrightarrow> p \<notin> t_Path ` set files"
  by (auto simp: new_files_def map_of_eq_None_iff image_image)

text \<open>What an installation has done in the world it leaves; \<open>X\<close> are its temporary files.\<close>

definition installed :: "(string \<rightharpoonup> bytes) \<Rightarrow> Target list \<Rightarrow> string set \<Rightarrow> install_error option outcome \<Rightarrow> world \<Rightarrow> world \<Rightarrow> bool" where
  "installed values files X r w w' \<longleftrightarrow> X \<subseteq> temp_space (w_TempDir w) files
    \<and> progress (new_files values files) X w w'
    \<and> (\<forall>x\<in>X. w_fs w x = None \<and> (\<exists>f\<in>set files. private_to values f (w_fs w' x)))
    \<and> (\<forall>p. r = Done (Some (Preparing p)) \<or> r = Done (Some (Writing p)) \<longrightarrow> frame X w w')
    \<and> (r = Done None \<longrightarrow> (\<forall>x\<in>X. w_fs w' x = None)
         \<and> (\<forall>f\<in>set files. w_fs w' (t_Path f) = Some (new_file values f)
              \<and> (\<not> failing w \<longrightarrow> w_past w' (t_Path f) = [])))"

lemma installedI:
  assumes "X \<subseteq> temp_space (w_TempDir w) files" and "frame X w w1" and "progress (new_files values files) X w1 w'"
    and "\<forall>x\<in>X. w_fs w x = None \<and> (\<exists>f\<in>set files. private_to values f (w_fs w1 x))"
    and "\<forall>x\<in>X. w_fs w' x \<in> {w_fs w1 x, None}"
    and "\<And>p. r = Done (Some (Preparing p)) \<or> r = Done (Some (Writing p)) \<Longrightarrow> frame X w1 w'"
    and "r = Done None \<Longrightarrow> \<forall>x\<in>X. w_fs w' x = None"
    and "\<And>f. r = Done None \<Longrightarrow> f \<in> set files \<Longrightarrow> w_fs w' (t_Path f) = Some (new_file values f)
              \<and> (\<not> failing w \<longrightarrow> w_past w' (t_Path f) = [])"
  shows "installed values files X r w w'"
proof -
  have "\<forall>x\<in>X. w_fs w x = None \<and> (\<exists>f\<in>set files. private_to values f (w_fs w' x))"
  proof
    fix x assume x: "x \<in> X"
    with assms(4) obtain f where f: "f \<in> set files" "private_to values f (w_fs w1 x)" "w_fs w x = None" by blast
    with assms(5) x have "private_to values f (w_fs w' x)" by auto
    with f show "w_fs w x = None \<and> (\<exists>f\<in>set files. private_to values f (w_fs w' x))" by blast
  qed
  moreover have "progress (new_files values files) X w w'"
    using progress_trans1 [OF frame_progress [OF assms(2)] assms(3)] .
  moreover have "\<forall>p. r = Done (Some (Preparing p)) \<or> r = Done (Some (Writing p)) \<longrightarrow> frame X w w'"
    using frame_trans1 [OF assms(2)] assms(6) by blast
  ultimately show ?thesis using assms(1,7,8) unfolding installed_def by blast
qed

lemma remove_rest:
  assumes "io_bind (remove_temps temps) (\<lambda>_. io_return (Some e)) w = (r, w')" and "set temps - {[]} \<subseteq> X"
  shows "frame X w w' \<and> (\<forall>t. w_fs w' t \<in> {w_fs w t, None}) \<and> (r = Crashed \<or> r = Done (Some e))"
  using assms(1)
proof (cases rule: io_bind_cases)
  case crashed
  with remove_temps_cases [OF crashed(1)] frame_mono [OF _ assms(2)] show ?thesis by blast
next
  case (returned u w1)
  with remove_temps_cases [OF returned(1)] frame_mono [OF _ assms(2)] show ?thesis by auto
qed

text \<open>After all temporary files are written.\<close>

lemma install_rest:
  assumes run: "io_bind (rename_temps 0 files ts) (\<lambda>(err, temps). case err of
        Some e \<Rightarrow> io_bind (remove_temps temps) (\<lambda>_. io_return (Some e))
      | None \<Rightarrow> io_bind (sync_dirs (dirs files)) (\<lambda>_. io_bind (remove_temps temps) (\<lambda>_. io_return None))) w = (r, w')"
    and ts: "distinct ts" "list_all2 (\<lambda>f t. w_fs w t = Some (new_file values f)) files ts"
    and apart: "\<forall>f\<in>set files. t_Path f \<notin> set ts" "distinct (map t_Path files)"
  shows "progress (new_files values files) (set ts) w w' \<and> (\<forall>x\<in>set ts. w_fs w' x \<in> {w_fs w x, None})
    \<and> (\<forall>e. r = Done (Some e) \<longrightarrow> (\<exists>p. e = Installing p))
    \<and> (r = Done None \<longrightarrow> (\<forall>x\<in>set ts. w_fs w' x = None) \<and> (\<forall>f\<in>set files. w_fs w' (t_Path f) = Some (new_file values f)
         \<and> (\<not> failing w \<longrightarrow> w_past w' (t_Path f) = [])))"
proof -
  let ?N = "new_files values files"
  have "list_all2 (\<lambda>f t. w_fs w t = ?N (t_Path f)) files ts"
    using ts(2) by (rule list.rel_mono_strong) (simp add: new_files_target [OF apart(2)])
  moreover have "length ts = length files" using list_all2_lengthD [OF ts(2)] by simp
  ultimately have rn: "renamed ?N files 0 ts r0 w w1" if "rename_temps 0 files ts w = (r0, w1)" for r0 w1
    using rename_temps_cases [OF that, of ?N] ts(1) apart by simp
  from run show ?thesis
  proof (cases rule: io_bind_cases)
    case crashed
    with rn [OF crashed(1)] show ?thesis by (simp add: renamed_def)
  next
    case (returned res w1)
    obtain err temps where res: "res = (err, temps)" by fastforce
    note rn = rn [OF returned(1), unfolded renamed_def res]
    show ?thesis
    proof (cases err)
      case (Some e)
      with rn have sub: "set temps - {[]} \<subseteq> set ts" and e: "\<exists>p. e = Installing p" by (auto simp: renames_result_def)
      have "io_bind (remove_temps temps) (\<lambda>_. io_return (Some e)) w1 = (r, w')" using returned(2) Some by (simp add: res)
      from remove_rest [OF this sub] have rm: "frame (set ts) w1 w'" "\<And>t. w_fs w' t \<in> {w_fs w1 t, None}"
        and r: "r = Crashed \<or> r = Done (Some e)" by auto
      have "progress ?N (set ts) w w'" using rn progress_trans1 [OF _ frame_progress [OF rm(1)]] by simp
      moreover have "w_fs w' x \<in> {w_fs w x, None}" if "x \<in> set ts" for x
        using that rn rm(2) [of x] by auto
      ultimately show ?thesis using r e by auto
    next
      case None
      with rn have temps: "temps = replicate (length files) []"
        and new: "\<forall>f\<in>set files. w_fs w1 (t_Path f) = ?N (t_Path f)" "\<forall>t\<in>set ts. w_fs w1 t = None"
        by (simp_all add: renames_result_def)
      have "io_bind (sync_dirs (dirs files)) (\<lambda>_. io_return None) w1 = (r, w')"
        using returned(2) by (simp add: res None temps)
      then obtain r2 where sd: "sync_dirs (dirs files) w1 = (r2, w')" and r2: "r = Done None \<Longrightarrow> r2 = Done ()" 
          "r = Crashed \<or> r = Done None"
        by (cases rule: io_bind_cases) auto
      from sync_dirs_cases [OF sd, of ?N] rn new r2 progress_trans [of ?N "set ts" w w1 "{}" w']
        progress_failing [of ?N "set ts" w w1]
      show ?thesis by (auto simp: dirs_flushed_def set_dirs new_files_target [OF apart(2)])
    qed
  qed
qed

lemma install_cases:
  assumes "install files values w = (r, w')"
    and apart: "\<forall>f\<in>set files. t_Path f \<notin> temp_space (w_TempDir w) files" "distinct (map t_Path files)"
  shows "\<exists>X. installed values files X r w w'"
  using assms(1) unfolding install_def
proof (cases rule: io_bind_cases)
  case crashed
  from write_temps_cases [OF crashed(1)] obtain X where X: "X \<subseteq> temp_space (w_TempDir w) files" "frame X w w'"
    "\<forall>x\<in>X. w_fs w x = None \<and> (\<exists>f\<in>set files. private_to values f (w_fs w' x))" by blast
  have "installed values files X r w w'"
    by (rule installedI [OF X(1,2) _ X(3)]) (simp_all add: crashed frame_progress)
  then show ?thesis by blast
next
  case (returned res w1)
  obtain err temps where res: "res = (err, temps)" by fastforce
  from write_temps_cases [OF returned(1)] obtain X where X: "X \<subseteq> temp_space (w_TempDir w) files" "frame X w w1"
    "\<forall>x\<in>X. w_fs w x = None \<and> (\<exists>f\<in>set files. private_to values f (w_fs w1 x))"
    "temps_result values files [] X (Done (err, temps)) w1" by (auto simp: res)
  have "installed values files X r w w'"
  proof (cases err)
    case (Some e)
    with X(4) have sub: "set temps - {[]} \<subseteq> X" by (auto simp: temps_result_def)
    have "io_bind (remove_temps temps) (\<lambda>_. io_return (Some e)) w1 = (r, w')" using returned(2) Some by (simp add: res)
    from remove_rest [OF this sub] show ?thesis
      by (intro installedI [OF X(1,2) _ X(3)]) (auto simp: frame_progress)
  next
    case None
    with X(4) have ts: "set temps = X" "distinct temps" "list_all2 (\<lambda>f t. w_fs w1 t = Some (new_file values f)) files temps"
      by (auto simp: temps_result_def)
    have "\<forall>f\<in>set files. t_Path f \<notin> set temps" using apart(1) X(1) ts(1) by blast
    with install_rest [OF returned(2) [unfolded res prod.case None option.case] ts(2,3) _ apart(2)]
    show ?thesis
      using frame_failing [OF X(2)] by (intro installedI [OF X(1,2) _ X(3)]) (auto simp: ts(1))
  qed
  then show ?thesis by blast
qed

section \<open>Replacing a single file\<close>

definition written :: "string \<Rightarrow> File \<Rightarrow> string set \<Rightarrow> install_error option outcome \<Rightarrow> world \<Rightarrow> world \<Rightarrow> bool" where
  "written path new X r w w' \<longleftrightarrow> X \<subseteq> temp_names (w_TempDir w) path \<and> progress [path \<mapsto> new] X w w'
    \<and> (\<forall>x\<in>X. w_fs w x = None \<and> discreet (f_mode new) (f_data new) (w_fs w' x))
    \<and> (r = Done None \<longrightarrow> w_fs w' path = Some new \<and> (\<forall>x\<in>X. w_fs w' x = None))"

lemma rename_or_remove:
  assumes "io_bind (os_Rename tmp path) (\<lambda>ok. if ok then io_return None
      else io_bind (os_Remove tmp) (\<lambda>_. io_return (Some e))) w = (r, w')"
    and "w_fs w tmp = Some new" and "tmp \<noteq> path"
  shows "progress [path \<mapsto> new] {tmp} w w' \<and> w_fs w' tmp \<in> {Some new, None}
    \<and> (r = Done None \<longrightarrow> w_fs w' path = Some new \<and> w_fs w' tmp = None)"
  using assms(1)
proof (cases rule: io_bind_cases)
  case crashed
  from os_Rename_cases [OF crashed(1), of "[path \<mapsto> new]"] assms(2,3) crashed(2) show ?thesis by auto
next
  case (returned ok w1)
  note rn = os_Rename_cases [OF returned(1), of "[path \<mapsto> new]"]
  show ?thesis
  proof (cases ok)
    case True
    with rn assms(2,3) returned(2) show ?thesis by auto
  next
    case False
    with returned(2) obtain r0 where rm: "os_Remove tmp w1 = (r0, w')" "r \<noteq> Done None"
      by (auto elim!: io_bind_cases)
    have "progress [path \<mapsto> new] {tmp} w w'"
      using progress_trans1 [OF rn(1) frame_progress] os_Remove_frame [OF rm(1)] assms(2,3) by auto
    with os_Remove_frame [OF rm(1)] rm(2) False rn(4) assms(2,3) show ?thesis by auto
  qed
qed

lemma writeFile_cases:
  assumes "writeFile path data mode w = (r, w')" and "path \<notin> temp_names (w_TempDir w) path"
  shows "\<exists>X. written path \<lparr>f_data = data, f_mode = mode, f_synced = True\<rparr> X r w w'"
  using assms(1) unfolding writeFile_def
proof (cases rule: io_bind_cases)
  case crashed
  from crashed(1) show ?thesis
  proof (cases rule: writeTemp_cases)
    case (some tmp)
    with crashed show ?thesis by (intro exI [of _ "{tmp}"]) (simp add: written_def frame_progress)
  qed simp
next
  case (returned res w1)
  from returned(1) show ?thesis
  proof (cases rule: writeTemp_cases)
    case none
    with returned(2) show ?thesis by (intro exI [of _ "{}"]) (auto simp: written_def frame_progress)
  next
    case (some tmp)
    show ?thesis
    proof (cases res)
      case (Inl e)
      with some returned(2) show ?thesis by (intro exI [of _ "{tmp}"]) (auto simp: written_def frame_progress)
    next
      case (Inr t)
      let ?new = "\<lparr>f_data = data, f_mode = mode, f_synced = True\<rparr> :: File"
      have f1: "t = tmp" "w_fs w1 tmp = Some ?new" "tmp \<noteq> path" using some Inr assms(2) by (auto simp: temp_result_def)
      from rename_or_remove [OF returned(2) [unfolded Inr sum.case f1(1)] f1(2,3)]
      have rn: "progress [path \<mapsto> ?new] {tmp} w1 w'" "w_fs w' tmp \<in> {Some ?new, None}"
        "r = Done None \<longrightarrow> w_fs w' path = Some ?new \<and> w_fs w' tmp = None" by auto
      have "progress [path \<mapsto> ?new] {tmp} w w'" using progress_trans1 [OF frame_progress [OF some(3)] rn(1)] .
      with some rn(2,3) show ?thesis by (intro exI [of _ "{tmp}"]) (auto simp: written_def)
    qed
  qed
qed

end
