(* ===== verification/Agent_Fetch.thy ===== *)
theory Agent_Fetch
  imports Agent_Client Agent_Install
begin

unbundle bit_operations_syntax

text \<open>
  \<^verbatim>\<open>agent/internal/fetch/fetch.go\<close>: one synchronization of an exposure, from the password file
  to the recorded tag; \<open>Agent_Runner\<close> has the loops around it. Effects of the command an exposure runs on the
  agent's files are not modelled.
\<close>

section \<open>The stamp file\<close>

definition open_stamp :: "string \<Rightarrow> world \<Rightarrow> world" where
  "open_stamp p w = (case w_fs w p of
      None \<Rightarrow> set_entry p (Some \<lparr>f_data = [], f_mode = 0x1A4 AND NOT (w_umask w), f_synced = False\<rparr>) w
    | Some _ \<Rightarrow> change_file p (\<lambda>f. f\<lparr>f_data := [], f_synced := False\<rparr>) w)"

definition touchStamp :: "string \<Rightarrow> bool io" where
  "touchStamp path = io_bind (atomically (open_stamp path)) (\<lambda>ok. if \<not> ok then io_return False
     else io_bind (\<lambda>w. os_Write path (w_now w @ [CHR 0x0A]) w) (\<lambda>ok. io_bind os_Close (\<lambda>closed. io_return (ok \<and> closed))))"

section \<open>One synchronization\<close>

datatype sync_error =
    Credentials password_error
  | TargetUnreadable string
  | ETagUnreadable
  | FetchFailed fetch_error
  | MissingKeys "string list"
  | InstallFailed install_error
  | StampFailed
  | CommandFailed
  | ETagNotRecorded install_error

definition etagPath :: "string \<Rightarrow> agent_Exposure \<Rightarrow> string" where
  "etagPath stateDir e = path_Join [stateDir, e_Name e @ ''.etag'']"

definition stampPath :: "string \<Rightarrow> agent_Exposure \<Rightarrow> string" where
  "stampPath stateDir e = path_Join [stateDir, e_Name e @ ''.stamp'']"

text \<open>The loop over the targets: whether the tag can be trusted, or an error.\<close>

fun check_targets :: "Target list \<Rightarrow> (sync_error + bool) io" where
  "check_targets [] = io_return (Inr True)"
| "check_targets (f # files) = io_bind (os_Read (t_Path f) f_mode) (\<lambda>info. case info of
      NotExist \<Rightarrow> io_return (Inr False)
    | ReadFailed \<Rightarrow> io_return (Inl (TargetUnreadable (t_Path f)))
    | Content mode \<Rightarrow> if mode AND 0x1FF \<noteq> t_Mode f then io_return (Inr False) else check_targets files)"

definition currentETag :: "string \<Rightarrow> agent_Exposure \<Rightarrow> (sync_error + string) io" where
  "currentETag stateDir e = io_bind (check_targets (e_Targets e)) (\<lambda>res. case res of
      Inl err \<Rightarrow> io_return (Inl err)
    | Inr trusted \<Rightarrow> if \<not> trusted then io_return (Inr [])
      else io_bind (os_Read (etagPath stateDir e) f_data) (\<lambda>data. io_return (case data of
          NotExist \<Rightarrow> Inr []
        | ReadFailed \<Rightarrow> Inl ETagUnreadable
        | Content d \<Rightarrow> Inr (TrimSpace d))))"

definition log_run :: "agent_Exposure \<Rightarrow> bool \<Rightarrow> world \<Rightarrow> world" where
  "log_run e ok w = w\<lparr>w_ran := w_ran w @ [\<lparr>run_exposure = e_Name e, run_command = e_OnChangeCommand e, run_ok = ok,
     run_files = w_fs w\<rparr>]\<rparr>"

definition runCommand :: "agent_Exposure \<Rightarrow> bool io" where
  "runCommand e = syscall (log_run e True) (\<lambda>_. log_run e False) (\<lambda>n w. if 0 < n then log_run e False w else w)"

text \<open>From the result of the request on; the pair is what \<^verbatim>\<open>Sync\<close> returns.\<close>

definition record_etag :: "string \<Rightarrow> agent_Exposure \<Rightarrow> Result \<Rightarrow> bool \<Rightarrow> (bool \<times> sync_error option) io" where
  "record_etag stateDir e result ok =
     (if \<not> ok then io_return (True, Some CommandFailed)
      else io_bind (writeFile (etagPath stateDir e) (result_ETag result @ [CHR 0x0A]) 0x180) (\<lambda>err.
        io_return (True, map_option ETagNotRecorded err)))"

definition after_install :: "string \<Rightarrow> agent_Exposure \<Rightarrow> Result \<Rightarrow> (bool \<times> sync_error option) io" where
  "after_install stateDir e result = io_bind (touchStamp (stampPath stateDir e)) (\<lambda>ok.
     if \<not> ok then io_return (True, Some StampFailed)
     else io_bind (if e_OnChangeCommand e \<noteq> [] then runCommand e else io_return True) (record_etag stateDir e result))"

definition apply_result :: "string \<Rightarrow> agent_Exposure \<Rightarrow> Result \<Rightarrow> (bool \<times> sync_error option) io" where
  "apply_result stateDir e result =
     (let missing = filter (\<lambda>k. Values result k = None) (map t_Key (e_Targets e)) in
      if missing \<noteq> [] then io_return (False, Some (MissingKeys missing))
      else io_bind (install (e_Targets e) (Values result)) (\<lambda>err. case err of
          Some x \<Rightarrow> io_return (False, Some (InstallFailed x))
        | None \<Rightarrow> after_install stateDir e result))"

definition Sync :: "Client \<Rightarrow> string \<Rightarrow> agent_Exposure \<Rightarrow> (bool \<times> sync_error option) io" where
  "Sync c stateDir e = io_bind (os_Read (PasswordFile (e_Auth e)) f_data) (\<lambda>content.
     case Auth_Resolve (e_Auth e) (case content of Content d \<Rightarrow> Some d | _ \<Rightarrow> None) of
       Inl err \<Rightarrow> io_return (False, Some (Credentials err))
     | Inr (username, password) \<Rightarrow> io_bind (currentETag stateDir e) (\<lambda>res. case res of
         Inl err \<Rightarrow> io_return (False, Some err)
       | Inr etag \<Rightarrow> (case Fetch c (e_Name e) etag username password of
           Inl ErrNotModified \<Rightarrow> io_return (False, None)
         | Inl err \<Rightarrow> io_return (False, Some (FetchFailed err))
         | Inr result \<Rightarrow> apply_result stateDir e result)))"

section \<open>The stamp and the command\<close>

lemma touchStamp_frame:
  assumes "touchStamp p w = (r, w')"
  shows "frame {p} w w'"
  using assms unfolding touchStamp_def
proof (cases rule: io_bind_cases)
  case crashed
  have op: "frame {p} v (open_stamp p v)" for v by (simp add: open_stamp_def split: option.split)
  from crashed(1) op show ?thesis by (rule atomically_frame)
next
  case (returned ok w1)
  have "frame {p} v (open_stamp p v)" for v by (simp add: open_stamp_def split: option.split)
  with returned(1) have w1: "frame {p} w w1" by (rule atomically_frame)
  show ?thesis
  proof (cases ok)
    case False
    with returned(2) w1 show ?thesis by simp
  next
    case True
    with returned(2) have "io_bind (\<lambda>w. os_Write p (w_now w @ [CHR 0x0A]) w)
      (\<lambda>ok. io_bind os_Close (\<lambda>closed. io_return (ok \<and> closed))) w1 = (r, w')" by simp
    then show ?thesis
    proof (cases rule: io_bind_cases)
      case crashed
      from frame_trans1 [OF w1 os_Write_frame [OF crashed(1)]] show ?thesis .
    next
      case (returned ok w2)
      obtain r3 where "os_Close w2 = (r3, w')" using returned(2) by (cases rule: io_bind_cases) auto
      then have "frame {p} w2 w'" using os_Close_frame frame_mono by blast
      with frame_trans1 [OF frame_trans1 [OF w1 os_Write_frame [OF returned(1)]]] show ?thesis .
    qed
  qed
qed

definition ran :: "agent_Exposure \<Rightarrow> bool outcome \<Rightarrow> world \<Rightarrow> world \<Rightarrow> bool" where
  "ran e r w w' \<longleftrightarrow> w_fs w' = w_fs w \<and> w_past w' = w_past w \<and> w_TempDir w' = w_TempDir w \<and> set (w_fate w') \<subseteq> set (w_fate w)
    \<and> (r = Done True \<longrightarrow> w_ran w' = (if e_OnChangeCommand e = [] then w_ran w else w_ran w @ [\<lparr>run_exposure = e_Name e,
         run_command = e_OnChangeCommand e, run_ok = True, run_files = w_fs w\<rparr>]))"

lemma run_cases: "(if e_OnChangeCommand e \<noteq> [] then runCommand e else io_return True) w = (r, w') \<Longrightarrow> ran e r w w'"
proof (cases "e_OnChangeCommand e = []")
  case False
  assume "(if e_OnChangeCommand e \<noteq> [] then runCommand e else io_return True) w = (r, w')"
  with False have "runCommand e w = (r, w')" by simp
  then show ?thesis unfolding runCommand_def
    by (cases rule: syscall_cases) (auto simp: ran_def log_run_def frame_def False split: if_splits)
qed (auto simp: ran_def)

section \<open>From the response to the tag\<close>

definition state_temps :: "string \<Rightarrow> string \<Rightarrow> agent_Exposure \<Rightarrow> string set" where
  "state_temps tempDir stateDir e = temp_space tempDir (e_Targets e) \<union> temp_names tempDir (etagPath stateDir e)"

text \<open>The files of an exposure are different files, and none has the name of a temporary one.\<close>

definition separate :: "string \<Rightarrow> string \<Rightarrow> agent_Exposure \<Rightarrow> bool" where
  "separate tempDir stateDir e \<longleftrightarrow>
     distinct (etagPath stateDir e # stampPath stateDir e # map t_Path (e_Targets e))
     \<and> (\<forall>p \<in> set (etagPath stateDir e # stampPath stateDir e # map t_Path (e_Targets e)). p \<notin> state_temps tempDir stateDir e)"

definition tag_file :: "string \<Rightarrow> File" where
  "tag_file tag = \<lparr>f_data = tag @ [CHR 0x0A], f_mode = 0x180, f_synced = True\<rparr>"

text \<open>All targets are new and the command has seen them.\<close>

definition complete :: "agent_Exposure \<Rightarrow> (string \<rightharpoonup> bytes) \<Rightarrow> world \<Rightarrow> world \<Rightarrow> bool" where
  "complete e values w w' \<longleftrightarrow>
     (\<forall>f\<in>set (e_Targets e). w_fs w' (t_Path f) = Some (new_file values f)
        \<and> (\<not> failing w \<longrightarrow> may w' (t_Path f) = {Some (new_file values f)}))
     \<and> (e_OnChangeCommand e \<noteq> [] \<longrightarrow> (\<exists>files. w_ran w' = w_ran w @ [\<lparr>run_exposure = e_Name e,
          run_command = e_OnChangeCommand e, run_ok = True, run_files = files\<rparr>]
          \<and> (\<forall>f\<in>set (e_Targets e). files (t_Path f) = Some (new_file values f))))"

definition applied :: "string \<Rightarrow> agent_Exposure \<Rightarrow> Result \<Rightarrow> string set \<Rightarrow> (bool \<times> sync_error option) outcome
    \<Rightarrow> world \<Rightarrow> world \<Rightarrow> bool" where
  "applied stateDir e result X r w w' \<longleftrightarrow> X \<subseteq> state_temps (w_TempDir w) stateDir e
    \<and> (\<forall>x\<in>X. w_fs w x = None \<and> (discreet 0x180 (result_ETag result @ [CHR 0x0A]) (w_fs w' x) \<or> (\<exists>f\<in>set (e_Targets e). private_to (Values result) f (w_fs w' x))))
    \<and> (\<forall>p. p \<notin> X \<and> p \<noteq> stampPath stateDir e \<and> p \<noteq> etagPath stateDir e \<longrightarrow>
         (w_fs w' p = w_fs w p \<or> p \<in> t_Path ` set (e_Targets e) \<and> w_fs w' p = new_files (Values result) (e_Targets e) p)
         \<and> may w' p \<subseteq> may w p \<union> ({new_files (Values result) (e_Targets e) p} - {None}))
    \<and> (w_fs w' (etagPath stateDir e) = w_fs w (etagPath stateDir e) \<and> may w' (etagPath stateDir e) \<subseteq> may w (etagPath stateDir e)
       \<or> complete e (Values result) w w'
         \<and> w_fs w' (etagPath stateDir e) \<in> {w_fs w (etagPath stateDir e), Some (tag_file (result_ETag result))}
         \<and> may w' (etagPath stateDir e) \<subseteq> insert (Some (tag_file (result_ETag result))) (may w (etagPath stateDir e)))
    \<and> (r = Done (True, None) \<longrightarrow> complete e (Values result) w w' \<and> (\<forall>x\<in>X. w_fs w' x = None)
         \<and> w_fs w' (etagPath stateDir e) = Some (tag_file (result_ETag result)))
    \<and> r \<noteq> Done (False, None)"

lemma applied_frame:
  assumes "frame X w w'" and "r \<noteq> Done (True, None)" and "r \<noteq> Done (False, None)"
    and "X \<subseteq> state_temps (w_TempDir w) stateDir e" and "separate (w_TempDir w) stateDir e"
    and "\<forall>x\<in>X. w_fs w x = None \<and> (\<exists>f\<in>set (e_Targets e). private_to (Values result) f (w_fs w' x))"
  shows "applied stateDir e result X r w w'"
proof -
  have "etagPath stateDir e \<notin> X" using assms(4,5) by (auto simp: separate_def)
  with assms show ?thesis by (auto simp: applied_def frame_def may_def)
qed

text \<open>The targets are in place, the tag is not written yet.\<close>

definition staged :: "string \<Rightarrow> agent_Exposure \<Rightarrow> (string \<rightharpoonup> bytes) \<Rightarrow> string set \<Rightarrow> world \<Rightarrow> world \<Rightarrow> bool" where
  "staged stateDir e values X w w' \<longleftrightarrow> X \<subseteq> temp_space (w_TempDir w) (e_Targets e)
    \<and> (\<forall>x\<in>X. w_fs w x = None \<and> w_fs w' x = None)
    \<and> (\<forall>p. p \<notin> X \<and> p \<noteq> stampPath stateDir e \<longrightarrow>
         (w_fs w' p = w_fs w p \<or> p \<in> t_Path ` set (e_Targets e) \<and> w_fs w' p = new_files values (e_Targets e) p)
         \<and> may w' p \<subseteq> may w p \<union> ({new_files values (e_Targets e) p} - {None}))
    \<and> (\<forall>f\<in>set (e_Targets e). w_fs w' (t_Path f) = Some (new_file values f)
        \<and> (\<not> failing w \<longrightarrow> may w' (t_Path f) = {Some (new_file values f)}))
    \<and> w_TempDir w' = w_TempDir w"

lemma separateD:
  assumes "separate T stateDir e" and "X \<subseteq> state_temps T stateDir e"
  shows "etagPath stateDir e \<notin> X" "stampPath stateDir e \<notin> X" "\<forall>f\<in>set (e_Targets e). t_Path f \<notin> X"
    "distinct (map t_Path (e_Targets e))" "etagPath stateDir e \<noteq> stampPath stateDir e"
    "\<forall>f\<in>set (e_Targets e). t_Path f \<noteq> etagPath stateDir e \<and> t_Path f \<noteq> stampPath stateDir e"
  using assms by (auto simp: separate_def image_iff)

lemma installed_staged:
  assumes "installed values (e_Targets e) X (Done None) w w1" and "frame {stampPath stateDir e} w1 w2"
    and sep: "separate (w_TempDir w) stateDir e"
  shows "staged stateDir e values X w w2"
proof -
  have X: "X \<subseteq> state_temps (w_TempDir w) stateDir e" using assms(1) by (auto simp: installed_def state_temps_def)
  note sep = separateD [OF sep X]
  have s: "w_fs w2 p = w_fs w1 p \<and> may w2 p = may w1 p" if "p \<noteq> stampPath stateDir e" for p
    using assms(2) that by (simp add: frame_def may_def)
  have "w_fs w2 x = None" if "x \<in> X" for x
    using that s [of x] assms(1) sep(2) by (auto simp: installed_def)
  moreover have "w_fs w2 (t_Path f) = Some (new_file values f)
      \<and> (\<not> failing w \<longrightarrow> may w2 (t_Path f) = {Some (new_file values f)})" if "f \<in> set (e_Targets e)" for f
    using that s [of "t_Path f"] assms(1) sep(6) by (auto simp: installed_def may_def)
  moreover have "(w_fs w2 p = w_fs w p \<or> p \<in> t_Path ` set (e_Targets e) \<and> w_fs w2 p = new_files values (e_Targets e) p)
         \<and> may w2 p \<subseteq> may w p \<union> ({new_files values (e_Targets e) p} - {None})"
    if "p \<notin> X" "p \<noteq> stampPath stateDir e" for p
    using that s [OF that(2)] assms(1) unfolding installed_def progress_def
    by (metis new_files_None)
  moreover have "w_TempDir w2 = w_TempDir w" using assms(1,2) by (simp add: installed_def progress_def frame_def)
  ultimately show ?thesis using assms(1) unfolding staged_def installed_def by blast
qed

lemma staged_ran: "staged stateDir e values X w w2 \<Longrightarrow> ran e r w2 w3 \<Longrightarrow> staged stateDir e values X w w3"
  by (simp add: staged_def ran_def may_def)

lemma staged_applied:
  assumes "staged stateDir e (Values result) X w w'" and "separate (w_TempDir w) stateDir e"
    and "r \<noteq> Done (True, None)" and "r \<noteq> Done (False, None)"
  shows "applied stateDir e result X r w w'"
proof -
  have X: "X \<subseteq> state_temps (w_TempDir w) stateDir e" using assms(1) by (auto simp: staged_def state_temps_def)
  note sep = separateD [OF assms(2) X]
  have tag: "new_files (Values result) (e_Targets e) (etagPath stateDir e) = None" using sep(6) by auto
  then have "w_fs w' (etagPath stateDir e) = w_fs w (etagPath stateDir e)"
    "may w' (etagPath stateDir e) \<subseteq> may w (etagPath stateDir e)"
    using assms(1) sep(1,5,6) unfolding staged_def by (auto simp del: new_files_None)
  then show ?thesis using assms X unfolding applied_def staged_def by auto
qed

lemma commit_tag:
  assumes st: "staged stateDir e (Values result) X w w3" and sep: "separate (w_TempDir w) stateDir e"
    and ran: "ran e (Done True) w2 w3" "w_fs w2 = w_fs w3" "w_ran w2 = w_ran w"
    and wr: "written (etagPath stateDir e) (tag_file (result_ETag result)) Y r4 w3 w'"
    and r: "r = Done (True, None) \<longrightarrow> r4 = Done None" "r \<noteq> Done (False, None)"
  shows "applied stateDir e result (X \<union> Y) r w w'"
proof -
  let ?q = "etagPath stateDir e" and ?N = "new_files (Values result) (e_Targets e)"
  have T: "w_TempDir w3 = w_TempDir w" using st by (simp add: staged_def)
  have sub: "X \<subseteq> state_temps (w_TempDir w) stateDir e" "Y \<subseteq> state_temps (w_TempDir w) stateDir e"
    using st wr by (auto simp: staged_def written_def state_temps_def T)
  note sX = separateD [OF sep sub(1)] and sY = separateD [OF sep sub(2)]
  have w': "w_fs w' p = w_fs w3 p \<and> may w' p \<subseteq> may w3 p" if "p \<notin> Y" "p \<noteq> ?q" for p
    using wr that by (intro progress_old [of "[?q \<mapsto> tag_file (result_ETag result)]" Y]) (simp_all add: written_def)
  have others: "(w_fs w3 p = w_fs w p \<or> p \<in> t_Path ` set (e_Targets e) \<and> w_fs w3 p = ?N p)
      \<and> may w3 p \<subseteq> may w p \<union> ({?N p} - {None})" if "p \<notin> X" "p \<noteq> stampPath stateDir e" for p
    using st that by (simp add: staged_def)
  have q: "w_fs w3 ?q = w_fs w ?q" "may w3 ?q \<subseteq> may w ?q"
  proof -
    have "?N ?q = None" using sX(6) by auto
    with others [of ?q] sX(1,5,6) show "w_fs w3 ?q = w_fs w ?q" "may w3 ?q \<subseteq> may w ?q"
      by (auto simp del: new_files_None)
  qed
  have "w_fs w' ?q \<in> {w_fs w3 ?q, Some (tag_file (result_ETag result))}"
    "may w' ?q \<subseteq> insert (Some (tag_file (result_ETag result))) (may w3 ?q)"
    using wr sY(1) progress_new [of "[?q \<mapsto> tag_file (result_ETag result)]" Y w3 w' ?q] by (auto simp: written_def)
  moreover have "complete e (Values result) w w'"
  proof -
    have "w_fs w' (t_Path f) = Some (new_file (Values result) f)
        \<and> (\<not> failing w \<longrightarrow> may w' (t_Path f) = {Some (new_file (Values result) f)})" if "f \<in> set (e_Targets e)" for f
      using that w' [of "t_Path f"] st sY(3,6) unfolding staged_def may_def by fastforce
    moreover have "w_ran w' = w_ran w3" using wr by (simp add: written_def progress_def)
    ultimately show ?thesis using ran st unfolding complete_def ran_def staged_def by auto
  qed
  moreover have "w_fs w x = None \<and> (discreet 0x180 (result_ETag result @ [CHR 0x0A]) (w_fs w' x))" if x: "x \<in> X \<union> Y" for x
  proof (cases "x \<in> Y")
    case True
    then have "w_fs w3 x = None" "discreet 0x180 (result_ETag result @ [CHR 0x0A]) (w_fs w' x)" using wr by (auto simp: written_def tag_file_def)
    moreover have "w_fs w x = None"
    proof (cases "x \<in> X")
      case True
      with st show ?thesis by (simp add: staged_def)
    next
      case False
      then have "w_fs w3 x = w_fs w x" using others [of x] True sY(2,3) by auto
      with \<open>w_fs w3 x = None\<close> show ?thesis by simp
    qed
    ultimately show ?thesis by simp
  next
    case False
    with x have "x \<in> X" "x \<noteq> ?q" using sX(1) by auto
    with False w' [of x] st show ?thesis by (simp add: staged_def)
  qed
  moreover have "w_fs w' x = None" if "x \<in> X \<union> Y" "r4 = Done None" for x
  proof (cases "x \<in> Y")
    case True
    with that wr show ?thesis by (simp add: written_def)
  next
    case False
    with that have "x \<in> X" "x \<noteq> ?q" using sX(1) by auto
    with False w' [of x] st show ?thesis by (simp add: staged_def)
  qed
  moreover have "(w_fs w' p = w_fs w p \<or> p \<in> t_Path ` set (e_Targets e) \<and> w_fs w' p = ?N p)
      \<and> may w' p \<subseteq> may w p \<union> ({?N p} - {None})" if "p \<notin> X \<union> Y" "p \<noteq> stampPath stateDir e" "p \<noteq> ?q" for p
    using that w' [of p] others [of p] by auto
  ultimately show ?thesis using sub q r wr unfolding applied_def written_def by auto
qed

lemma record_etag_cases:
  assumes "record_etag stateDir e result ok w3 = (r, w')"
    and st: "staged stateDir e (Values result) X w w3" and sep: "separate (w_TempDir w) stateDir e"
    and run: "ran e (Done ok) w2 w3" "w_ran w2 = w_ran w"
  shows "\<exists>X. applied stateDir e result X r w w'"
proof (cases ok)
  case False
  with assms(1) staged_applied [OF st sep, of r] show ?thesis by (auto simp: record_etag_def)
next
  case True
  then have "io_bind (writeFile (etagPath stateDir e) (result_ETag result @ [CHR 0x0A]) 0x180) (\<lambda>err.
    io_return (True, map_option ETagNotRecorded err)) w3 = (r, w')" using assms(1) by (simp add: record_etag_def)
  then obtain r4 where wr: "writeFile (etagPath stateDir e) (result_ETag result @ [CHR 0x0A]) 0x180 w3 = (r4, w')"
    and r: "r = Done (True, None) \<longrightarrow> r4 = Done None" "r \<noteq> Done (False, None)"
    by (cases rule: io_bind_cases) auto
  have "etagPath stateDir e \<notin> temp_names (w_TempDir w3) (etagPath stateDir e)"
    using sep st by (auto simp: separate_def state_temps_def staged_def)
  from writeFile_cases [OF wr this] obtain Y where
    "written (etagPath stateDir e) (tag_file (result_ETag result)) Y r4 w3 w'" by (auto simp: tag_file_def)
  moreover have "ran e (Done True) w2 w3" "w_fs w2 = w_fs w3" using run(1) True by (simp_all add: ran_def)
  ultimately show ?thesis using commit_tag [OF st sep _ _ run(2) _ r] by blast
qed

lemma after_install_cases:
  assumes run: "after_install stateDir e result w1 = (r, w')"
    and inst: "installed (Values result) (e_Targets e) X (Done None) w w1"
    and sep: "separate (w_TempDir w) stateDir e"
  shows "\<exists>X. applied stateDir e result X r w w'"
  using run unfolding after_install_def
proof (cases rule: io_bind_cases)
  case crashed
  from staged_applied [OF installed_staged [OF inst touchStamp_frame [OF crashed(1)] sep] sep] crashed(2)
  show ?thesis by blast
next
  case (returned ok w2)
  note st = installed_staged [OF inst touchStamp_frame [OF returned(1)] sep]
  have ran2: "w_ran w2 = w_ran w"
    using inst touchStamp_frame [OF returned(1)] by (simp add: installed_def progress_def frame_def)
  show ?thesis
  proof (cases ok)
    case False
    with returned(2) staged_applied [OF st sep, of r] show ?thesis by auto
  next
    case True
    with returned(2) have "io_bind (if e_OnChangeCommand e \<noteq> [] then runCommand e else io_return True)
      (record_etag stateDir e result) w2 = (r, w')" by simp
    then show ?thesis
    proof (cases rule: io_bind_cases)
      case crashed
      from staged_applied [OF staged_ran [OF st run_cases [OF crashed(1)]] sep, of r] crashed(2) show ?thesis by blast
    next
      case (returned ok w3)
      note run = run_cases [OF returned(1)]
      from record_etag_cases [OF returned(2) staged_ran [OF st run] sep run ran2] show ?thesis .
    qed
  qed
qed

lemma installed_stopped:
  assumes "installed (Values result) (e_Targets e) X r1 w w'" and "separate (w_TempDir w) stateDir e"
    and "r \<noteq> Done (True, None)" "r \<noteq> Done (False, None)"
  shows "applied stateDir e result X r w w'"
proof -
  have X: "X \<subseteq> state_temps (w_TempDir w) stateDir e" using assms(1) by (auto simp: installed_def state_temps_def)
  note sX = separateD [OF assms(2) X]
  have "new_files (Values result) (e_Targets e) (etagPath stateDir e) = None" using sX(6) by auto
  moreover have "progress (new_files (Values result) (e_Targets e)) X w w'" using assms(1) by (simp add: installed_def)
  ultimately have "w_fs w' (etagPath stateDir e) = w_fs w (etagPath stateDir e)
      \<and> may w' (etagPath stateDir e) \<subseteq> may w (etagPath stateDir e)"
    using sX(1) by (intro progress_old)
  moreover have "(w_fs w' p = w_fs w p \<or> p \<in> t_Path ` set (e_Targets e) \<and> w_fs w' p = new_files (Values result) (e_Targets e) p)
         \<and> may w' p \<subseteq> may w p \<union> ({new_files (Values result) (e_Targets e) p} - {None})" if "p \<notin> X" for p
    using assms(1) that unfolding installed_def progress_def by (metis new_files_None)
  ultimately show ?thesis using assms(1,3,4) X unfolding applied_def installed_def by blast
qed

lemma apply_result_cases:
  assumes "apply_result stateDir e result w = (r, w')" and sep: "separate (w_TempDir w) stateDir e"
  shows "\<exists>X. applied stateDir e result X r w w'"
proof (cases "filter (\<lambda>k. Values result k = None) (map t_Key (e_Targets e)) = []")
  case False
  with assms(1) have "r \<noteq> Done (True, None)" "r \<noteq> Done (False, None)" "w' = w" by (auto simp: apply_result_def Let_def)
  with applied_frame [of "{}" w w r stateDir e result] sep show ?thesis by auto
next
  case True
  have apart: "\<forall>f\<in>set (e_Targets e). t_Path f \<notin> temp_space (w_TempDir w) (e_Targets e)" "distinct (map t_Path (e_Targets e))"
    using sep by (auto simp: separate_def state_temps_def)
  from assms(1) True have "io_bind (install (e_Targets e) (Values result)) (\<lambda>err. case err of
      Some x \<Rightarrow> io_return (False, Some (InstallFailed x)) | None \<Rightarrow> after_install stateDir e result) w = (r, w')"
    unfolding apply_result_def by (simp only: Let_def) simp
  then show ?thesis
  proof (cases rule: io_bind_cases)
    case crashed
    with install_cases [OF crashed(1) apart] installed_stopped [OF _ sep, of result _ _ _ r] show ?thesis by blast
  next
    case (returned err w1)
    from install_cases [OF returned(1) apart] obtain X where inst: "installed (Values result) (e_Targets e) X (Done err) w w1" by blast
    show ?thesis
    proof (cases err)
      case None
      with after_install_cases [OF _ _ sep] inst returned(2) show ?thesis by simp
    next
      case (Some x)
      with returned(2) have "r = Done (False, Some (InstallFailed x))" "w' = w1" by auto
      with installed_stopped [OF inst sep, of r] show ?thesis by blast
    qed
  qed
qed

section \<open>Reading the state\<close>

lemma check_targets_cases:
  assumes "check_targets files w = (r, w')"
  shows "frame {} w w' \<and> (r = Done (Inr True) \<longrightarrow> (\<forall>f\<in>set files. \<exists>x. w_fs w (t_Path f) = Some x \<and> f_mode x AND 0x1FF = t_Mode f))"
  using assms
proof (induction files arbitrary: w)
  case (Cons f files)
  from Cons.prems [unfolded check_targets.simps] show ?case
  proof (cases rule: io_bind_cases)
    case crashed
    with os_Read_cases(1) [OF crashed(1)] show ?thesis by simp
  next
    case (returned info w1)
    note rd = os_Read_cases [OF returned(1)]
    show ?thesis
    proof (cases "\<exists>mode. info = Content mode \<and> mode AND 0x1FF = t_Mode f")
      case False
      with returned(2) rd(1) show ?thesis by (auto split: read_result.splits if_splits)
    next
      case True
      then obtain mode where m: "info = Content mode" "mode AND 0x1FF = t_Mode f" by blast
      with returned(2) have "check_targets files w1 = (r, w')" by simp
      with Cons.IH [OF this] rd(1) rd(2) [of mode] m frame_trans1 [OF rd(1)] frame_empty_fs [OF rd(1)] show ?thesis
        by auto
    qed
  qed
qed simp

lemma currentETag_cases:
  assumes "currentETag stateDir e w = (r, w')"
  shows "frame {} w w' \<and> (\<forall>tag. r = Done (Inr tag) \<and> tag \<noteq> [] \<longrightarrow>
    (\<exists>f. w_fs w (etagPath stateDir e) = Some f \<and> tag = TrimSpace (f_data f))
    \<and> (\<forall>f\<in>set (e_Targets e). \<exists>x. w_fs w (t_Path f) = Some x \<and> f_mode x AND 0x1FF = t_Mode f))"
  using assms unfolding currentETag_def
proof (cases rule: io_bind_cases)
  case crashed
  with check_targets_cases [OF crashed(1)] show ?thesis by simp
next
  case (returned res w1)
  note ck = check_targets_cases [OF returned(1)]
  show ?thesis
  proof (cases "res = Inr True")
    case False
    with returned(2) ck show ?thesis by (cases res) auto
  next
    case True
    with returned(2) have "io_bind (os_Read (etagPath stateDir e) f_data) (\<lambda>data. io_return (case data of
          NotExist \<Rightarrow> Inr [] | ReadFailed \<Rightarrow> Inl ETagUnreadable | Content d \<Rightarrow> Inr (TrimSpace d))) w1 = (r, w')" by simp
    then show ?thesis
    proof (cases rule: io_bind_cases)
      case crashed
      with os_Read_cases(1) [OF crashed(1)] ck frame_trans1 show ?thesis by blast
    next
      case (returned data w2)
      have "frame {} w w'" using os_Read_cases(1) [OF returned(1)] ck returned(2) frame_trans1 by auto
      moreover have "\<exists>f. w_fs w (etagPath stateDir e) = Some f \<and> tag = TrimSpace (f_data f)"
        if "r = Done (Inr tag)" "tag \<noteq> []" for tag
        using that returned(2) os_Read_cases(2) [OF returned(1)] ck frame_empty_fs [of w w1]
        by (auto split: read_result.splits)
      ultimately show ?thesis using ck True by blast
    qed
  qed
qed

lemma applied_quiet:
  assumes "applied stateDir e result X r w1 w'" and "frame {} w w1"
  shows "applied stateDir e result X r w w'"
proof -
  have q: "w_fs w1 = w_fs w" "w_past w1 = w_past w" "w_ran w1 = w_ran w" "w_TempDir w1 = w_TempDir w"
    "failing w1 \<Longrightarrow> failing w"
    using assms(2) frame_failing by (auto simp: frame_def)
  then have "complete e (Values result) w1 w' \<Longrightarrow> complete e (Values result) w w'" by (auto simp: complete_def)
  with assms(1) q show ?thesis unfolding applied_def may_def by auto
qed

definition fetched :: "Client \<Rightarrow> agent_Exposure \<Rightarrow> Result \<Rightarrow> bool" where
  "fetched c e result \<longleftrightarrow> (\<exists>tag username password. Fetch c (e_Name e) tag username password = Inr result)"

text \<open>A response without one of the keys changes nothing.\<close>

lemma apply_result_missing:
  "apply_result stateDir e result w = (r, w') \<Longrightarrow> w' = w \<or> (\<forall>f\<in>set (e_Targets e). Values result (t_Key f) \<noteq> None)"
  by (auto simp: apply_result_def Let_def filter_empty_conv io_return_def split: if_splits)

lemma Sync_cases:
  assumes "Sync c stateDir e w = (r, w')" and sep: "separate (w_TempDir w) stateDir e"
  obtains (stopped) "frame {} w w'" "r \<noteq> Done (True, None)"
      "r = Done (False, None) \<Longrightarrow> \<exists>tag username password. Fetch c (e_Name e) tag username password = Inl ErrNotModified"
    | (applied) result X where "fetched c e result" "applied stateDir e result X r w w'"
      "frame {} w w' \<or> (\<forall>f\<in>set (e_Targets e). Values result (t_Key f) \<noteq> None)"
  using assms(1) unfolding Sync_def
proof (cases rule: io_bind_cases)
  case crashed
  with os_Read_cases(1) [OF crashed(1)] show ?thesis by (intro stopped) simp_all
next
  case (returned content w1)
  note rd = os_Read_cases(1) [OF returned(1)]
  show ?thesis
  proof (cases "Auth_Resolve (e_Auth e) (case content of Content d \<Rightarrow> Some d | _ \<Rightarrow> None)")
    case (Inl err)
    with returned(2) rd show ?thesis by (intro stopped) simp_all
  next
    case (Inr up)
    obtain u p where up: "up = (u, p)" by fastforce
    with returned(2) Inr have "io_bind (currentETag stateDir e) (\<lambda>res. case res of
         Inl err \<Rightarrow> io_return (False, Some err)
       | Inr etag \<Rightarrow> (case Fetch c (e_Name e) etag u p of
           Inl ErrNotModified \<Rightarrow> io_return (False, None)
         | Inl err \<Rightarrow> io_return (False, Some (FetchFailed err))
         | Inr result \<Rightarrow> apply_result stateDir e result)) w1 = (r, w')" by simp
    then show ?thesis
    proof (cases rule: io_bind_cases)
      case crashed
      with currentETag_cases [OF crashed(1)] frame_trans1 [OF rd] show ?thesis by (intro stopped) simp_all
    next
      case (returned res w2)
      have q: "frame {} w w2" using currentETag_cases [OF returned(1)] frame_trans1 [OF rd] by blast
      show ?thesis
      proof (cases "\<exists>etag result. res = Inr etag \<and> Fetch c (e_Name e) etag u p = Inr result")
        case True
        then obtain etag result where f: "res = Inr etag" "Fetch c (e_Name e) etag u p = Inr result" by blast
        with returned(2) have a: "apply_result stateDir e result w2 = (r, w')" by simp
        have "separate (w_TempDir w2) stateDir e" using sep q by (simp add: frame_def)
        with apply_result_cases [OF a] obtain X where X: "applied stateDir e result X r w2 w'"
            "w' = w2 \<or> (\<forall>f\<in>set (e_Targets e). Values result (t_Key f) \<noteq> None)"
          using apply_result_missing [OF a] by blast
        have "fetched c e result" using f by (auto simp: fetched_def)
        with applied_quiet [OF X(1) q] X(2) q show ?thesis by (intro applied) auto
      next
        case False
        with returned(2) q show ?thesis
          by (intro stopped) (auto split: sum.splits fetch_error.splits)
      qed
    qed
  qed
qed

section \<open>Properties\<close>

text \<open>The files a path can have when the machine starts again after a loss of power.\<close>

definition survives :: "world \<Rightarrow> string \<Rightarrow> File option \<Rightarrow> bool" where
  "survives w p x \<longleftrightarrow> (\<exists>c \<in> may w p. case c of None \<Rightarrow> x = None | Some f \<Rightarrow> if f_synced f then x = c else x \<noteq> None)"

lemma survives_mono:
  "may w' p \<subseteq> may w p \<union> {Some f} \<Longrightarrow> f_synced f \<Longrightarrow> survives w' p x \<Longrightarrow> survives w p x \<or> x = Some f"
  unfolding survives_def by (auto split: option.splits if_splits)

lemma survives_same: "may w' p \<subseteq> may w p \<Longrightarrow> survives w' p x \<Longrightarrow> survives w p x"
  unfolding survives_def by blast

lemma frame_may: "frame {} w w' \<Longrightarrow> may w' p = may w p"
  by (simp add: frame_def may_def)

lemma new_file_synced [simp]: "f_synced (new_file values f)"
  by (simp add: new_file_def)

lemma applied_target:
  assumes "applied stateDir e result X r w w'" and "separate (w_TempDir w) stateDir e" and "f \<in> set (e_Targets e)"
  shows "w_fs w' (t_Path f) \<in> {w_fs w (t_Path f), Some (new_file (Values result) f)}"
    and "may w' (t_Path f) \<subseteq> may w (t_Path f) \<union> {Some (new_file (Values result) f)}"
proof -
  have X: "X \<subseteq> state_temps (w_TempDir w) stateDir e" using assms(1) by (simp add: applied_def)
  note sX = separateD [OF assms(2) X]
  have "(w_fs w' (t_Path f) = w_fs w (t_Path f) \<or> t_Path f \<in> t_Path ` set (e_Targets e)
         \<and> w_fs w' (t_Path f) = new_files (Values result) (e_Targets e) (t_Path f))
      \<and> may w' (t_Path f) \<subseteq> may w (t_Path f) \<union> ({new_files (Values result) (e_Targets e) (t_Path f)} - {None})"
    using assms(1,3) sX(3,6) unfolding applied_def by blast
  then show "w_fs w' (t_Path f) \<in> {w_fs w (t_Path f), Some (new_file (Values result) f)}"
    "may w' (t_Path f) \<subseteq> may w (t_Path f) \<union> {Some (new_file (Values result) f)}"
    by (auto simp: new_files_target [OF sX(4) assms(3)])
qed

lemma applied_other:
  assumes "applied stateDir e result X r w w'" and "p \<notin> X"
    and "p \<notin> t_Path ` set (e_Targets e) \<union> {stampPath stateDir e, etagPath stateDir e}"
  shows "w_fs w' p = w_fs w p"
  using assms unfolding applied_def by auto

text \<open>
  C18: no half-written files. Whatever call fails and whenever the process dies during a
  synchronization, every target is then the file it was before or a complete new one, all new ones
  from one response; and the same holds for what is found after a loss of power at that moment.
\<close>

theorem Sync_files_whole:
  assumes "Sync c stateDir e w = (r, w')" and "separate (w_TempDir w) stateDir e"
  shows "\<exists>news. (news = (\<lambda>f. None) \<or> (\<exists>result. fetched c e result \<and> news = (\<lambda>f. Some (new_file (Values result) f))))
    \<and> (\<forall>f\<in>set (e_Targets e). w_fs w' (t_Path f) = w_fs w (t_Path f) \<or> news f \<noteq> None \<and> w_fs w' (t_Path f) = news f)
    \<and> (\<forall>f\<in>set (e_Targets e). \<forall>x. survives w' (t_Path f) x \<longrightarrow>
         survives w (t_Path f) x \<or> news f \<noteq> None \<and> x = news f)"
  using assms
proof (cases rule: Sync_cases)
  case stopped
  then show ?thesis
    by (intro exI [of _ "\<lambda>_. None"]) (auto simp: frame_empty_fs survives_def frame_may)
next
  case (applied result X)
  show ?thesis
    using applied_target [OF applied(2) assms(2)] survives_mono [OF applied_target(2) [OF applied(2) assms(2)]] applied(1)
    by (intro exI [of _ "\<lambda>f. Some (new_file (Values result) f)"]) fastforce
qed

text \<open>
  C19: the tag is committed last. If during a synchronization the stored tag becomes one that it
  was not before, also by what may be found after a loss of power, then it is the tag of a response
  whose values are in all targets, and the exposure's command has run without an error when they
  were. Where no system call failed, the targets are then also safe from a loss of power.
\<close>

theorem Sync_tag_last:
  assumes "Sync c stateDir e w = (r, w')" and "separate (w_TempDir w) stateDir e"
    and "survives w' (etagPath stateDir e) x" and "\<not> survives w (etagPath stateDir e) x"
  shows "\<exists>result. fetched c e result \<and> x = Some (tag_file (result_ETag result))
    \<and> (\<forall>f\<in>set (e_Targets e). w_fs w' (t_Path f) = Some (new_file (Values result) f)
         \<and> (\<not> failing w \<longrightarrow> (\<forall>y. survives w' (t_Path f) y \<longleftrightarrow> y = Some (new_file (Values result) f))))
    \<and> (e_OnChangeCommand e \<noteq> [] \<longrightarrow> (\<exists>files. w_ran w' = w_ran w @ [\<lparr>run_exposure = e_Name e,
          run_command = e_OnChangeCommand e, run_ok = True, run_files = files\<rparr>]
          \<and> (\<forall>f\<in>set (e_Targets e). files (t_Path f) = Some (new_file (Values result) f))))"
  using assms(1,2)
proof (cases rule: Sync_cases)
  case stopped
  with assms(3,4) show ?thesis by (simp add: survives_def frame_may)
next
  case (applied result X)
  have tag: "f_synced (tag_file (result_ETag result))" by (simp add: tag_file_def)
  from applied(2) assms(3,4) survives_same
  have c: "complete e (Values result) w w'"
    "may w' (etagPath stateDir e) \<subseteq> may w (etagPath stateDir e) \<union> {Some (tag_file (result_ETag result))}"
    unfolding applied_def by blast+
  have "x = Some (tag_file (result_ETag result))" using survives_mono [OF c(2) tag assms(3)] assms(4) by blast
  moreover have "survives w' (t_Path f) y \<longleftrightarrow> y = Some (new_file (Values result) f)"
    if "f \<in> set (e_Targets e)" "\<not> failing w" for f y
    using c(1) that by (simp add: complete_def survives_def)
  ultimately show ?thesis using applied(1) c(1) unfolding complete_def by blast
qed

text \<open>
  C20: what success means. A synchronization without an error has either seen that nothing changed,
  and then left all files alone, or every target has the value and the mode of the response, its
  tag is recorded, and no file besides the targets, the stamp and the tag is different or new.
\<close>

theorem Sync_success:
  assumes "Sync c stateDir e w = (Done (changed, None), w')" and "separate (w_TempDir w) stateDir e"
  shows "if changed then \<exists>result. fetched c e result
      \<and> (\<forall>f\<in>set (e_Targets e). w_fs w' (t_Path f) = Some (new_file (Values result) f))
      \<and> w_fs w' (etagPath stateDir e) = Some (tag_file (result_ETag result))
      \<and> (\<forall>p. p \<notin> t_Path ` set (e_Targets e) \<union> {stampPath stateDir e, etagPath stateDir e} \<longrightarrow> w_fs w' p = w_fs w p)
    else w_fs w' = w_fs w \<and> (\<exists>tag username password. Fetch c (e_Name e) tag username password = Inl ErrNotModified)"
  using assms
proof (cases rule: Sync_cases)
  case stopped
  then show ?thesis by (cases changed) (auto simp: frame_empty_fs)
next
  case (applied result X)
  then have ch: changed by (auto simp: applied_def)
  then have c: "complete e (Values result) w w'" "\<forall>x\<in>X. w_fs w' x = None"
      "w_fs w' (etagPath stateDir e) = Some (tag_file (result_ETag result))"
    using applied(2) unfolding applied_def by blast+
  have "w_fs w' p = w_fs w p" if "p \<notin> t_Path ` set (e_Targets e) \<union> {stampPath stateDir e, etagPath stateDir e}" for p
  proof (cases "p \<in> X")
    case True
    with applied(2) c(2) show ?thesis by (simp add: applied_def)
  next
    case False
    with that applied_other [OF applied(2)] show ?thesis by blast
  qed
  with c applied(1) ch show ?thesis unfolding complete_def by auto
qed

text \<open>
  C22: values are never exposed on the way. A file that a synchronization has left behind besides
  the targets, the stamp and the tag, because it died or could not remove it, is empty with mode
  0600, or holds a part of one target's value with the mode of that target, or a part of the tag
  with mode 0600.
\<close>

theorem Sync_leftovers_private:
  assumes "Sync c stateDir e w = (r, w')" and "separate (w_TempDir w) stateDir e"
    and "p \<notin> t_Path ` set (e_Targets e) \<union> {stampPath stateDir e, etagPath stateDir e}"
    and "w_fs w p = None" and "w_fs w' p = Some g"
  shows "\<exists>result. fetched c e result \<and> (f_mode g = 0x180 \<and> f_data g = []
    \<or> (\<exists>f\<in>set (e_Targets e). f_mode g = t_Mode f \<and> (\<exists>n. f_data g = take n (f_data (new_file (Values result) f))))
    \<or> f_mode g = 0x180 \<and> (\<exists>n. f_data g = take n (result_ETag result @ [CHR 0x0A])))"
  using assms(1,2)
proof (cases rule: Sync_cases)
  case stopped
  with assms(4,5) show ?thesis by (simp add: frame_empty_fs)
next
  case (applied result X)
  then have "p \<in> X" using applied_other [OF applied(2) _ assms(3)] assms(4,5) by auto
  then have "discreet 0x180 (result_ETag result @ [CHR 0x0A]) (Some g)
      \<or> (\<exists>f\<in>set (e_Targets e). private_to (Values result) f (Some g))"
    using applied(2) assms(5) unfolding applied_def by metis
  with applied(1) show ?thesis unfolding discreet_def private_to_def by auto
qed

section \<open>Runs in which nothing fails\<close>

lemma atomically_calm [simp]: "w_fate w = [] \<Longrightarrow> atomically full w = (Done True, full w)"
  by (simp add: atomically_def syscall_def)

lemma os_Read_calm [simp]: "w_fate w = [] \<Longrightarrow>
    os_Read p g w = (Done (case w_fs w p of None \<Rightarrow> NotExist | Some f \<Rightarrow> Content (g f)), w)"
  by (simp add: os_Read_def io_bind_def)

lemma io_bind_Done [simp]: "m w = (Done a, w1) \<Longrightarrow> io_bind m k w = k a w1"
  by (simp add: io_bind_def)

text \<open>The tag that the next request carries.\<close>

definition stored_tag :: "string \<Rightarrow> agent_Exposure \<Rightarrow> world \<Rightarrow> string" where
  "stored_tag stateDir e w =
     (if list_all (\<lambda>f. \<exists>x. w_fs w (t_Path f) = Some x \<and> f_mode x AND 0x1FF = t_Mode f) (e_Targets e)
      then (case w_fs w (etagPath stateDir e) of None \<Rightarrow> [] | Some f \<Rightarrow> TrimSpace (f_data f)) else [])"

lemma check_targets_calm:
  "w_fate w = [] \<Longrightarrow> check_targets files w =
    (Done (Inr (list_all (\<lambda>f. \<exists>x. w_fs w (t_Path f) = Some x \<and> f_mode x AND 0x1FF = t_Mode f) files)), w)"
  by (induction files) (auto simp: io_return_def split: option.split)

lemma currentETag_calm: "w_fate w = [] \<Longrightarrow> currentETag stateDir e w = (Done (Inr (stored_tag stateDir e w)), w)"
  by (simp add: currentETag_def check_targets_calm stored_tag_def io_return_def split: option.split)

lemma Sync_calm:
  assumes "w_fate w = []" and "w_fs w (PasswordFile (e_Auth e)) = Some pf" and "f_data pf \<noteq> []"
  shows "Sync c stateDir e w = (case Fetch c (e_Name e) (stored_tag stateDir e w) (Username (e_Auth e)) (f_data pf) of
      Inl ErrNotModified \<Rightarrow> (Done (False, None), w)
    | Inl err \<Rightarrow> (Done (False, Some (FetchFailed err)), w)
    | Inr result \<Rightarrow> apply_result stateDir e result w)"
  using assms
  by (simp add: Sync_def Auth_Resolve_def currentETag_calm io_return_def split: sum.split fetch_error.split)

text \<open>The name for a number, and how it looks if the destination has no star.\<close>

definition temp_for :: "string \<Rightarrow> string \<Rightarrow> nat \<Rightarrow> string" where
  "temp_for tempDir path = (case path_Split path of (dir, base) \<Rightarrow> temp_name tempDir dir (''.'' @ base @ ''.tmp''))"

lemma temp_names_for: "temp_names T path = range (temp_for T path)"
  by (simp add: temp_names_def temp_for_def case_prod_beta)

lemma path_Split_base: "set (snd (path_Split path)) \<subseteq> set path"
  by (auto simp: path_Split_def split: option.splits dest: in_set_dropD)

lemma temp_for_plain:
  assumes "CHR ''*'' \<notin> set path"
  obtains s where "\<And>r. temp_for T path r = s @ ''p'' @ Itoa r"
proof -
  obtain dir base where sp: "path_Split path = (dir, base)" by fastforce
  have "CHR ''*'' \<notin> set base" using assms path_Split_base [of path] sp by auto
  then have "temp_for T path r = ((let d = (if dir = [] then T else dir) in if HasSuffix d ''/'' then d else d @ ''/'')
      @ ''.'' @ base @ ''.tm'') @ ''p'' @ Itoa r" for r
    by (simp add: temp_for_def temp_name_def prefixAndSuffix_def Let_def sp)
  then show thesis by (rule that)
qed

text \<open>Names with different numbers are different, whatever the destinations.\<close>

lemma temp_name_inj:
  assumes "temp_for T path r = temp_for T path' r'" and "CHR ''*'' \<notin> set path" and "CHR ''*'' \<notin> set path'"
  shows "r = r'"
proof -
  have tail: "takeWhile is_digit (rev (temp_for T q n)) = rev (Itoa n)" if star: "CHR ''*'' \<notin> set q" for q n
  proof -
    obtain s where s: "\<And>n. temp_for T q n = s @ ''p'' @ Itoa n" 
      using temp_for_plain [OF star, of T] by blast
    moreover have "\<forall>c\<in>set (rev (Itoa n)). is_digit c" using Itoa_digits [of n] by (simp add: list_all_iff)
    moreover have "\<not> is_digit (CHR ''p'')" by (simp add: is_digit_def)
    ultimately show ?thesis by (simp add: s takeWhile_append_stop takeWhile_eq_all_conv)
  qed
  have "rev (Itoa r) = rev (Itoa r')" using tail [OF assms(2), of r] tail [OF assms(3), of r'] assms(1) by simp
  then show ?thesis using Itoa_inj by simp
qed

text \<open>Nothing fails, and the random numbers are different and give free names for all of \<open>paths\<close>.\<close>

definition calm :: "string set \<Rightarrow> world \<Rightarrow> bool" where
  "calm paths w \<longleftrightarrow> w_fate w = [] \<and> distinct (w_rand w)
     \<and> (\<forall>p\<in>paths. \<forall>r\<in>set (w_rand w). w_fs w (temp_for (w_TempDir w) p r) = None)
     \<and> (\<forall>p\<in>paths. CHR ''*'' \<notin> set p)"

lemma writeTemp_calm:
  assumes "calm paths w" and "path \<in> paths" and "w_rand w = n # rand"
  shows "\<exists>tmp w'. writeTemp path data mode w = (Done (Inr tmp), w') \<and> calm paths w' \<and> w_rand w' = rand
    \<and> w_TempDir w' = w_TempDir w"
proof -
  let ?tmp = "temp_for (w_TempDir w) path n" and ?v = "w\<lparr>w_rand := rand\<rparr>"
  have free: "w_fs w ?tmp = None" and fate: "w_fate w = []" and d: "n \<notin> set rand" "distinct rand"
    using assms by (auto simp: calm_def)
  let ?w1 = "set_entry ?tmp (Some \<lparr>f_data = [], f_mode = 0x180, f_synced = False\<rparr>) ?v"
  let ?w2 = "change_file ?tmp (\<lambda>f. f\<lparr>f_mode := mode, f_synced := False\<rparr>) ?w1"
  let ?w4 = "change_file ?tmp (\<lambda>f. f\<lparr>f_synced := True\<rparr>) (append_data ?tmp data ?w2)"
  have c: "os_CreateTemp dir (''.'' @ base @ ''.tmp'') w = (Done (Some ?tmp), ?w1)" if "path_Split path = (dir, base)" for dir base
    using that free fate assms(3)
    by (simp add: os_CreateTemp_def temp_for_def os_Create_def io_return_def)
  have "fill_temp ?tmp data mode ?w1 = (Done True, ?w4)"
    using fate by (simp add: fill_temp_def os_Chmod_def os_Write_def os_Sync_def syscall_def set_entry_def
        change_file_def append_data_def)
  moreover have "close_temp path ?tmp True ?w4 = (Done (Inr ?tmp), ?w4)"
    using fate by (simp add: close_temp_def os_Close_def io_return_def set_entry_def change_file_def append_data_def)
  ultimately have "writeTemp path data mode w = (Done (Inr ?tmp), ?w4)"
    using c by (simp add: writeTemp_def split: prod.split)
  moreover have "calm paths ?w4"
    using assms(1-3) d temp_name_inj [of "w_TempDir w" _ _ path n]
    by (fastforce simp: calm_def set_entry_def change_file_def append_data_def)
  moreover have "w_rand ?w4 = rand" "w_TempDir ?w4 = w_TempDir w"
    by (simp_all add: set_entry_def change_file_def append_data_def)
  ultimately show ?thesis by blast
qed

lemma write_temps_calm:
  assumes "calm paths w" and "t_Path ` set files \<subseteq> paths" and "length files \<le> length (w_rand w)"
  shows "\<exists>temps' w'. write_temps values files temps w = (Done (None, temps'), w') \<and> w_fate w' = []
    \<and> w_rand w' = drop (length files) (w_rand w)"
  using assms
proof (induction files arbitrary: temps w)
  case Nil
  then show ?case by (simp add: io_return_def calm_def)
next
  case (Cons f files)
  then obtain n rand where r: "w_rand w = n # rand" by (cases "w_rand w") auto
  let ?d = "case values (t_Key f) of None \<Rightarrow> [] | Some v \<Rightarrow> v"
  obtain tmp w1 where w1: "writeTemp (t_Path f) ?d (t_Mode f) w = (Done (Inr tmp), w1)" "calm paths w1" "w_rand w1 = rand"
    using writeTemp_calm [OF Cons.prems(1) _ r, of "t_Path f" ?d "t_Mode f"] Cons.prems(2) by auto
  from Cons.IH [OF w1(2), of "temps @ [tmp]"] Cons.prems r w1 show ?case by auto
qed

lemma entry_sel [simp]:
  "w_fate (set_entry p f w) = w_fate w" "w_rand (set_entry p f w) = w_rand w" "w_TempDir (set_entry p f w) = w_TempDir w"
  "w_fate (change_file p g w) = w_fate w" "w_rand (change_file p g w) = w_rand w"
  "w_TempDir (change_file p g w) = w_TempDir w"
  by (simp_all add: set_entry_def change_file_def)

lemma rename_temps_calm: "w_fate w = [] \<Longrightarrow>
    \<exists>temps' w'. rename_temps i files temps w = (Done (None, temps'), w') \<and> w_fate w' = [] \<and> w_rand w' = w_rand w"
proof (induction files arbitrary: i temps w)
  case (Cons f files)
  let ?w1 = "set_entry (temps ! i) None (set_entry (t_Path f) (w_fs w (temps ! i)) w)"
  have "os_Rename (temps ! i) (t_Path f) w = (Done True, ?w1)" using Cons.prems by (simp add: os_Rename_def)
  with Cons.IH [of ?w1 "Suc i" "temps[i := []]"] Cons.prems show ?case by simp
qed (simp add: io_return_def)

lemma sync_dirs_calm: "w_fate w = [] \<Longrightarrow> \<exists>w'. sync_dirs ds w = (Done (), w') \<and> w_fate w' = [] \<and> w_rand w' = w_rand w"
proof (induction ds arbitrary: w)
  case (Cons d ds)
  let ?w1 = "w\<lparr>w_past := \<lambda>p. if path_Dir p = d then [] else w_past w p\<rparr>"
  have "sync_dir d w = (Done (), ?w1)" using Cons.prems by (simp add: sync_dir_def os_SyncDir_def os_Close_def io_return_def)
  with Cons.IH [of ?w1] Cons.prems show ?case by simp
qed (simp add: io_return_def)

lemma remove_temps_calm: "w_fate w = [] \<Longrightarrow> \<exists>w'. remove_temps temps w = (Done (), w') \<and> w_fate w' = [] \<and> w_rand w' = w_rand w"
proof (induction temps arbitrary: w)
  case (Cons tmp temps)
  from Cons.IH [of "set_entry tmp None w"] Cons.IH [of w] Cons.prems show ?case by (simp add: os_Remove_def)
qed (simp add: io_return_def)

lemma install_calm:
  assumes "calm paths w" and "t_Path ` set files \<subseteq> paths" and "length files \<le> length (w_rand w)"
  shows "\<exists>w'. install files values w = (Done None, w') \<and> w_fate w' = [] \<and> w_rand w' = drop (length files) (w_rand w)"
proof -
  obtain temps w1 where 1: "write_temps values files [] w = (Done (None, temps), w1)" "w_fate w1 = []"
    "w_rand w1 = drop (length files) (w_rand w)" using write_temps_calm [OF assms] by blast
  obtain temps2 w2 where 2: "rename_temps 0 files temps w1 = (Done (None, temps2), w2)" "w_fate w2 = []"
    "w_rand w2 = w_rand w1" using rename_temps_calm [OF 1(2)] by blast
  obtain w3 where 3: "sync_dirs (dirs files) w2 = (Done (), w3)" "w_fate w3 = []" "w_rand w3 = w_rand w2"
    using sync_dirs_calm [OF 2(2)] by blast
  obtain w4 where "remove_temps temps2 w3 = (Done (), w4)" "w_fate w4 = []" "w_rand w4 = w_rand w3"
    using remove_temps_calm [OF 3(2)] by blast
  with 1 2 3 show ?thesis by (simp add: install_def io_return_def)
qed

lemma touchStamp_calm:
  assumes "w_fate w = []"
  shows "\<exists>w'. touchStamp p w = (Done True, w') \<and> w_fate w' = [] \<and> w_rand w' = w_rand w"
proof -
  have o: "w_fate (open_stamp p w) = []" "w_rand (open_stamp p w) = w_rand w"
    using assms by (simp_all add: open_stamp_def split: option.split)
  have wr: "os_Write p d v = (Done True, append_data p d v)" if "w_fate v = []" for d v
    using that by (simp add: os_Write_def syscall_def)
  from assms o show ?thesis
    by (simp add: touchStamp_def wr os_Close_def io_return_def append_data_def)
qed

lemma runCommand_calm: "w_fate w = [] \<Longrightarrow>
    \<exists>w'. (if e_OnChangeCommand e \<noteq> [] then runCommand e else io_return True) w = (Done True, w')
      \<and> w_fate w' = [] \<and> w_rand w' = w_rand w"
  by (simp add: runCommand_def syscall_def log_run_def io_return_def)

lemma writeFile_calm:
  assumes "calm {path} w" and "w_rand w \<noteq> []"
  shows "\<exists>w'. writeFile path data mode w = (Done None, w') \<and> w_fate w' = []"
proof -
  obtain n rand where r: "w_rand w = n # rand" using assms(2) by (cases "w_rand w") auto
  obtain tmp w1 where w1: "writeTemp path data mode w = (Done (Inr tmp), w1)" "calm {path} w1"
    using writeTemp_calm [OF assms(1) _ r, of path data mode] by auto
  then show ?thesis by (simp add: writeFile_def os_Rename_def calm_def io_return_def)
qed

text \<open>The free names are still free when the tag is written.\<close>

lemma staged_free:
  assumes "staged stateDir e values X w w'" and "separate (w_TempDir w) stateDir e"
    and "\<forall>p\<in>state_temps (w_TempDir w) stateDir e. w_fs w p = None" and "q \<in> state_temps (w_TempDir w) stateDir e"
  shows "w_fs w' q = None"
proof (cases "q \<in> X")
  case True
  with assms(1) show ?thesis by (simp add: staged_def)
next
  case False
  have "q \<noteq> stampPath stateDir e" "q \<notin> t_Path ` set (e_Targets e)" using assms(2,4) by (auto simp: separate_def)
  with False assms(1,3,4) show ?thesis unfolding staged_def by auto
qed

lemma apply_result_calm:
  assumes fate: "w_fate w = []" and sep: "separate (w_TempDir w) stateDir e"
    and keys: "\<forall>f\<in>set (e_Targets e). Values result (t_Key f) \<noteq> None"
    and rand: "distinct (w_rand w)" "length (e_Targets e) < length (w_rand w)"
    and free: "\<forall>p\<in>state_temps (w_TempDir w) stateDir e. w_fs w p = None"
    and star: "\<forall>p\<in>insert (etagPath stateDir e) (t_Path ` set (e_Targets e)). CHR ''*'' \<notin> set p"
  shows "\<exists>w'. apply_result stateDir e result w = (Done (True, None), w') \<and> w_fate w' = []"
proof -
  let ?q = "etagPath stateDir e" and ?files = "e_Targets e"
  have "calm (t_Path ` set ?files) w"
    using fate rand(1) free star unfolding calm_def state_temps_def temp_space_def temp_names_for by auto
  then obtain w1 where 1: "install ?files (Values result) w = (Done None, w1)" "w_fate w1 = []"
    "w_rand w1 = drop (length ?files) (w_rand w)"
    using install_calm [of "t_Path ` set ?files" w ?files "Values result"] rand(2) by auto
  obtain w2 where 2: "touchStamp (stampPath stateDir e) w1 = (Done True, w2)" "w_fate w2 = []" "w_rand w2 = w_rand w1"
    using touchStamp_calm [OF 1(2)] by blast
  obtain w3 where 3: "(if e_OnChangeCommand e \<noteq> [] then runCommand e else io_return True) w2 = (Done True, w3)"
    "w_fate w3 = []" "w_rand w3 = w_rand w2" using runCommand_calm [OF 2(2)] by blast
  have "\<forall>f\<in>set ?files. t_Path f \<notin> temp_space (w_TempDir w) ?files" "distinct (map t_Path ?files)"
    using sep by (auto simp: separate_def state_temps_def)
  from install_cases [OF 1(1) this] obtain X where "installed (Values result) ?files X (Done None) w w1" by blast
  from staged_ran [OF installed_staged [OF this touchStamp_frame [OF 2(1)] sep] run_cases [OF 3(1)]]
  have st: "staged stateDir e (Values result) X w w3" .
  have T: "w_TempDir w3 = w_TempDir w" using st by (simp add: staged_def)
  have "calm {?q} w3"
    using staged_free [OF st sep free] 3 2(3) 1(3) rand(1) star
    unfolding calm_def T state_temps_def temp_names_for by (auto simp: distinct_drop)
  moreover have "w_rand w3 \<noteq> []" using 3(3) 2(3) 1(3) rand(2) by simp
  ultimately obtain w4 where "writeFile ?q (result_ETag result @ [CHR 0x0A]) 0x180 w3 = (Done None, w4)" "w_fate w4 = []"
    using writeFile_calm by blast
  with 3 have "after_install stateDir e result w1 = (Done (True, None), w4)"
    by (simp add: after_install_def 2(1) record_etag_def io_return_def)
  moreover have "filter (\<lambda>k. Values result k = None) (map t_Key ?files) = []" using keys by (auto simp: filter_empty_conv)
  ultimately show ?thesis using 1(1) \<open>w_fate w4 = []\<close> by (simp add: apply_result_def Let_def)
qed

text \<open>
  C21: a synchronization that nothing disturbs completes. If no call fails, the password file has
  a password, the gateway answers with a response that has every key and there are free names for
  temporary files (of destinations without a star, which \<^verbatim>\<open>os.CreateTemp\<close> would replace), then the synchronization ends with all targets installed and without an error.
\<close>

theorem Sync_completes:
  assumes "w_fate w = []" and "separate (w_TempDir w) stateDir e"
    and "w_fs w (PasswordFile (e_Auth e)) = Some pf" and "f_data pf \<noteq> []"
    and "Fetch c (e_Name e) (stored_tag stateDir e w) (Username (e_Auth e)) (f_data pf) = Inr result"
    and "\<forall>f\<in>set (e_Targets e). Values result (t_Key f) \<noteq> None"
    and "distinct (w_rand w)" and "length (e_Targets e) < length (w_rand w)"
    and "\<forall>p\<in>state_temps (w_TempDir w) stateDir e. w_fs w p = None"
    and "\<forall>p\<in>insert (etagPath stateDir e) (t_Path ` set (e_Targets e)). CHR ''*'' \<notin> set p"
  shows "\<exists>w'. Sync c stateDir e w = (Done (True, None), w')
    \<and> (\<forall>f\<in>set (e_Targets e). w_fs w' (t_Path f) = Some (new_file (Values result) f))
    \<and> w_fs w' (etagPath stateDir e) = Some (tag_file (result_ETag result))"
proof -
  obtain w' where w': "apply_result stateDir e result w = (Done (True, None), w')"
    using apply_result_calm [OF assms(1,2,6-10)] by blast
  from apply_result_cases [OF w' assms(2)] obtain X where "applied stateDir e result X (Done (True, None)) w w'" by blast
  then have "complete e (Values result) w w'" "w_fs w' (etagPath stateDir e) = Some (tag_file (result_ETag result))"
    by (simp_all add: applied_def)
  with w' show ?thesis by (simp add: Sync_calm [OF assms(1,3,4)] assms(5) complete_def)
qed

text \<open>
  C23: an unchanged exposure stays untouched. After a successful synchronization the stored tag is
  the one of the installed response: the next request carries it, and when the gateway answers that
  nothing changed the synchronization ends without touching any file.
\<close>

theorem Sync_then_unchanged:
  assumes "Sync c stateDir e w = (Done (True, None), w')" and "separate (w_TempDir w) stateDir e" and "w_fate w' = []"
    and "w_fs w' (PasswordFile (e_Auth e)) = Some pf" and "f_data pf \<noteq> []"
    and "\<forall>f\<in>set (e_Targets e). t_Mode f AND 0x1FF = t_Mode f"
    and "\<And>result. fetched c e result \<Longrightarrow> result_ETag result \<noteq> [] \<and> visible (hd (result_ETag result)) \<and> visible (last (result_ETag result))"
    and "Fetch c' (e_Name e) (stored_tag stateDir e w') (Username (e_Auth e)) (f_data pf) = Inl ErrNotModified"
  shows "(\<exists>result. fetched c e result \<and> stored_tag stateDir e w' = result_ETag result)
    \<and> Sync c' stateDir e w' = (Done (False, None), w')"
  using assms(1,2)
proof (cases rule: Sync_cases)
  case (applied result X)
  then have c: "complete e (Values result) w w'" "w_fs w' (etagPath stateDir e) = Some (tag_file (result_ETag result))"
    by (simp_all add: applied_def)
  have "stored_tag stateDir e w' = TrimSpace (result_ETag result @ [CHR 0x0A])"
    using c assms(6) by (auto simp: stored_tag_def complete_def new_file_def tag_file_def list_all_iff)
  then have "stored_tag stateDir e w' = result_ETag result"
    using assms(7) [OF applied(1)] by (simp add: TrimSpace_newline)
  moreover have "Sync c' stateDir e w' = (Done (False, None), w')" by (simp add: Sync_calm [OF assms(3-5)] assms(8))
  ultimately show ?thesis using applied(1) by blast
qed simp

section \<open>A concrete agent\<close>

definition ex_body :: bytes where
  "ex_body = [CHR ''{'', CHR 0x22, CHR ''k'', CHR 0x22, CHR '':'', CHR 0x22] @ ''dg=='' @ [CHR 0x22, CHR ''}'']"

text \<open>A gateway with one version of one exposure.\<close>

definition ex_transport :: "string \<Rightarrow> client_request \<Rightarrow> string + client_response" where
  "ex_transport tag req = Inr (if cr_Header req ''If-None-Match'' = [tag]
     then \<lparr>resp_StatusCode = 304, resp_Header = [(''ETag'', tag)], resp_Body = [], resp_BodyFails = False\<rparr>
     else \<lparr>resp_StatusCode = 200, resp_Header = [(''ETag'', tag)], resp_Body = ex_body, resp_BodyFails = False\<rparr>)"

definition ex_agent :: "string \<Rightarrow> Client" where
  "ex_agent tag = \<lparr>c_base = zero_URL\<lparr>url_Scheme := ''https'', url_Host := ''gw''\<rparr>, c_http = ex_transport tag, c_version = ''1''\<rparr>"

definition ex_e :: agent_Exposure where
  "ex_e = ex_agent_exposure"

definition ex_files :: "string \<rightharpoonup> File" where
  "ex_files = [''/p'' \<mapsto> \<lparr>f_data = ''pw'', f_mode = 0x180, f_synced = True\<rparr>,
     ''/b'' \<mapsto> \<lparr>f_data = ''old'', f_mode = 0x1A0, f_synced = True\<rparr>]"

definition ex_world :: "fate list \<Rightarrow> world" where
  "ex_world fates = \<lparr>w_fs = ex_files, w_past = (\<lambda>_. []), w_fate = fates, w_rand = [1, 2, 3], w_umask = 0, w_TempDir = ''/tmp'',
     w_now = ''now'', w_ran = []\<rparr>"

lemma ex_request_url: "url_Parse (url_String (JoinPath (zero_URL\<lparr>url_Scheme := ''https'', url_Host := ''gw''\<rparr>) [''exposures'', ''app'']))
    = Some (zero_URL\<lparr>url_Scheme := ''https'', url_Host := ''gw'', url_Path := ''/exposures/app''\<rparr>)"
  by code_simp

lemma ex_decode: "decode_value ex_body = Some (JObj [(''k'', JStr ''dg=='')], [])" "DecodeString ''dg=='' = Some ''v''"
  by code_simp+

lemma ex_values: "read_values name \<lparr>resp_StatusCode = 200, resp_Header = h, resp_Body = ex_body, resp_BodyFails = False\<rparr>
    = Inr [''k'' \<mapsto> ''v'']"
proof -
  have "take MaxExposureBytes ex_body = ex_body" by (simp add: ex_body_def MaxExposureBytes_def)
  then show ?thesis by (simp add: read_values_def ex_decode skip_ws_def)
qed

lemma ex_Fetch:
  "tag \<noteq> [] \<Longrightarrow> Fetch (ex_agent tag) ''app'' etag user password = (if etag = tag then Inl ErrNotModified
     else Inr \<lparr>Values = [''k'' \<mapsto> ''v''], result_ETag = tag\<rparr>)"
  by (simp add: Fetch_def exposure_request_def NewRequest_def ex_agent_def ex_request_url ex_transport_def set_header_def
      Let_def resp_Get_def ex_values)

lemma ex_paths: "etagPath ''/s'' ex_e = ''/s/app.etag''" "stampPath ''/s'' ex_e = ''/s/app.stamp''"
  "temp_for ''/tmp'' ''/b'' n = ''/.b.tmp'' @ Itoa n" "temp_for ''/tmp'' ''/s/app.etag'' n = ''/s/.app.etag.tmp'' @ Itoa n"
proof -
  have sp: "path_Split ''/b'' = (''/'', ''b'')" "path_Split ''/s/app.etag'' = (''/s/'', ''app.etag'')"
    by code_simp+
  show "etagPath ''/s'' ex_e = ''/s/app.etag''" "stampPath ''/s'' ex_e = ''/s/app.stamp''" by code_simp+
  show "temp_for ''/tmp'' ''/b'' n = ''/.b.tmp'' @ Itoa n" "temp_for ''/tmp'' ''/s/app.etag'' n = ''/s/.app.etag.tmp'' @ Itoa n"
    by (simp_all add: temp_for_def temp_name_def prefixAndSuffix_def sp HasSuffix_def)
qed

lemma ex_e_simps [simp]: "e_Name ex_e = ''app''" "e_Targets ex_e = [\<lparr>t_Key = ''k'', t_Path = ''/b'', t_Mode = 0x1A0\<rparr>]"
  "e_Auth ex_e = \<lparr>Username = ''u'', PasswordFile = ''/p''\<rparr>" "e_OnChangeCommand ex_e = [''reload'']"
  by (simp_all add: ex_e_def ex_agent_exposure_def)

lemma ex_separate: "separate ''/tmp'' ''/s'' ex_e"
  by (auto simp: separate_def ex_paths state_temps_def temp_space_def temp_names_for)

lemma ex_world_sel [simp]: "w_fs (ex_world fates) = ex_files" "w_fate (ex_world fates) = fates" "w_past (ex_world fates) p = []"
  "w_rand (ex_world fates) = [1, 2, 3]" "w_TempDir (ex_world fates) = ''/tmp''" "w_ran (ex_world fates) = []"
  by (simp_all add: ex_world_def)

lemma ex_files_sel [simp]: "ex_files ''/p'' = Some \<lparr>f_data = ''pw'', f_mode = 0x180, f_synced = True\<rparr>"
  "ex_files ''/b'' = Some \<lparr>f_data = ''old'', f_mode = 0x1A0, f_synced = True\<rparr>"
  "ex_files ''/s/app.etag'' = None" "ex_files ''/.b.tmp1'' = None" "ex_files ''/s/app.stamp'' = None"
  "ex_files ''/s/.app.etag.tmp2'' = None"
  by (simp_all add: ex_files_def)

lemma ex_free: "\<forall>p\<in>state_temps ''/tmp'' ''/s'' ex_e. ex_files p = None"
  by (auto simp: ex_paths state_temps_def temp_space_def temp_names_for ex_files_def)

lemma ex_stored_tag [simp]: "stored_tag ''/s'' ex_e (ex_world fates) = []"
  by (simp add: stored_tag_def ex_paths)

theorem Sync_completes_witness:
  "\<exists>w'. Sync (ex_agent ''t'') ''/s'' ex_e (ex_world []) = (Done (True, None), w')
    \<and> w_fs w' ''/b'' = Some \<lparr>f_data = ''v'', f_mode = 0x1A0, f_synced = True\<rparr>
    \<and> w_fs w' ''/s/app.etag'' = Some \<lparr>f_data = ''t'' @ [CHR 0x0A], f_mode = 0x180, f_synced = True\<rparr>"
proof -
  have "\<exists>w'. Sync (ex_agent ''t'') ''/s'' ex_e (ex_world []) = (Done (True, None), w')
    \<and> (\<forall>f\<in>set (e_Targets ex_e). w_fs w' (t_Path f) = Some (new_file (Values \<lparr>Values = [''k'' \<mapsto> ''v''], result_ETag = ''t''\<rparr>) f))
    \<and> w_fs w' (etagPath ''/s'' ex_e) = Some (tag_file (result_ETag \<lparr>Values = [''k'' \<mapsto> ''v''], result_ETag = ''t''\<rparr>))"
    by (rule Sync_completes [where pf = "\<lparr>f_data = ''pw'', f_mode = 0x180, f_synced = True\<rparr>"])
      (simp_all add: ex_Fetch ex_separate ex_free ex_paths)
  then show ?thesis by (simp add: new_file_def tag_file_def ex_paths)
qed

lemma ex_sync:
  obtains w' where "Sync (ex_agent ''t'') ''/s'' ex_e (ex_world []) = (Done (True, None), w')" "w_fate w' = []"
    "w_fs w' ''/p'' = ex_files ''/p''" "w_fs w' ''/s/app.etag'' = Some (tag_file ''t'')"
    "w_fs w' ''/b'' = Some \<lparr>f_data = ''v'', f_mode = 0x1A0, f_synced = True\<rparr>"
proof -
  let ?res = "\<lparr>Values = [''k'' \<mapsto> ''v''], result_ETag = ''t''\<rparr>"
  obtain w' where w': "apply_result ''/s'' ex_e ?res (ex_world []) = (Done (True, None), w')" "w_fate w' = []"
    using apply_result_calm [of "ex_world []" "''/s''" ex_e ?res] ex_separate ex_free by (auto simp: ex_paths)
  have s: "Sync (ex_agent ''t'') ''/s'' ex_e (ex_world []) = (Done (True, None), w')"
    using Sync_calm [of "ex_world []" ex_e "\<lparr>f_data = ''pw'', f_mode = 0x180, f_synced = True\<rparr>" "ex_agent ''t''" "''/s''"]
    by (simp add: ex_Fetch w'(1))
  from apply_result_cases [OF w'(1)] ex_separate obtain X where a: "applied ''/s'' ex_e ?res X (Done (True, None)) (ex_world []) w'"
    by auto
  then have X: "X \<subseteq> state_temps ''/tmp'' ''/s'' ex_e" by (simp add: applied_def)
  have p: "''/p'' \<notin> X" using X by (auto simp: ex_paths state_temps_def temp_space_def temp_names_for)
  have "w_fs w' ''/p'' = ex_files ''/p''" using applied_other [OF a p] by (simp add: ex_paths)
  moreover have "w_fs w' ''/s/app.etag'' = Some (tag_file ''t'')"
    "w_fs w' ''/b'' = Some \<lparr>f_data = ''v'', f_mode = 0x1A0, f_synced = True\<rparr>"
    using a unfolding applied_def by (simp_all add: ex_paths complete_def new_file_def)
  ultimately show thesis using that s w'(2) by blast
qed

text \<open>A run that dies while it writes the temporary file.\<close>

definition ex_dying :: world where
  "ex_dying = ex_world [Fine, Fine, Fine, Fine, Fine, Crash 1]"

lemma ex_Itoa: "Itoa (Suc 0) = ''1''" "Itoa 2 = ''2''"
  by code_simp+

lemmas sync_eval = Sync_def os_Read_def atomically_def syscall_def io_bind_def io_return_def ex_world_def
  Auth_Resolve_def currentETag_def ex_paths ex_Fetch apply_result_def install_def writeTemp_def path_Split_def
  os_CreateTemp_def temp_name_def prefixAndSuffix_def HasSuffix_def os_Create_def set_entry_def fill_temp_def os_Chmod_def
  change_file_def os_Write_def append_data_def ex_Itoa

lemma ex_died: "\<exists>w'. Sync (ex_agent ''t'') ''/s'' ex_e ex_dying = (Crashed, w')
    \<and> w_fs w' ''/b'' = ex_files ''/b'' \<and> w_fs w' ''/.b.tmp1'' = Some \<lparr>f_data = ''v'', f_mode = 0x1A0, f_synced = False\<rparr>"
  by (simp add: sync_eval ex_dying_def)

lemma ex_dying_sel [simp]: "w_fs ex_dying = ex_files" "w_TempDir ex_dying = ''/tmp''"
  by (simp_all add: ex_dying_def)

lemma ex_fetched: "fetched (ex_agent ''t'') ex_e result \<longleftrightarrow> result = \<lparr>Values = [''k'' \<mapsto> ''v''], result_ETag = ''t''\<rparr>"
  by (auto simp: fetched_def ex_Fetch)

lemma ex_new_file: "new_file [''k'' \<mapsto> ''v''] \<lparr>t_Key = ''k'', t_Path = ''/b'', t_Mode = 0x1A0\<rparr>
    = \<lparr>f_data = ''v'', f_mode = 0x1A0, f_synced = True\<rparr>"
  by (simp add: new_file_def)

theorem Sync_files_whole_witness:
  "\<exists>w'. Sync (ex_agent ''t'') ''/s'' ex_e ex_dying = (Crashed, w')
    \<and> w_fs w' ''/b'' \<in> {ex_files ''/b'', Some \<lparr>f_data = ''v'', f_mode = 0x1A0, f_synced = True\<rparr>}"
proof -
  obtain w' where w': "Sync (ex_agent ''t'') ''/s'' ex_e ex_dying = (Crashed, w')" using ex_died by blast
  from Sync_files_whole [OF this] ex_separate have
    "w_fs w' ''/b'' \<in> {ex_files ''/b'', Some \<lparr>f_data = ''v'', f_mode = 0x1A0, f_synced = True\<rparr>}"
    by (auto simp: ex_fetched ex_new_file)
  with w' show ?thesis by blast
qed

theorem Sync_leftovers_private_witness:
  "\<exists>w' g. Sync (ex_agent ''t'') ''/s'' ex_e ex_dying = (Crashed, w') \<and> w_fs w' ''/.b.tmp1'' = Some g
    \<and> (f_mode g = 0x180 \<and> f_data g = [] \<or> f_mode g = 0x1A0 \<and> (\<exists>n. f_data g = take n ''v'')
       \<or> f_mode g = 0x180 \<and> (\<exists>n. f_data g = take n (''t'' @ [CHR 0x0A])))"
proof -
  obtain w' g where w': "Sync (ex_agent ''t'') ''/s'' ex_e ex_dying = (Crashed, w')" "w_fs w' ''/.b.tmp1'' = Some g"
    using ex_died by blast
  have "\<exists>result. fetched (ex_agent ''t'') ex_e result \<and> (f_mode g = 0x180 \<and> f_data g = []
      \<or> (\<exists>f\<in>set (e_Targets ex_e). f_mode g = t_Mode f \<and> (\<exists>n. f_data g = take n (f_data (new_file (Values result) f))))
      \<or> f_mode g = 0x180 \<and> (\<exists>n. f_data g = take n (result_ETag result @ [CHR 0x0A])))"
    by (rule Sync_leftovers_private [OF w'(1) _ _ _ w'(2)]) (simp_all add: ex_separate ex_paths)
  then have "f_mode g = 0x180 \<and> f_data g = [] \<or> f_mode g = 0x1A0 \<and> (\<exists>n. f_data g = take n ''v'')
       \<or> f_mode g = 0x180 \<and> (\<exists>n. f_data g = take n (''t'' @ [CHR 0x0A]))"
    by (simp add: ex_fetched ex_new_file del: take_Cons_numeral take_append append.simps)
  with w' show ?thesis by blast
qed

theorem Sync_tag_last_witness:
  "\<exists>w'. Sync (ex_agent ''t'') ''/s'' ex_e (ex_world []) = (Done (True, None), w')
    \<and> (\<forall>y. survives w' ''/b'' y \<longleftrightarrow> y = Some \<lparr>f_data = ''v'', f_mode = 0x1A0, f_synced = True\<rparr>)
    \<and> (\<exists>files. w_ran w' = [\<lparr>run_exposure = ''app'', run_command = [''reload''], run_ok = True, run_files = files\<rparr>]
        \<and> files ''/b'' = Some \<lparr>f_data = ''v'', f_mode = 0x1A0, f_synced = True\<rparr>)"
proof -
  obtain w' where w': "Sync (ex_agent ''t'') ''/s'' ex_e (ex_world []) = (Done (True, None), w')"
    "w_fs w' ''/s/app.etag'' = Some (tag_file ''t'')" by (rule ex_sync)
  have "survives w' (etagPath ''/s'' ex_e) (Some (tag_file ''t''))"
    "\<not> survives (ex_world []) (etagPath ''/s'' ex_e) (Some (tag_file ''t''))"
    using w'(2) by (auto simp: survives_def may_def ex_paths tag_file_def)
  from Sync_tag_last [OF w'(1) _ this] ex_separate w'(1) show ?thesis
    by (auto simp: ex_fetched ex_new_file failing_def)
qed

theorem Sync_success_witness:
  "\<exists>w'. Sync (ex_agent ''t'') ''/s'' ex_e (ex_world []) = (Done (True, None), w')
    \<and> w_fs w' ''/b'' = Some \<lparr>f_data = ''v'', f_mode = 0x1A0, f_synced = True\<rparr> \<and> w_fs w' ''/p'' = ex_files ''/p''"
proof -
  obtain w' where w': "Sync (ex_agent ''t'') ''/s'' ex_e (ex_world []) = (Done (True, None), w')" by (rule ex_sync)
  from Sync_success [OF w'] ex_separate w' show ?thesis by (auto simp: ex_fetched ex_new_file ex_paths)
qed

theorem Sync_then_unchanged_witness:
  "\<exists>w'. Sync (ex_agent ''t'') ''/s'' ex_e (ex_world []) = (Done (True, None), w')
    \<and> stored_tag ''/s'' ex_e w' = ''t'' \<and> Sync (ex_agent ''t'') ''/s'' ex_e w' = (Done (False, None), w')"
proof -
  obtain w' where w': "Sync (ex_agent ''t'') ''/s'' ex_e (ex_world []) = (Done (True, None), w')" "w_fate w' = []"
    "w_fs w' ''/p'' = ex_files ''/p''" "w_fs w' ''/s/app.etag'' = Some (tag_file ''t'')"
    "w_fs w' ''/b'' = Some \<lparr>f_data = ''v'', f_mode = 0x1A0, f_synced = True\<rparr>" by (rule ex_sync)
  have tag: "stored_tag ''/s'' ex_e w' = ''t''"
    using w'(4,5) TrimSpace_newline [of "''t''"] by (simp add: stored_tag_def ex_paths tag_file_def visible_def)
  have "(\<exists>result. fetched (ex_agent ''t'') ex_e result \<and> stored_tag ''/s'' ex_e w' = result_ETag result)
      \<and> Sync (ex_agent ''t'') ''/s'' ex_e w' = (Done (False, None), w')"
    by (rule Sync_then_unchanged [OF w'(1), where pf = "\<lparr>f_data = ''pw'', f_mode = 0x180, f_synced = True\<rparr>"])
      (simp_all add: w'(2,3) ex_separate ex_fetched tag ex_Fetch visible_def)
  with w'(1) tag show ?thesis by blast
qed

section \<open>Where the code does less than its comments say\<close>

text \<open>
  The stored tag \<open>o\<close> is that of the installed files. A new version is installed but its command
  fails, so the old tag stays, as intended; the gateway then gets the old content back, which has
  the old tag again, and answers that nothing changed. The synchronization succeeds and the
  targets keep the version that is no longer the gateway's: a stale tag does not always make the
  next run fetch and install.
\<close>

definition ex_stale :: world where
  "ex_stale = (ex_world
     [Fine, Fine, Fine, Fine, Fine, Fine, Fine, Fine, Fine, Fine, Fine, Fine, Fine, Fine, Fine, Fail 0])
     \<lparr>w_fs := ex_files(''/s/app.etag'' \<mapsto> tag_file ''o'')\<rparr>"

lemma ex_dirs: "dirs (e_Targets ex_e) = [''/'']" "TrimSpace [CHR ''o'', CHR 0x0A] = ''o''"
  by code_simp+

lemmas install_eval = sync_eval os_Sync_def close_temp_def os_Close_def os_Rename_def sync_dir_def os_SyncDir_def
  ex_dirs [simplified] after_install_def touchStamp_def open_stamp_def runCommand_def log_run_def record_etag_def

lemma ex_command_failed: "\<exists>w'. Sync (ex_agent ''t'') ''/s'' ex_e ex_stale = (Done (True, Some CommandFailed), w')
    \<and> w_fate w' = [] \<and> w_fs w' ''/p'' = ex_files ''/p'' \<and> w_fs w' ''/s/app.etag'' = Some (tag_file ''o'')
    \<and> w_fs w' ''/b'' = Some \<lparr>f_data = ''v'', f_mode = 0x1A0, f_synced = True\<rparr>"
  by (simp add: install_eval ex_stale_def tag_file_def)

lemma ex_rollback: "\<exists>w'. Sync (ex_agent ''t'') ''/s'' ex_e ex_stale = (Done (True, Some CommandFailed), w')
    \<and> Sync (ex_agent ''o'') ''/s'' ex_e w' = (Done (False, None), w')
    \<and> w_fs w' ''/b'' = Some \<lparr>f_data = ''v'', f_mode = 0x1A0, f_synced = True\<rparr>"
proof -
  obtain w' where w': "Sync (ex_agent ''t'') ''/s'' ex_e ex_stale = (Done (True, Some CommandFailed), w')"
    "w_fate w' = []" "w_fs w' ''/p'' = ex_files ''/p''" "w_fs w' ''/s/app.etag'' = Some (tag_file ''o'')"
    "w_fs w' ''/b'' = Some \<lparr>f_data = ''v'', f_mode = 0x1A0, f_synced = True\<rparr>" using ex_command_failed by blast
  have "stored_tag ''/s'' ex_e w' = ''o''" using w'(4,5) by (simp add: stored_tag_def ex_paths tag_file_def ex_dirs)
  then have "Sync (ex_agent ''o'') ''/s'' ex_e w' = (Done (False, None), w')"
    using Sync_calm [OF w'(2), of ex_e "\<lparr>f_data = ''pw'', f_mode = 0x180, f_synced = True\<rparr>" "ex_agent ''o''" "''/s''"] w'(3)
    by (simp add: ex_Fetch)
  with w' show ?thesis by blast
qed

text \<open>
  Errors of flushing a directory are dropped. Here the flush fails, the synchronization reports
  success and records the tag; after a loss of power there can be the new tag beside the old
  target, which the next request then leaves alone.
\<close>

definition ex_broken_disk :: world where
  "ex_broken_disk = ex_world [Fine, Fine, Fine, Fine, Fine, Fine, Fine, Fine, Fine, Fail 0]"

lemma ex_unflushed: "\<exists>w'. Sync (ex_agent ''t'') ''/s'' ex_e ex_broken_disk = (Done (True, None), w')
    \<and> survives w' ''/b'' (ex_files ''/b'') \<and> survives w' ''/s/app.etag'' (Some (tag_file ''t''))"
  by (simp add: install_eval ex_broken_disk_def writeFile_def survives_def may_def tag_file_def)

text \<open>A state directory without a directory part puts temporary files elsewhere, not beside their destination.\<close>

lemma ex_relative_state: "temp_for ''/tmp'' (etagPath ''.'' ex_e) n = ''/tmp/.app.etag.tmp'' @ Itoa n"
proof -
  have "etagPath ''.'' ex_e = ''app.etag''" "path_Split ''app.etag'' = ([], ''app.etag'')" by code_simp+
  then show ?thesis by (simp add: temp_for_def temp_name_def prefixAndSuffix_def HasSuffix_def)
qed

end
