(* ===== verification/Agent_Runner.thy ===== *)
theory Agent_Runner
  imports Agent_Fetch
begin

text \<open>
  The rest of \<^verbatim>\<open>agent/internal/fetch/fetch.go\<close>: the runner with its two modes, \<^verbatim>\<open>Once\<close> and
  \<^verbatim>\<open>Serve\<close>, what it logs of a command, and the observer it tells about every synchronization.

  \<^verbatim>\<open>Serve\<close> is a step relation: each exposure's goroutine synchronizes, draws its wait, and after it
  either goes on or stops because the context was cancelled. A synchronization is one step, so the
  system calls of different exposures are not interleaved; their targets are different files. The
  gateway may answer differently each time, and the world may change between the steps.
\<close>

section \<open>The runner\<close>

definition DefaultCommandTimeout :: duration where
  "DefaultCommandTimeout = 2 * minute"

definition maxCommandOutput :: nat where
  "maxCommandOutput = 4 * 1024"

record Runner =
  run_cfg :: agent_Config
  run_client :: Client
  run_stateDir :: string
  run_timeout :: duration

datatype runner_error = IncompleteOptions | StateDirectory

text \<open>\<^verbatim>\<open>NewRunner\<close>; the required pointers are options, and \<open>mkdirAll\<close> says if the directory could be made.\<close>

definition NewRunner :: "(string \<Rightarrow> bool) \<Rightarrow> agent_Config option \<Rightarrow> Client option \<Rightarrow> string \<Rightarrow> bool \<Rightarrow> duration
    \<Rightarrow> runner_error + Runner" where
  "NewRunner mkdirAll cfg client stateDir hasLogger commandTimeout = (case (cfg, client) of
      (Some g, Some c) \<Rightarrow>
        if stateDir = [] \<or> \<not> hasLogger then Inl IncompleteOptions
        else if \<not> mkdirAll stateDir then Inl StateDirectory
        else Inr \<lparr>run_cfg = g, run_client = c, run_stateDir = stateDir,
                  run_timeout = (if commandTimeout \<le> 0 then DefaultCommandTimeout else commandTimeout)\<rparr>
    | _ \<Rightarrow> Inl IncompleteOptions)"

datatype once_error = Cancelled | SyncFailed string sync_error

text \<open>\<^verbatim>\<open>Once\<close>: \<open>cancelled i\<close> is what \<^verbatim>\<open>ctx.Err()\<close> says before the exposure with index \<open>i\<close>.\<close>

fun once_loop :: "Client \<Rightarrow> string \<Rightarrow> (nat \<Rightarrow> bool) \<Rightarrow> nat \<Rightarrow> agent_Exposure list \<Rightarrow> once_error list \<Rightarrow> once_error list io" where
  "once_loop c stateDir cancelled i [] errs = io_return errs"
| "once_loop c stateDir cancelled i (e # es) errs =
     (if cancelled i then io_return (errs @ [Cancelled])
      else io_bind (Sync c stateDir e) (\<lambda>(changed, err).
        once_loop c stateDir cancelled (Suc i) es (case err of None \<Rightarrow> errs | Some x \<Rightarrow> errs @ [SyncFailed (e_Name e) x])))"

definition Once :: "(nat \<Rightarrow> bool) \<Rightarrow> Runner \<Rightarrow> once_error list io" where
  "Once cancelled r = once_loop (run_client r) (run_stateDir r) cancelled 0 (a_Exposures (run_cfg r)) []"

text \<open>The time \<^verbatim>\<open>serveExposure\<close> waits after a synchronization; \<^const>\<open>None\<close> would be a panic of \<^verbatim>\<open>rand.N\<close>.\<close>

definition serve_wait :: "nat \<Rightarrow> duration \<Rightarrow> duration option" where
  "serve_wait entropy interval =
     (let window = go_div interval 10 in
      if 0 < window then map_option (\<lambda>j. interval - go_div window 2 + j) (rand_N entropy window) else Some interval)"

text \<open>What is logged of a command's output.\<close>

definition command_truncate :: "string \<Rightarrow> nat \<Rightarrow> string" where
  "command_truncate s n = (if length s \<le> n then s else ToValidUTF8 (take n s) @ ''...'')"

definition command_output :: "string \<Rightarrow> string option" where
  "command_output output =
     (let trimmed = TrimSpace output in if trimmed = [] then None else Some (command_truncate trimmed maxCommandOutput))"

section \<open>Serve\<close>

text \<open>What the observer is told when a synchronization returns.\<close>

record sync_event =
  se_exposure :: string
  se_changed :: bool
  se_error :: "sync_error option"
  se_now :: int
  se_duration :: duration

text \<open>
  The contract of an \<^verbatim>\<open>Observer\<close>: calls for different exposures, which come concurrently, do not
  interfere. Then only the order of the events of each exposure matters.
\<close>

locale sync_observer =
  fixes observe :: "sync_event \<Rightarrow> 'm \<Rightarrow> 'm"
  assumes commute: "se_exposure a \<noteq> se_exposure b \<Longrightarrow> observe a (observe b m) = observe b (observe a m)"
begin

lemma observe_fold:
  "\<forall>b\<in>set evs. se_exposure b \<noteq> se_exposure a \<Longrightarrow> fold observe evs (observe a m) = observe a (fold observe evs m)"
proof (induction evs arbitrary: m)
  case (Cons b evs)
  then show ?case using commute [of b a] by simp
qed simp

lemma order_irrelevant:
  assumes "\<And>n. filter (\<lambda>ev. se_exposure ev = n) evs = filter (\<lambda>ev. se_exposure ev = n) evs'"
  shows "fold observe evs m = fold observe evs' m"
  using assms
proof (induction evs arbitrary: evs' m)
  case Nil
  have "evs' = []" using Nil [of "se_exposure (hd evs')"] by (cases evs') simp_all
  then show ?case by simp
next
  case (Cons a evs)
  let ?mine = "\<lambda>ev. se_exposure ev = se_exposure a"
  have first: "filter ?mine evs' = a # filter ?mine evs" using Cons.prems [of "se_exposure a"] by simp
  then obtain xs ys where e: "evs' = xs @ a # ys" "\<forall>b\<in>set xs. \<not> ?mine b" by (auto simp: filter_eq_Cons_iff)
  have "filter (\<lambda>ev. se_exposure ev = n) evs = filter (\<lambda>ev. se_exposure ev = n) (xs @ ys)" for n
    using Cons.prems [of n] first e by (cases "n = se_exposure a") auto
  from Cons.IH [OF this, of "observe a m"] have "fold observe (a # evs) m = fold observe ys (fold observe xs (observe a m))" by simp
  also have "\<dots> = fold observe evs' m" using e(2) by (simp add: e(1) observe_fold)
  finally show ?case .
qed

end

text \<open>\<^verbatim>\<open>discardObserver\<close>, for a runner without one.\<close>

definition discardObserver :: "sync_event \<Rightarrow> unit \<Rightarrow> unit" where
  "discardObserver ev m = ()"

interpretation discard: sync_observer discardObserver
  by unfold_locales simp

datatype serve_phase = Ready | Waiting duration | Stopped

record serving =
  sv_world :: world
  sv_phase :: "serve_phase list"
  sv_cancelled :: bool
  sv_events :: "sync_event list"

definition serve_start :: "Runner \<Rightarrow> world \<Rightarrow> serving" where
  "serve_start r w = \<lparr>sv_world = w, sv_phase = replicate (length (a_Exposures (run_cfg r))) Ready, sv_cancelled = False,
     sv_events = []\<rparr>"

inductive serve_step :: "Runner \<Rightarrow> serving \<Rightarrow> serving \<Rightarrow> bool" for r where
  synced: "i < length (sv_phase s) \<Longrightarrow> sv_phase s ! i = Ready \<Longrightarrow> e = a_Exposures (run_cfg r) ! i
    \<Longrightarrow> Sync ((run_client r)\<lparr>c_http := answers\<rparr>) (run_stateDir r) e (sv_world s) = (Done (changed, err), w')
    \<Longrightarrow> serve_wait entropy (e_Interval e) = Some wait
    \<Longrightarrow> serve_step r s (s\<lparr>sv_world := w', sv_phase := (sv_phase s)[i := Waiting wait],
          sv_events := sv_events s @ [\<lparr>se_exposure = e_Name e, se_changed = changed, se_error = err, se_now = now,
            se_duration = took\<rparr>]\<rparr>)"
| elapsed: "i < length (sv_phase s) \<Longrightarrow> sv_phase s ! i = Waiting wait
    \<Longrightarrow> serve_step r s (s\<lparr>sv_phase := (sv_phase s)[i := Ready]\<rparr>)"
| stopped: "i < length (sv_phase s) \<Longrightarrow> sv_phase s ! i = Waiting wait \<Longrightarrow> sv_cancelled s
    \<Longrightarrow> serve_step r s (s\<lparr>sv_phase := (sv_phase s)[i := Stopped]\<rparr>)"
| cancel: "serve_step r s (s\<lparr>sv_cancelled := True\<rparr>)"
| outside: "serve_step r s (s\<lparr>sv_world := w\<rparr>)"

text \<open>\<^verbatim>\<open>Serve\<close> waits for every goroutine.\<close>

definition serve_returned :: "serving \<Rightarrow> bool" where
  "serve_returned s = list_all (\<lambda>p. p = Stopped) (sv_phase s)"

section \<open>Properties\<close>

lemma serve_wait_bounds:
  assumes "0 \<le> interval"
  shows "\<exists>d. serve_wait entropy interval = Some d \<and> 95 * interval \<le> 100 * d \<and> 100 * d \<le> 105 * interval"
proof (cases "0 < interval div 10")
  case False
  with assms show ?thesis by (simp add: serve_wait_def Let_def)
next
  case True
  define win q m where "win = interval div 10" and "q = win div 2" and "m = int entropy mod win"
  have "0 \<le> m" "m < win" using True by (simp_all add: m_def win_def)
  moreover have "10 * win \<le> interval" "2 * q \<le> win" "win \<le> 2 * q + 1" by (simp_all add: win_def q_def)
  moreover have "serve_wait entropy interval = Some (interval - q + m)"
    using True assms by (simp add: serve_wait_def Let_def win_def q_def m_def)
  ultimately show ?thesis by auto
qed

definition phase_ok :: "bool \<Rightarrow> agent_Exposure \<Rightarrow> serve_phase \<Rightarrow> bool" where
  "phase_ok cancelled e p = (case p of
      Ready \<Rightarrow> True
    | Waiting d \<Rightarrow> 95 * e_Interval e \<le> 100 * d \<and> 100 * d \<le> 105 * e_Interval e
    | Stopped \<Rightarrow> cancelled)"

definition serve_inv :: "Runner \<Rightarrow> serving \<Rightarrow> bool" where
  "serve_inv r s \<longleftrightarrow> list_all2 (phase_ok (sv_cancelled s)) (a_Exposures (run_cfg r)) (sv_phase s)
     \<and> se_exposure ` set (sv_events s) \<subseteq> e_Name ` set (a_Exposures (run_cfg r))"

lemma list_all2_update2: "list_all2 P xs ys \<Longrightarrow> i < length ys \<Longrightarrow> P (xs ! i) y \<Longrightarrow> list_all2 P xs (ys[i := y])"
  by (auto simp: list_all2_conv_all_nth nth_list_update)

lemma serve_step_inv:
  assumes "serve_step r s s'" and "serve_inv r s" and "\<forall>e\<in>set (a_Exposures (run_cfg r)). 0 \<le> e_Interval e"
  shows "serve_inv r s'"
  using assms(1)
proof cases
  case (synced i e answers changed err w' entropy wait now took)
  have i: "i < length (a_Exposures (run_cfg r))" using assms(2) synced(2) by (auto simp: serve_inv_def dest: list_all2_lengthD)
  with assms(3) synced(4) have "0 \<le> e_Interval e" "e \<in> set (a_Exposures (run_cfg r))" by auto
  with serve_wait_bounds [of "e_Interval e" entropy] synced(4,6)
  have "phase_ok (sv_cancelled s) (a_Exposures (run_cfg r) ! i) (Waiting wait)" by (simp add: phase_ok_def)
  with assms(2) synced(1,2) \<open>e \<in> _\<close> show ?thesis by (simp add: serve_inv_def list_all2_update2)
next
  case (elapsed i wait)
  with assms(2) show ?thesis by (simp add: serve_inv_def list_all2_update2 phase_ok_def)
next
  case (stopped i wait)
  with assms(2) show ?thesis by (simp add: serve_inv_def list_all2_update2 phase_ok_def)
next
  case cancel
  have "phase_ok (sv_cancelled s) e p \<Longrightarrow> phase_ok True e p" for e p by (simp add: phase_ok_def split: serve_phase.splits)
  with assms(2) cancel show ?thesis by (auto simp: serve_inv_def elim: list_all2_mono)
next
  case (outside w)
  with assms(2) show ?thesis by (simp add: serve_inv_def)
qed

lemma serve_reachable_inv:
  assumes "(serve_step r)\<^sup>*\<^sup>* (serve_start r w) s" and "\<forall>e\<in>set (a_Exposures (run_cfg r)). 0 \<le> e_Interval e"
  shows "serve_inv r s"
  using assms(1)
proof (induction rule: rtranclp_induct)
  case base
  then show ?case by (simp add: serve_inv_def serve_start_def list_all2_conv_all_nth phase_ok_def)
next
  case (step s s')
  with serve_step_inv [OF _ _ assms(2)] show ?case by blast
qed

text \<open>
  C25: polling goes on. In every state \<^verbatim>\<open>Serve\<close> can reach, an exposure has stopped only if the
  context was cancelled, a waiting one waits between 95 and 105 percent of its interval, and
  whatever a synchronization reports, the exposure is scheduled again; \<^verbatim>\<open>Serve\<close> returns only after
  the cancellation.
\<close>

theorem Serve_keeps_polling:
  assumes "(serve_step r)\<^sup>*\<^sup>* (serve_start r w) s" and "list_all agent_exposure_ok (a_Exposures (run_cfg r))"
  shows "(\<forall>i < length (a_Exposures (run_cfg r)). let e = a_Exposures (run_cfg r) ! i in
      (case sv_phase s ! i of
         Stopped \<Rightarrow> sv_cancelled s
       | Waiting d \<Rightarrow> 95 * e_Interval e \<le> 100 * d \<and> 100 * d \<le> 105 * e_Interval e
       | Ready \<Rightarrow> \<forall>answers changed err w'. Sync ((run_client r)\<lparr>c_http := answers\<rparr>) (run_stateDir r) e (sv_world s)
             = (Done (changed, err), w')
           \<longrightarrow> (\<exists>s' wait. serve_step r s s' \<and> sv_world s' = w' \<and> sv_phase s' ! i = Waiting wait)))
    \<and> (serve_returned s \<longrightarrow> sv_cancelled s \<or> a_Exposures (run_cfg r) = [])"
proof -
  let ?es = "a_Exposures (run_cfg r)"
  have pos: "\<forall>e\<in>set ?es. 0 \<le> e_Interval e"
    using assms(2) by (auto simp: list_all_iff agent_exposure_ok_def MinInterval_def second_def)
  note inv = serve_reachable_inv [OF assms(1) pos]
  then have len: "length (sv_phase s) = length ?es" and ok: "\<And>i. i < length ?es \<Longrightarrow> phase_ok (sv_cancelled s) (?es ! i) (sv_phase s ! i)"
    by (auto simp: serve_inv_def list_all2_conv_all_nth)
  have again: "\<exists>s' wait. serve_step r s s' \<and> sv_world s' = w' \<and> sv_phase s' ! i = Waiting wait"
    if "i < length ?es" "sv_phase s ! i = Ready"
      "Sync ((run_client r)\<lparr>c_http := answers\<rparr>) (run_stateDir r) (?es ! i) (sv_world s) = (Done (changed, err), w')"
    for i answers changed err w'
  proof -
    have "0 \<le> e_Interval (?es ! i)" using pos that(1) by simp
    then obtain wait where "serve_wait 0 (e_Interval (?es ! i)) = Some wait" using serve_wait_bounds [of _ 0] by blast
    from serve_step.synced [OF _ that(2) refl that(3) this, of 0 0] that(1) len obtain s' where
      "serve_step r s s'" "sv_world s' = w'" "sv_phase s' = (sv_phase s)[i := Waiting wait]" by auto
    with that(1) len show ?thesis by (intro exI [of _ s'] exI [of _ wait]) simp
  qed
  have "serve_returned s \<Longrightarrow> ?es \<noteq> [] \<Longrightarrow> sv_cancelled s"
    using ok [of 0] len by (auto simp: serve_returned_def list_all_length phase_ok_def)
  moreover have "case sv_phase s ! i of Stopped \<Rightarrow> sv_cancelled s
      | Waiting d \<Rightarrow> 95 * e_Interval (?es ! i) \<le> 100 * d \<and> 100 * d \<le> 105 * e_Interval (?es ! i)
      | Ready \<Rightarrow> \<forall>answers changed err w'. Sync ((run_client r)\<lparr>c_http := answers\<rparr>) (run_stateDir r) (?es ! i) (sv_world s)
             = (Done (changed, err), w')
           \<longrightarrow> (\<exists>s' wait. serve_step r s s' \<and> sv_world s' = w' \<and> sv_phase s' ! i = Waiting wait)"
    if "i < length ?es" for i
  proof (cases "sv_phase s ! i")
    case Ready
    show ?thesis unfolding Ready serve_phase.case using again [OF that Ready] by blast
  qed (insert ok [OF that], auto simp: phase_ok_def)
  ultimately show ?thesis unfolding Let_def by blast
qed

text \<open>
  Synchronizations one after the other: each starts in the world in which the one before has ended,
  and \<open>rs\<close> are their results.
\<close>

fun sync_run :: "Client \<Rightarrow> string \<Rightarrow> agent_Exposure list \<Rightarrow> world \<Rightarrow> (bool \<times> sync_error option) list \<Rightarrow> world \<Rightarrow> bool" where
  "sync_run c stateDir [] w rs w' = (rs = [] \<and> w' = w)"
| "sync_run c stateDir (e # es) w rs w' =
     (\<exists>r rs' w1. rs = r # rs' \<and> Sync c stateDir e w = (Done r, w1) \<and> sync_run c stateDir es w1 rs' w')"

definition report :: "agent_Exposure \<Rightarrow> bool \<times> sync_error option \<Rightarrow> once_error list" where
  "report e r = (case snd r of None \<Rightarrow> [] | Some x \<Rightarrow> [SyncFailed (e_Name e) x])"

text \<open>The number of exposures before the first one at which the context is found cancelled.\<close>

definition reached :: "(nat \<Rightarrow> bool) \<Rightarrow> nat \<Rightarrow> nat \<Rightarrow> bool" where
  "reached cancelled count n \<longleftrightarrow> n \<le> count \<and> (\<forall>i < n. \<not> cancelled i) \<and> (n < count \<longrightarrow> cancelled n)"

definition once_report :: "(nat \<Rightarrow> bool) \<Rightarrow> Runner \<Rightarrow> world \<Rightarrow> once_error list \<Rightarrow> world \<Rightarrow> bool" where
  "once_report cancelled r w errs w' \<longleftrightarrow> (let es = a_Exposures (run_cfg r) in
     \<exists>n rs. reached cancelled (length es) n \<and> sync_run (run_client r) (run_stateDir r) (take n es) w rs w'
       \<and> errs = concat (map2 report (take n es) rs) @ (if n < length es then [Cancelled] else []))"

lemma reached_Suc: "\<not> cancelled i \<Longrightarrow> reached (\<lambda>j. cancelled (Suc i + j)) count n \<Longrightarrow> reached (\<lambda>j. cancelled (i + j)) (Suc count) (Suc n)"
  by (auto simp: reached_def less_Suc_eq_0_disj)

lemma once_loop_cases:
  assumes "once_loop c stateDir cancelled i es errs w = (Done res, w')"
  shows "\<exists>n rs. reached (\<lambda>j. cancelled (i + j)) (length es) n \<and> sync_run c stateDir (take n es) w rs w'
    \<and> res = errs @ concat (map2 report (take n es) rs) @ (if n < length es then [Cancelled] else [])"
  using assms
proof (induction es arbitrary: i errs w)
  case Nil
  then show ?case by (intro exI [of _ 0]) (simp add: reached_def)
next
  case (Cons e es)
  show ?case
  proof (cases "cancelled i")
    case True
    with Cons.prems show ?thesis by (intro exI [of _ 0]) (simp add: reached_def)
  next
    case False
    obtain r w1 where s: "Sync c stateDir e w = (Done r, w1)"
      "once_loop c stateDir cancelled (Suc i) es (errs @ report e r) w1 = (Done res, w')"
    proof -
      have "io_bind (Sync c stateDir e) (\<lambda>(changed, err). once_loop c stateDir cancelled (Suc i) es
          (case err of None \<Rightarrow> errs | Some x \<Rightarrow> errs @ [SyncFailed (e_Name e) x])) w = (Done res, w')"
        using Cons.prems by (simp only: once_loop.simps if_not_P [OF False])
      then obtain changed err w1 where "Sync c stateDir e w = (Done (changed, err), w1)"
        "once_loop c stateDir cancelled (Suc i) es (case err of None \<Rightarrow> errs | Some x \<Rightarrow> errs @ [SyncFailed (e_Name e) x]) w1
          = (Done res, w')" by (auto simp: io_bind_Done_iff)
      then show thesis by (intro that [of "(changed, err)" w1]) (simp_all add: report_def split: option.splits)
    qed
    obtain n rs where n: "reached (\<lambda>j. cancelled (Suc i + j)) (length es) n" "sync_run c stateDir (take n es) w1 rs w'"
      "res = (errs @ report e r) @ concat (map2 report (take n es) rs) @ (if n < length es then [Cancelled] else [])"
      using Cons.IH [OF s(2)] by blast
    with s(1) reached_Suc [OF False n(1)] show ?thesis
      by (intro exI [of _ "Suc n"] exI [of _ "r # rs"]) simp
  qed
qed

lemma Once_report: "Once cancelled r w = (Done errs, w') \<Longrightarrow> once_report cancelled r w errs w'"
  unfolding Once_def once_report_def Let_def by (drule once_loop_cases) simp

text \<open>
  C24: one broken exposure hides no other. A pass over all exposures synchronizes the first \<open>n\<close> of
  them, in order, each in the world that the one before has left and whatever it reported; \<open>n\<close> is
  the number of all, unless the context was found cancelled before an exposure. The pass starts in
  the given world and ends in the final one, and it reports exactly the errors of the
  synchronizations that failed, in their order, and last the cancellation, if there was one.
\<close>

theorem Once_attempts_all:
  assumes "Once cancelled r w = (Done errs, w')"
  shows "let es = a_Exposures (run_cfg r) in \<exists>n rs.
    n \<le> length es \<and> (\<forall>i < n. \<not> cancelled i) \<and> (n < length es \<longrightarrow> cancelled n)
    \<and> sync_run (run_client r) (run_stateDir r) (take n es) w rs w'
    \<and> errs = concat (map2 report (take n es) rs) @ (if n < length es then [Cancelled] else [])"
  using Once_report [OF assms] by (auto simp: once_report_def reached_def Let_def)

section \<open>Examples\<close>

definition ex_runner :: Runner where
  "ex_runner = \<lparr>run_cfg = \<lparr>a_Gateway = \<lparr>gw_URL = Some (zero_URL\<lparr>url_Scheme := ''https'', url_Host := ''gw''\<rparr>), gw_CAFile = [],
       gw_Timeout = DefaultTimeout\<rparr>, a_MetricsListenAddress = agent_DefaultMetricsListenAddress, a_Exposures = [ex_e]\<rparr>,
     run_client = ex_agent ''t'', run_stateDir = ''/s'', run_timeout = DefaultCommandTimeout\<rparr>"

lemma ex_runner_sel [simp]: "a_Exposures (run_cfg ex_runner) = [ex_e]" "run_client ex_runner = ex_agent ''t''"
  "run_stateDir ex_runner = ''/s''"
  by (simp_all add: ex_runner_def)

text \<open>Two exposures: the password of the first cannot be read, the second is installed.\<close>

definition ex_broken :: agent_Exposure where
  "ex_broken = ex_e\<lparr>e_Name := ''x'', e_Auth := \<lparr>Username = ''u'', PasswordFile = ''/none''\<rparr>\<rparr>"

definition ex_pair :: Runner where
  "ex_pair = ex_runner\<lparr>run_cfg := (run_cfg ex_runner)\<lparr>a_Exposures := [ex_broken, ex_e]\<rparr>\<rparr>"

lemma ex_broken_sync:
  "Sync c stateDir ex_broken (ex_world []) = (Done (False, Some (Credentials PasswordUnreadable)), ex_world [])"
  by (simp add: Sync_def ex_broken_def ex_world_def ex_files_def Auth_Resolve_def)

theorem Once_attempts_all_witness:
  "\<exists>w' rs. Once (\<lambda>_. False) ex_pair (ex_world []) = (Done [SyncFailed ''x'' (Credentials PasswordUnreadable)], w')
    \<and> sync_run (ex_agent ''t'') ''/s'' [ex_broken, ex_e] (ex_world []) rs w' \<and> map fst rs = [False, True]"
proof -
  obtain w1 where w1: "Sync (ex_agent ''t'') ''/s'' ex_e (ex_world []) = (Done (True, None), w1)" by (rule ex_sync)
  have sel: "run_client ex_pair = ex_agent ''t''" "run_stateDir ex_pair = ''/s''"
    "a_Exposures (run_cfg ex_pair) = [ex_broken, ex_e]" by (simp_all add: ex_pair_def)
  have n: "e_Name ex_broken = ''x''" by (simp add: ex_broken_def)
  have once: "Once (\<lambda>_. False) ex_pair (ex_world []) = (Done [SyncFailed ''x'' (Credentials PasswordUnreadable)], w1)"
    unfolding Once_def sel by (simp add: io_bind_Done_iff ex_broken_sync w1 n)
  from Once_attempts_all [OF this] obtain rs where rs: "sync_run (ex_agent ''t'') ''/s'' [ex_broken, ex_e] (ex_world []) rs w1"
    by (auto simp: sel Let_def numeral_2_eq_2 le_Suc_eq less_Suc_eq split: if_splits)
  then have fst: "map fst rs = [False, True]" by (auto simp: ex_broken_sync w1)
  show ?thesis by (intro exI [of _ w1] exI [of _ rs] conjI once rs fst)
qed

theorem Serve_keeps_polling_witness:
  "\<exists>s d. (serve_step ex_runner)\<^sup>*\<^sup>* (serve_start ex_runner (ex_world [])) s \<and> sv_phase s = [Waiting d]
    \<and> 95 * DefaultInterval \<le> 100 * d \<and> 100 * d \<le> 105 * DefaultInterval"
proof -
  obtain w' where w': "Sync (ex_agent ''t'') ''/s'' ex_e (ex_world []) = (Done (True, None), w')" by (rule ex_sync)
  obtain d where d: "serve_wait 7 (e_Interval ex_e) = Some d"
    using serve_wait_bounds [of "e_Interval ex_e" 7] by (auto simp: ex_e_def ex_agent_exposure_def DefaultInterval_def minute_def second_def)
  let ?s = "serve_start ex_runner (ex_world [])" and ?ev = "\<lparr>se_exposure = e_Name ex_e, se_changed = True, se_error = None,
      se_now = 0, se_duration = 0\<rparr>"
  define s where "s = ?s\<lparr>sv_world := w', sv_phase := (sv_phase ?s)[0 := Waiting d], sv_events := sv_events ?s @ [?ev]\<rparr>"
  have "serve_step ex_runner ?s s" unfolding s_def
    by (rule serve_step.synced [where answers = "c_http (ex_agent ''t'')" and entropy = 7]) (simp_all add: serve_start_def w' d)
  then have s: "(serve_step ex_runner)\<^sup>*\<^sup>* ?s s" "sv_phase s = [Waiting d]" by (simp_all add: s_def serve_start_def)
  have "list_all agent_exposure_ok [ex_e]"
    by code_simp
  with Serve_keeps_polling [OF s(1)] s(2) have "95 * DefaultInterval \<le> 100 * d \<and> 100 * d \<le> 105 * DefaultInterval"
    by (simp add: ex_e_def ex_agent_exposure_def)
  with s show ?thesis by blast
qed

end
