(* ===== verification/Agent_Metrics.thy ===== *)
theory Agent_Metrics
  imports Agent_Runner
begin

text \<open>
  \<^verbatim>\<open>agent/internal/metrics/metrics.go\<close>: the vectors that \<^verbatim>\<open>ObserveSync\<close> updates after every
  synchronization. A vector maps the values of its label to a series; \<^verbatim>\<open>WithLabelValues\<close> makes a
  missing one. A time is the count of nanoseconds that the code divides by \<open>1e9\<close>, and a histogram the
  list of its observations. The registry and the text format belong to the Prometheus library; if a
  registration succeeds is a parameter.
\<close>

section \<open>Model\<close>

type_synonym 'a vec = "string \<rightharpoonup> 'a"

definition with_label :: "'a \<Rightarrow> string \<Rightarrow> ('a \<Rightarrow> 'a) \<Rightarrow> 'a vec \<Rightarrow> 'a vec" where
  "with_label zero name f v = v(name \<mapsto> f (case v name of None \<Rightarrow> zero | Some x \<Rightarrow> x))"

record agent_Metrics =
  am_attempts :: "nat vec"
  am_errors :: "nat vec"
  am_changes :: "nat vec"
  am_healthy :: "nat vec"
  am_lastAttempt :: "int vec"
  am_lastSuccess :: "int vec"
  am_lastChange :: "int vec"
  am_duration :: "duration list vec"

definition empty_metrics :: agent_Metrics where
  "empty_metrics = \<lparr>am_attempts = Map.empty, am_errors = Map.empty, am_changes = Map.empty, am_healthy = Map.empty,
     am_lastAttempt = Map.empty, am_lastSuccess = Map.empty, am_lastChange = Map.empty, am_duration = Map.empty\<rparr>"

definition metric_names :: "string list" where
  "metric_names = [''go'', ''process''] @ map (\<lambda>n. ''kube_secret_gateway_agent_'' @ n)
     [''build_info'', ''sync_attempts_total'', ''sync_errors_total'', ''changes_total'', ''exposure_healthy'',
      ''last_attempt_timestamp_seconds'', ''last_successful_sync_timestamp_seconds'', ''last_change_timestamp_seconds'',
      ''sync_duration_seconds'']"

definition init_exposure :: "agent_Exposure \<Rightarrow> agent_Metrics \<Rightarrow> agent_Metrics" where
  "init_exposure e m =
     (let n = e_Name e in m\<lparr>
        am_attempts := with_label 0 n (\<lambda>x. x + 0) (am_attempts m),
        am_errors := with_label 0 n (\<lambda>x. x + 0) (am_errors m),
        am_changes := with_label 0 n (\<lambda>x. x + 0) (am_changes m),
        am_healthy := with_label 0 n (\<lambda>_. 0) (am_healthy m),
        am_lastAttempt := with_label 0 n (\<lambda>_. 0) (am_lastAttempt m),
        am_lastSuccess := with_label 0 n (\<lambda>_. 0) (am_lastSuccess m),
        am_lastChange := with_label 0 n (\<lambda>_. 0) (am_lastChange m),
        am_duration := with_label [] n id (am_duration m)\<rparr>)"

definition agent_Metrics_New :: "(string \<Rightarrow> bool) \<Rightarrow> agent_Exposure list \<Rightarrow> agent_Metrics option" where
  "agent_Metrics_New register exposures =
     (if list_all register metric_names then Some (fold init_exposure exposures empty_metrics) else None)"

definition ObserveSync :: "sync_event \<Rightarrow> agent_Metrics \<Rightarrow> agent_Metrics" where
  "ObserveSync ev m =
     (let n = se_exposure ev;
          m1 = m\<lparr>am_attempts := with_label 0 n Suc (am_attempts m),
                 am_lastAttempt := with_label 0 n (\<lambda>_. se_now ev) (am_lastAttempt m),
                 am_duration := with_label [] n (\<lambda>d. d @ [se_duration ev]) (am_duration m)\<rparr>
      in if se_error ev \<noteq> None
         then m1\<lparr>am_errors := with_label 0 n Suc (am_errors m1), am_healthy := with_label 0 n (\<lambda>_. 0) (am_healthy m1)\<rparr>
         else let m2 = m1\<lparr>am_healthy := with_label 0 n (\<lambda>_. 1) (am_healthy m1),
                          am_lastSuccess := with_label 0 n (\<lambda>_. se_now ev) (am_lastSuccess m1)\<rparr>
           in if se_changed ev
              then m2\<lparr>am_changes := with_label 0 n Suc (am_changes m2),
                      am_lastChange := with_label 0 n (\<lambda>_. se_now ev) (am_lastChange m2)\<rparr>
              else m2)"

section \<open>The metrics as an observer\<close>

lemma with_label_commute:
  "n \<noteq> n' \<Longrightarrow> with_label z n f (with_label z' n' g v) = with_label z' n' g (with_label z n f v)"
  by (simp add: with_label_def fun_upd_twist)

lemma with_label_apply: "with_label z n f v k = (if k = n then Some (f (case v n of None \<Rightarrow> z | Some x \<Rightarrow> x)) else v k)"
  by (simp add: with_label_def)

interpretation metrics: sync_observer ObserveSync
proof
  fix a b :: sync_event and m
  assume "se_exposure a \<noteq> se_exposure b"
  then show "ObserveSync a (ObserveSync b m) = ObserveSync b (ObserveSync a m)"
    by (cases "se_error a = None"; cases "se_error b = None"; cases "se_changed a"; cases "se_changed b")
      (simp_all add: ObserveSync_def Let_def with_label_commute [of "se_exposure a" "se_exposure b"])
qed

section \<open>The metrics as functions of what happened\<close>

text \<open>The series of one exposure, from the events of that exposure.\<close>

definition last_time :: "sync_event list \<Rightarrow> int" where
  "last_time evs = (if evs = [] then 0 else se_now (last evs))"

definition ok_events :: "sync_event list \<Rightarrow> sync_event list" where
  "ok_events evs = filter (\<lambda>ev. se_error ev = None) evs"

text \<open>
  The time of the last change is left open where a synchronization has installed its targets and then
  failed, see the end of this theory.
\<close>

definition series_tell :: "string \<Rightarrow> sync_event list \<Rightarrow> agent_Metrics \<Rightarrow> bool" where
  "series_tell n evs m \<longleftrightarrow>
     am_attempts m n = Some (length evs)
   \<and> am_errors m n = Some (length (filter (\<lambda>ev. se_error ev \<noteq> None) evs))
   \<and> am_changes m n = Some (length (filter se_changed (ok_events evs)))
   \<and> am_healthy m n = Some (if evs \<noteq> [] \<and> se_error (last evs) = None then 1 else 0)
   \<and> am_lastAttempt m n = Some (last_time evs)
   \<and> am_lastSuccess m n = Some (last_time (ok_events evs))
   \<and> (list_all (\<lambda>ev. se_changed ev \<longrightarrow> se_error ev = None) evs
        \<longrightarrow> am_lastChange m n = Some (last_time (filter se_changed evs)))
   \<and> am_duration m n = Some (map se_duration evs)"

text \<open>What the code does in every case.\<close>

definition series_exact :: "string \<Rightarrow> sync_event list \<Rightarrow> agent_Metrics \<Rightarrow> bool" where
  "series_exact n evs m \<longleftrightarrow>
     am_attempts m n = Some (length evs)
   \<and> am_errors m n = Some (length (filter (\<lambda>ev. se_error ev \<noteq> None) evs))
   \<and> am_changes m n = Some (length (filter se_changed (ok_events evs)))
   \<and> am_healthy m n = Some (if evs \<noteq> [] \<and> se_error (last evs) = None then 1 else 0)
   \<and> am_lastAttempt m n = Some (last_time evs)
   \<and> am_lastSuccess m n = Some (last_time (ok_events evs))
   \<and> am_lastChange m n = Some (last_time (filter se_changed (ok_events evs)))
   \<and> am_duration m n = Some (map se_duration evs)"

lemma series_exact_tell:
  assumes "series_exact n evs m"
  shows "series_tell n evs m"
proof -
  have "filter se_changed (ok_events evs) = filter se_changed evs" if "list_all (\<lambda>ev. se_changed ev \<longrightarrow> se_error ev = None) evs"
    using that by (auto simp: ok_events_def list_all_iff intro: filter_cong)
  with assms show ?thesis by (simp add: series_exact_def series_tell_def)
qed

lemma ObserveSync_exact:
  assumes "series_exact n evs m"
  shows "series_exact n (if se_exposure ev = n then evs @ [ev] else evs) (ObserveSync ev m)"
  using assms
  by (cases "se_error ev = None"; cases "se_changed ev"; cases "se_exposure ev = n")
    (simp_all add: series_exact_def ObserveSync_def Let_def with_label_apply ok_events_def last_time_def)

lemma fold_ObserveSync_exact:
  "series_exact n old m \<Longrightarrow> series_exact n (old @ filter (\<lambda>ev. se_exposure ev = n) evs) (fold ObserveSync evs m)"
proof (induction evs arbitrary: old m)
  case (Cons ev evs)
  from Cons.IH [OF ObserveSync_exact [OF Cons.prems, of ev]] show ?case by (cases "se_exposure ev = n") simp_all
qed simp

definition no_series :: "string \<Rightarrow> agent_Metrics \<Rightarrow> bool" where
  "no_series n m \<longleftrightarrow> am_attempts m n = None \<and> am_errors m n = None \<and> am_changes m n = None \<and> am_healthy m n = None
     \<and> am_lastAttempt m n = None \<and> am_lastSuccess m n = None \<and> am_lastChange m n = None \<and> am_duration m n = None"

definition blank :: "string set \<Rightarrow> agent_Metrics \<Rightarrow> bool" where
  "blank names m \<longleftrightarrow> (\<forall>n. if n \<in> names then series_exact n [] m
     else no_series n m)"

lemma init_exposure_own:
  "series_exact (e_Name e) [] m \<or> no_series (e_Name e) m \<Longrightarrow> series_exact (e_Name e) [] (init_exposure e m)"
  by (elim disjE) (simp_all add: series_exact_def no_series_def init_exposure_def Let_def with_label_apply ok_events_def last_time_def)

lemma init_exposure_other:
  "n \<noteq> e_Name e \<Longrightarrow> series_exact n [] (init_exposure e m) = series_exact n [] m \<and> no_series n (init_exposure e m) = no_series n m"
  by (simp add: series_exact_def no_series_def init_exposure_def Let_def with_label_apply)

lemma init_exposure_blank:
  assumes "blank names m"
  shows "blank (insert (e_Name e) names) (init_exposure e m)"
  unfolding blank_def
proof
  fix n
  have n: "if n \<in> names then series_exact n [] m else no_series n m" using assms by (simp add: blank_def)
  show "if n \<in> insert (e_Name e) names then series_exact n [] (init_exposure e m) else no_series n (init_exposure e m)"
  proof (cases "n = e_Name e")
    case True
    with n init_exposure_own [of e m] show ?thesis by (simp split: if_splits)
  next
    case False
    with n init_exposure_other [OF False, of m] show ?thesis by simp
  qed
qed

lemma New_blank: "agent_Metrics_New register exposures = Some m \<Longrightarrow> blank (e_Name ` set exposures) m"
proof -
  have "blank names m0 \<Longrightarrow> blank (e_Name ` set exposures \<union> names) (fold init_exposure exposures m0)" for names m0
  proof (induction exposures arbitrary: names m0)
    case (Cons e es)
    from Cons.IH [OF init_exposure_blank [OF Cons.prems]] show ?case by simp
  qed simp
  moreover have "blank {} empty_metrics" by (simp add: blank_def no_series_def empty_metrics_def)
  ultimately have "blank (e_Name ` set exposures \<union> {}) (fold init_exposure exposures empty_metrics)" by blast
  then show "agent_Metrics_New register exposures = Some m \<Longrightarrow> blank (e_Name ` set exposures) m"
    by (simp add: agent_Metrics_New_def split: if_splits)
qed

lemma ObserveSync_no_series: "no_series n m \<Longrightarrow> n \<noteq> se_exposure ev \<Longrightarrow> no_series n (ObserveSync ev m)"
  by (simp add: no_series_def ObserveSync_def Let_def with_label_apply)

lemma fold_no_series: "no_series n m \<Longrightarrow> n \<notin> se_exposure ` set evs \<Longrightarrow> no_series n (fold ObserveSync evs m)"
  by (induction evs arbitrary: m) (simp_all add: ObserveSync_no_series)

text \<open>
  C26: the metrics tell what their descriptions say. While \<^verbatim>\<open>Serve\<close> runs, in any interleaving, the
  series of every configured exposure are functions of its synchronizations so far: the number of
  attempts, of errors and of successful ones that installed changed targets, if the last one
  succeeded, when the last attempt and the last success were, and all durations. The time of the
  last change is the time at which targets were last installed, as long as no synchronization of
  this exposure has installed its targets and failed after that; for the other case nothing is
  claimed, since the code and the description differ there. No other exposure ever gets a series.
\<close>

theorem agent_metrics_tell:
  assumes "(serve_step r)\<^sup>*\<^sup>* (serve_start r w) s" and "list_all agent_exposure_ok (a_Exposures (run_cfg r))"
    and "agent_Metrics_New register (a_Exposures (run_cfg r)) = Some m0"
  shows "if n \<in> e_Name ` set (a_Exposures (run_cfg r))
    then series_tell n (filter (\<lambda>ev. se_exposure ev = n) (sv_events s)) (fold ObserveSync (sv_events s) m0)
    else no_series n (fold ObserveSync (sv_events s) m0)"
proof -
  have "\<forall>e\<in>set (a_Exposures (run_cfg r)). 0 \<le> e_Interval e"
    using assms(2) by (auto simp: list_all_iff agent_exposure_ok_def MinInterval_def second_def)
  from serve_reachable_inv [OF assms(1) this]
  have ev: "se_exposure ` set (sv_events s) \<subseteq> e_Name ` set (a_Exposures (run_cfg r))" by (simp add: serve_inv_def)
  note b = New_blank [OF assms(3)]
  show ?thesis
  proof (cases "n \<in> e_Name ` set (a_Exposures (run_cfg r))")
    case True
    with b have "series_exact n [] m0" unfolding blank_def by (metis (full_types))
    from series_exact_tell [OF fold_ObserveSync_exact [OF this]] True show ?thesis by simp
  next
    case False
    with b have "no_series n m0" by (auto simp: blank_def)
    moreover have "n \<notin> se_exposure ` set (sv_events s)" using ev False by blast
    ultimately show ?thesis using False fold_no_series by simp
  qed
qed

theorem agent_metrics_tell_witness:
  "\<exists>m0 s. agent_Metrics_New (\<lambda>_. True) (a_Exposures (run_cfg ex_runner)) = Some m0
    \<and> (serve_step ex_runner)\<^sup>*\<^sup>* (serve_start ex_runner (ex_world [])) s \<and> length (sv_events s) = 1
    \<and> (let m = fold ObserveSync (sv_events s) m0 in am_attempts m ''app'' = Some 1 \<and> am_changes m ''app'' = Some 1
        \<and> am_healthy m ''app'' = Some 1 \<and> am_lastChange m ''app'' = Some 42 \<and> am_attempts m ''other'' = None)"
proof -
  obtain w' where w': "Sync (ex_agent ''t'') ''/s'' ex_e (ex_world []) = (Done (True, None), w')" by (rule ex_sync)
  obtain d where d: "serve_wait 7 (e_Interval ex_e) = Some d"
    using serve_wait_bounds [of "e_Interval ex_e" 7] by (auto simp: ex_e_def ex_agent_exposure_def DefaultInterval_def minute_def second_def)
  let ?s = "serve_start ex_runner (ex_world [])" and ?ev = "\<lparr>se_exposure = e_Name ex_e, se_changed = True, se_error = None,
      se_now = 42, se_duration = 0\<rparr>"
  define s where "s = ?s\<lparr>sv_world := w', sv_phase := (sv_phase ?s)[0 := Waiting d], sv_events := sv_events ?s @ [?ev]\<rparr>"
  have "serve_step ex_runner ?s s" unfolding s_def
    by (rule serve_step.synced [where answers = "c_http (ex_agent ''t'')" and entropy = 7]) (simp_all add: serve_start_def w' d)
  then have s: "(serve_step ex_runner)\<^sup>*\<^sup>* ?s s" by simp
  have name: "e_Name ex_e = ''app''" by (simp add: ex_e_def ex_agent_exposure_def)
  have evs: "sv_events s = [?ev]" by (simp add: s_def serve_start_def)
  have ok: "list_all agent_exposure_ok (a_Exposures (run_cfg ex_runner))" unfolding ex_runner_sel by code_simp
  obtain m0 where m: "agent_Metrics_New (\<lambda>_. True) (a_Exposures (run_cfg ex_runner)) = Some m0"
    by (simp add: agent_Metrics_New_def list_all_iff)
  have "series_tell ''app'' [?ev] (fold ObserveSync (sv_events s) m0)"
    using agent_metrics_tell [OF s ok m, of "''app''"] by (simp add: evs name)
  moreover have "no_series ''other'' (fold ObserveSync (sv_events s) m0)"
    using agent_metrics_tell [OF s ok m, of "''other''"] by (simp add: name)
  ultimately have "let m = fold ObserveSync (sv_events s) m0 in am_attempts m ''app'' = Some 1 \<and> am_changes m ''app'' = Some 1
      \<and> am_healthy m ''app'' = Some 1 \<and> am_lastChange m ''app'' = Some 42 \<and> am_attempts m ''other'' = None"
    by (simp add: series_tell_def no_series_def ok_events_def last_time_def Let_def)
  moreover have "length (sv_events s) = 1" by (simp add: evs)
  ultimately show ?thesis using m s by blast
qed

text \<open>
  Targets that were installed before the command failed do not move the time of the last change,
  although its description says when targets were last installed.
\<close>

lemma change_not_told: "se_error ev \<noteq> None \<Longrightarrow> am_lastChange (ObserveSync ev m) = am_lastChange m"
  by (simp add: ObserveSync_def Let_def)

end
