(* ===== verification/Agent_Main.thy ===== *)
theory Agent_Main
  imports Agent_Metrics Go_Case
begin

text \<open>
  \<^verbatim>\<open>agent/cmd/kube-secret-gateway-agent/main.go\<close>: the command. Parsing of the command line by the
  \<^verbatim>\<open>flag\<close> package, the YAML decoder, certificate parsing, the HTTP transport, making a directory
  and registration of metrics are parameters; files are read from the world. What is printed is
  not modelled, the exit code is. In the continuous mode the result of the start is the runner, and
  \<open>serve_exit\<close> is the exit code by how the run then ends.
\<close>

section \<open>Model\<close>

record agent_flags =
  fl_config :: string
  fl_stateDir :: string
  fl_once :: bool
  fl_only :: string
  fl_commandTimeout :: duration
  fl_logLevel :: string
  fl_logFormat :: string
  fl_check :: bool
  fl_version :: bool

definition agent_parseLevel :: "string \<Rightarrow> slog_Level option" where
  "agent_parseLevel s =
     (if ToLower_is s ''debug'' then Some slog_LevelDebug
      else if ToLower_is s ''info'' then Some slog_LevelInfo
      else if ToLower_is s ''warn'' \<or> ToLower_is s ''warning'' then Some slog_LevelWarn
      else if ToLower_is s ''error'' then Some slog_LevelError
      else None)"

datatype log_handler = TextHandler slog_Level | JSONHandler slog_Level

definition agent_newLogger :: "slog_Level \<Rightarrow> string \<Rightarrow> log_handler option" where
  "agent_newLogger level format =
     (if ToLower_is format ''text'' then Some (TextHandler level)
      else if ToLower_is format ''json'' then Some (JSONHandler level)
      else None)"

datatype select_error = NoSuchExposure "string list" "string list" | SelectedNothing

fun select_loop :: "agent_Exposure list \<Rightarrow> string list \<Rightarrow> string list \<Rightarrow> agent_Exposure list
    \<Rightarrow> string list \<times> agent_Exposure list" where
  "select_loop es [] unknown chosen = (unknown, chosen)"
| "select_loop es (raw # wanted) unknown chosen =
     (let name = TrimSpace raw in
      if name = [] then select_loop es wanted unknown chosen
      else case find (\<lambda>e. e_Name e = name) es of
          None \<Rightarrow> select_loop es wanted (unknown @ [name]) chosen
        | Some e \<Rightarrow>
          if list_ex (\<lambda>c. e_Name c = name) chosen then select_loop es wanted unknown chosen
          else select_loop es wanted unknown (chosen @ [e]))"

definition selectExposures :: "agent_Config \<Rightarrow> string \<Rightarrow> select_error + agent_Config" where
  "selectExposures cfg only =
     (if only = [] then Inr cfg
      else case select_loop (a_Exposures cfg) (Split only (CHR '','')) [] [] of (unknown, chosen) \<Rightarrow>
        if unknown \<noteq> [] then Inl (NoSuchExposure unknown (map e_Name (a_Exposures cfg)))
        else if chosen = [] then Inl SelectedNothing
        else Inr (cfg\<lparr>a_Exposures := chosen\<rparr>))"

definition resolve_credentials :: "agent_Exposure \<Rightarrow> (password_error + string \<times> string) io" where
  "resolve_credentials e = io_bind (os_Read (PasswordFile (e_Auth e)) f_data) (\<lambda>content.
     io_return (Auth_Resolve (e_Auth e) (case content of Content d \<Rightarrow> Some d | _ \<Rightarrow> None)))"

fun checkCredentials :: "agent_Exposure list \<Rightarrow> (string \<times> password_error) list \<Rightarrow> (string \<times> password_error) list io" where
  "checkCredentials [] errs = io_return errs"
| "checkCredentials (e # es) errs = io_bind (resolve_credentials e) (\<lambda>res.
     checkCredentials es (case res of Inl err \<Rightarrow> errs @ [(e_Name e, err)] | Inr _ \<Rightarrow> errs))"

record 'pool agent_env =
  env_parse :: "string list \<Rightarrow> (agent_flags \<times> string list) option"
  env_first :: "bytes \<Rightarrow> agent_document yaml_decoded"
  env_second :: "bytes \<Rightarrow> unit yaml_decoded"
  env_certs :: "bytes \<Rightarrow> 'pool option"
  env_transport :: "'pool option \<Rightarrow> duration \<Rightarrow> client_request \<Rightarrow> string + client_response"
  env_mkdirAll :: "string \<Rightarrow> bool"
  env_register :: "string \<Rightarrow> bool"
  env_cancelled :: "nat \<Rightarrow> bool"
  env_listen :: "string \<Rightarrow> bool"

datatype run_result = Exit nat | Serving Runner agent_Metrics

text \<open>The client of a configuration; a missing URL would be a nil pointer, excluded by \<open>agent_config_ok\<close>.\<close>

definition make_client :: "'pool agent_env \<Rightarrow> string \<Rightarrow> (string \<rightharpoonup> File) \<Rightarrow> Gateway \<Rightarrow> Client option" where
  "make_client env version files g = (case gw_URL g of
      None \<Rightarrow> None
    | Some u \<Rightarrow> (case Client_New (\<lambda>p. map_option f_data (files p)) (env_certs env) (env_transport env) u (gw_CAFile g)
          (gw_Timeout g) version of Inl _ \<Rightarrow> None | Inr c \<Rightarrow> Some c))"

definition start_runner :: "'pool agent_env \<Rightarrow> string \<Rightarrow> agent_flags \<Rightarrow> agent_Config \<Rightarrow> run_result io" where
  "start_runner env version flags cfg w = (case make_client env version (w_fs w) (a_Gateway cfg) of
      None \<Rightarrow> io_return (Exit 2) w
    | Some c \<Rightarrow> (case agent_Metrics_New (env_register env) (a_Exposures cfg) of
        None \<Rightarrow> io_return (Exit 2) w
      | Some m \<Rightarrow> (case NewRunner (env_mkdirAll env) (Some cfg) (Some c) (fl_stateDir flags) True (fl_commandTimeout flags) of
          Inl _ \<Rightarrow> io_return (Exit 2) w
        | Inr r \<Rightarrow>
          if fl_once flags then io_bind (Once (env_cancelled env) r) (\<lambda>errs. io_return (Exit (if errs \<noteq> [] then 1 else 0))) w
          else if \<not> env_listen env (a_MetricsListenAddress cfg) then io_return (Exit 1) w
          else io_return (Serving r m) w)))"

definition agent_run :: "'pool agent_env \<Rightarrow> string \<Rightarrow> string list \<Rightarrow> run_result io" where
  "agent_run env version args = (case env_parse env args of
      None \<Rightarrow> io_return (Exit 2)
    | Some (flags, rest) \<Rightarrow>
      if rest \<noteq> [] then io_return (Exit 2)
      else if fl_version flags then io_return (Exit 0)
      else (case agent_parseLevel (fl_logLevel flags) of
          None \<Rightarrow> io_return (Exit 2)
        | Some level \<Rightarrow>
          if agent_newLogger level (fl_logFormat flags) = None then io_return (Exit 2)
          else io_bind (os_Read (fl_config flags) f_data) (\<lambda>content.
            case agent_Load (env_first env) (env_second env)
                (\<lambda>_. case content of Content d \<Rightarrow> Inr d | _ \<Rightarrow> Inl []) (fl_config flags) of
              Inl _ \<Rightarrow> io_return (Exit 2)
            | Inr loaded \<Rightarrow> (case selectExposures loaded (fl_only flags) of
                Inl _ \<Rightarrow> io_return (Exit 2)
              | Inr cfg \<Rightarrow> io_bind (checkCredentials (a_Exposures cfg) []) (\<lambda>errs.
                  if errs \<noteq> [] then io_return (Exit 2)
                  else if fl_check flags then io_return (Exit 0)
                  else start_runner env version flags cfg)))))"

text \<open>How the continuous mode ends: the runner is done, or the metrics listener stopped first.\<close>

datatype serve_end = RunnerDone | ServerStopped bool

definition serve_exit :: "serve_end \<Rightarrow> bool \<Rightarrow> nat" where
  "serve_exit how shutdownFailed =
     (let exitCode = (case how of RunnerDone \<Rightarrow> 0 | ServerStopped serverClosed \<Rightarrow> if \<not> serverClosed then 1 else 0)
      in if shutdownFailed then 1 else exitCode)"

section \<open>Selecting exposures\<close>

text \<open>The names on the command line, and the exposures as the first with each of them.\<close>

definition wanted_names :: "string \<Rightarrow> string list" where
  "wanted_names only = filter (\<lambda>n. n \<noteq> []) (map TrimSpace (Split only (CHR '','')))"

fun first_mentions :: "string list \<Rightarrow> string list \<Rightarrow> string list" where
  "first_mentions seen [] = []"
| "first_mentions seen (n # ns) = (if n \<in> set seen then first_mentions seen ns else n # first_mentions (seen @ [n]) ns)"

definition configured :: "agent_Exposure list \<Rightarrow> string \<Rightarrow> agent_Exposure" where
  "configured es n = the (find (\<lambda>e. e_Name e = n) es)"

lemma find_Some_mem: "find P xs = Some x \<Longrightarrow> P x \<and> x \<in> set xs"
  by (induction xs) (auto split: if_splits)

lemma find_None_name: "find (\<lambda>e. e_Name e = n) es = None \<longleftrightarrow> n \<notin> e_Name ` set es"
  by (auto simp: find_None_iff)

lemma select_loop_spec:
  assumes "select_loop es raw unknown chosen = (unknown', chosen')"
  shows "unknown' = unknown @ filter (\<lambda>n. n \<notin> e_Name ` set es) (filter (\<lambda>n. n \<noteq> []) (map TrimSpace raw))
    \<and> chosen' = chosen @ map (configured es) (first_mentions (map e_Name chosen)
        (filter (\<lambda>n. n \<in> e_Name ` set es) (filter (\<lambda>n. n \<noteq> []) (map TrimSpace raw))))"
  using assms
proof (induction raw arbitrary: unknown chosen)
  case (Cons r raw)
  show ?case
  proof (cases "TrimSpace r = []")
    case True
    with Cons show ?thesis by simp
  next
    case named: False
    show ?thesis
    proof (cases "find (\<lambda>e. e_Name e = TrimSpace r) es")
      case None
      with named Cons.prems have "select_loop es raw (unknown @ [TrimSpace r]) chosen = (unknown', chosen')" by simp
      from Cons.IH [OF this] None named show ?thesis by (simp add: find_None_name)
    next
      case (Some e)
      note e = find_Some_mem [OF Some]
      then have known: "TrimSpace r \<in> e_Name ` set es" by force
      show ?thesis
      proof (cases "list_ex (\<lambda>c. e_Name c = TrimSpace r) chosen")
        case True
        then have "TrimSpace r \<in> set (map e_Name chosen)" by (force simp: list_ex_iff)
        moreover have "select_loop es raw unknown chosen = (unknown', chosen')" using Cons.prems named Some True by simp
        ultimately show ?thesis using Cons.IH [of unknown chosen] named known by simp
      next
        case False
        then have "TrimSpace r \<notin> set (map e_Name chosen)" by (auto simp: list_ex_iff)
        moreover have "select_loop es raw unknown (chosen @ [e]) = (unknown', chosen')"
          using Cons.prems named Some False by simp
        ultimately show ?thesis using Cons.IH [of unknown "chosen @ [e]"] named known e Some by (simp add: configured_def)
      qed
    qed
  qed
qed simp

lemma first_mentions_props:
  "set (first_mentions seen ns) = set ns - set seen" "distinct (first_mentions seen ns)"
  by (induction seen ns rule: first_mentions.induct) auto

text \<open>
  C28: \<^verbatim>\<open>-exposure\<close> selects exactly what it names. Without a value all exposures stay. With one, an
  unknown name is an error that lists all of them, and otherwise every named exposure is selected
  once, in the order of the first mentions, as it is configured; naming none at all is an error.
\<close>

theorem selectExposures_exact:
  "selectExposures cfg only =
    (let names = wanted_names only; unknown = filter (\<lambda>n. n \<notin> e_Name ` set (a_Exposures cfg)) names in
     if only = [] then Inr cfg
     else if unknown \<noteq> [] then Inl (NoSuchExposure unknown (map e_Name (a_Exposures cfg)))
     else if names = [] then Inl SelectedNothing
     else Inr (cfg\<lparr>a_Exposures := map (configured (a_Exposures cfg)) (first_mentions [] names)\<rparr>))"
proof -
  let ?es = "a_Exposures cfg" and ?names = "wanted_names only"
  obtain unknown chosen where l: "select_loop ?es (Split only (CHR '','')) [] [] = (unknown, chosen)" by fastforce
  from select_loop_spec [OF l] have u: "unknown = filter (\<lambda>n. n \<notin> e_Name ` set ?es) ?names"
    and c: "chosen = map (configured ?es) (first_mentions [] (filter (\<lambda>n. n \<in> e_Name ` set ?es) ?names))"
    by (simp_all add: wanted_names_def)
  show ?thesis
  proof (cases "unknown = []")
    case True
    with u have all: "filter (\<lambda>n. n \<in> e_Name ` set ?es) ?names = ?names"
      by (intro filter_True) (simp add: empty_filter_conv)
    have "chosen = [] \<longleftrightarrow> ?names = []" unfolding c all by (cases ?names) simp_all
    with True l c u all show ?thesis by (simp add: selectExposures_def Let_def)
  next
    case False
    with l u show ?thesis by (simp add: selectExposures_def Let_def)
  qed
qed

section \<open>Exit codes\<close>

lemma resolve_credentials_frame: "resolve_credentials e w = (r, w') \<Longrightarrow> frame {} w w'"
  unfolding resolve_credentials_def by (erule io_bind_cases) (auto dest: os_Read_cases(1))

lemma checkCredentials_frame: "checkCredentials es errs w = (r, w') \<Longrightarrow> frame {} w w'"
proof (induction es arbitrary: errs w)
  case (Cons e es)
  from Cons.prems show ?case unfolding checkCredentials.simps
  proof (cases rule: io_bind_cases)
    case crashed
    then show ?thesis by (auto dest: resolve_credentials_frame)
  next
    case (returned res w1)
    with Cons.IH frame_trans1 resolve_credentials_frame show ?thesis by blast
  qed
qed simp

text \<open>The configuration a start works with: that of the file, narrowed, with usable password files.\<close>

definition password_ok :: "(string \<rightharpoonup> File) \<Rightarrow> agent_Exposure \<Rightarrow> bool" where
  "password_ok files e \<longleftrightarrow> (\<exists>f. files (PasswordFile (e_Auth e)) = Some f \<and> f_data f \<noteq> [])"

definition configured_run :: "'pool agent_env \<Rightarrow> agent_flags \<Rightarrow> (string \<rightharpoonup> File) \<Rightarrow> agent_Config \<Rightarrow> bool" where
  "configured_run env flags files cfg \<longleftrightarrow> (\<exists>f loaded. files (fl_config flags) = Some f
     \<and> agent_Parse (env_first env) (env_second env) (f_data f) = Inr loaded
     \<and> selectExposures loaded (fl_only flags) = Inr cfg) \<and> list_all (password_ok files) (a_Exposures cfg)"

text \<open>The runner that is made of it.\<close>

definition made_runner :: "'pool agent_env \<Rightarrow> string \<Rightarrow> agent_flags \<Rightarrow> (string \<rightharpoonup> File) \<Rightarrow> agent_Config \<Rightarrow> Runner \<Rightarrow> bool" where
  "made_runner env version flags files cfg r \<longleftrightarrow> (\<exists>c m. make_client env version files (a_Gateway cfg) = Some c
     \<and> agent_Metrics_New (env_register env) (a_Exposures cfg) = Some m
     \<and> NewRunner (env_mkdirAll env) (Some cfg) (Some c) (fl_stateDir flags) True (fl_commandTimeout flags) = Inr r)"

definition logging_ok :: "agent_flags \<Rightarrow> bool" where
  "logging_ok flags \<longleftrightarrow> (\<exists>level. agent_parseLevel (fl_logLevel flags) = Some level
     \<and> agent_newLogger level (fl_logFormat flags) \<noteq> None)"

text \<open>What follows once there is a runner, from the world \<open>w1\<close>.\<close>

definition run_tells :: "'pool agent_env \<Rightarrow> agent_flags \<Rightarrow> Runner \<Rightarrow> world \<Rightarrow> run_result \<Rightarrow> world \<Rightarrow> bool" where
  "run_tells env flags r w1 res w' \<longleftrightarrow>
     (if fl_once flags then \<exists>errs. once_report (env_cancelled env) r w1 errs w' \<and> res = Exit (if errs = [] then 0 else 1)
      else w' = w1 \<and> (if env_listen env (a_MetricsListenAddress (run_cfg r)) then \<exists>m. res = Serving r m else res = Exit 1))"

lemma resolve_credentials_cases:
  assumes "resolve_credentials e w = (Done res, w')"
  shows "\<not> isl res \<Longrightarrow> password_ok (w_fs w) e" and "w_fate w = [] \<Longrightarrow> isl res \<Longrightarrow> \<not> password_ok (w_fs w) e"
    and "w_fate w = [] \<Longrightarrow> w_fate w' = []"
proof -
  obtain content where rd: "os_Read (PasswordFile (e_Auth e)) f_data w = (Done content, w')"
    and res: "res = Auth_Resolve (e_Auth e) (case content of Content d \<Rightarrow> Some d | _ \<Rightarrow> None)"
    using assms by (auto simp: resolve_credentials_def io_bind_Done_iff)
  show "password_ok (w_fs w) e" if "\<not> isl res"
  proof -
    from that res obtain d where "content = Content d" "d \<noteq> []"
      by (cases content) (auto simp: Auth_Resolve_def split: if_splits)
    with os_Read_cases(2) [OF rd, of d] show ?thesis by (auto simp: password_ok_def)
  qed
  show "\<not> password_ok (w_fs w) e" if "w_fate w = []" "isl res"
    using that rd res by (auto simp: password_ok_def Auth_Resolve_def split: option.splits if_splits)
  show "w_fate w' = []" if "w_fate w = []" using that rd by simp
qed

lemma checkCredentials_cases:
  assumes "checkCredentials es errs w = (Done res, w')"
  shows "(res = [] \<longrightarrow> errs = [] \<and> list_all (password_ok (w_fs w)) es)
    \<and> (w_fate w = [] \<longrightarrow> errs = [] \<longrightarrow> list_all (password_ok (w_fs w)) es \<longrightarrow> res = []) \<and> (w_fate w = [] \<longrightarrow> w_fate w' = [])"
  using assms
proof (induction es arbitrary: errs w)
  case (Cons e es)
  obtain x w1 where x: "resolve_credentials e w = (Done x, w1)"
    and rest: "checkCredentials es (case x of Inl err \<Rightarrow> errs @ [(e_Name e, err)] | Inr _ \<Rightarrow> errs) w1 = (Done res, w')"
    using Cons.prems by (auto simp: io_bind_Done_iff)
  note ih = Cons.IH [OF rest]
  have fs: "w_fs w1 = w_fs w" using frame_empty_fs [OF resolve_credentials_frame [OF x]] .
  show ?case
  proof (cases "isl x")
    case True
    then obtain err where "x = Inl err" by (cases x) simp_all
    with ih resolve_credentials_cases(2,3) [OF x] True show ?thesis by fastforce
  next
    case False
    then obtain up where "x = Inr up" by (cases x) simp_all
    then have ih': "(res = [] \<longrightarrow> errs = [] \<and> list_all (password_ok (w_fs w)) es) \<and> (w_fate w1 = [] \<longrightarrow> errs = [] \<longrightarrow>
      list_all (password_ok (w_fs w)) es \<longrightarrow> res = []) \<and> (w_fate w1 = [] \<longrightarrow> w_fate w' = [])"
      using ih unfolding fs by simp
    have "password_ok (w_fs w) e" "w_fate w = [] \<Longrightarrow> w_fate w1 = []" using resolve_credentials_cases(1,3) [OF x] False by blast+
    with ih' show ?thesis unfolding list.pred_inject by blast
  qed
qed simp

lemma start_runner_cases:
  assumes "start_runner env version flags cfg w = (Done res, w')"
  obtains (failed) "res = Exit 2" "w' = w" "\<And>r. \<not> made_runner env version flags (w_fs w) cfg r"
    | (runs) r where "made_runner env version flags (w_fs w) cfg r" "run_tells env flags r w res w'" "run_cfg r = cfg"
proof (cases "\<exists>r. made_runner env version flags (w_fs w) cfg r")
  case False
  with assms show ?thesis
    by (intro failed) (auto simp: start_runner_def made_runner_def split: option.splits sum.splits)
next
  case True
  then obtain c m r where r: "make_client env version (w_fs w) (a_Gateway cfg) = Some c"
     "agent_Metrics_New (env_register env) (a_Exposures cfg) = Some m"
     "NewRunner (env_mkdirAll env) (Some cfg) (Some c) (fl_stateDir flags) True (fl_commandTimeout flags) = Inr r"
    by (auto simp: made_runner_def)
  then have cfg: "run_cfg r = cfg" by (auto simp: NewRunner_def split: if_splits)
  have "run_tells env flags r w res w'"
  proof (cases "fl_once flags")
    case True
    with assms r obtain errs where "Once (env_cancelled env) r w = (Done errs, w')" "res = Exit (if errs \<noteq> [] then 1 else 0)"
      by (auto simp: start_runner_def io_bind_Done_iff)
    with Once_report True show ?thesis by (auto simp: run_tells_def)
  next
    case False
    with assms r cfg show ?thesis by (auto simp: start_runner_def run_tells_def split: if_splits)
  qed
  with r cfg show ?thesis by (intro runs) (auto simp: made_runner_def)
qed

lemma load_cases:
  assumes "os_Read (fl_config flags) f_data w = (Done content, w1)"
    and "load = agent_Load (env_first env) (env_second env) (\<lambda>_. case content of Content d \<Rightarrow> Inr d | _ \<Rightarrow> Inl []) (fl_config flags)"
  shows "load = Inr loaded \<Longrightarrow> \<exists>f. w_fs w (fl_config flags) = Some f
      \<and> agent_Parse (env_first env) (env_second env) (f_data f) = Inr loaded"
    and "w_fate w = [] \<Longrightarrow> w_fs w (fl_config flags) = Some f \<Longrightarrow> load = agent_Parse (env_first env) (env_second env) (f_data f)"
    and "w_fate w = [] \<Longrightarrow> w_fate w1 = []"
proof -
  show "\<exists>f. w_fs w (fl_config flags) = Some f \<and> agent_Parse (env_first env) (env_second env) (f_data f) = Inr loaded"
    if "load = Inr loaded"
  proof -
    from that obtain d where "content = Content d" "agent_Parse (env_first env) (env_second env) d = Inr loaded"
      by (cases content) (auto simp: assms(2) agent_Load_def)
    with os_Read_cases(2) [OF assms(1), of d] show ?thesis by auto
  qed
  show "load = agent_Parse (env_first env) (env_second env) (f_data f)"
    if "w_fate w = []" "w_fs w (fl_config flags) = Some f" using that assms(1) by (auto simp: assms(2) agent_Load_def)
  show "w_fate w1 = []" if "w_fate w = []" using that assms(1) by simp
qed

lemma logging_refused:
  "\<not> logging_ok flags \<Longrightarrow> (case agent_parseLevel (fl_logLevel flags) of None \<Rightarrow> io_return (Exit 2)
     | Some level \<Rightarrow> if agent_newLogger level (fl_logFormat flags) = None then io_return (Exit 2) else m) = io_return (Exit 2)"
  by (auto simp: logging_ok_def split: option.split)

text \<open>A run whose command line is fine, by how far it gets.\<close>

lemma configured_run_unique:
  "configured_run env flags files cfg \<Longrightarrow> configured_run env flags files cfg' \<Longrightarrow> cfg = cfg'"
  by (auto simp: configured_run_def)

lemma agent_run_cases:
  assumes "agent_run env version args w = (Done res, w')" and "env_parse env args = Some (flags, [])"
    and "\<not> fl_version flags" and "logging_ok flags"
  obtains (unusable) "res = Exit 2" "frame {} w w'" "w_fate w = [] \<Longrightarrow> \<nexists>cfg. configured_run env flags (w_fs w) cfg"
    | (usable) cfg w1 where "configured_run env flags (w_fs w) cfg" "frame {} w w1" "(if fl_check flags then io_return (Exit 0)
            else start_runner env version flags cfg) w1 = (Done res, w')"
proof -
  let ?load = "\<lambda>content. agent_Load (env_first env) (env_second env) (\<lambda>_. case content of Content d \<Rightarrow> Inr d | _ \<Rightarrow> Inl []) (fl_config flags)"
  obtain content w1 where rd: "os_Read (fl_config flags) f_data w = (Done content, w1)"
    and rest: "(case ?load content of
        Inl _ \<Rightarrow> io_return (Exit 2)
      | Inr loaded \<Rightarrow> (case selectExposures loaded (fl_only flags) of
          Inl _ \<Rightarrow> io_return (Exit 2)
        | Inr cfg \<Rightarrow> io_bind (checkCredentials (a_Exposures cfg) []) (\<lambda>errs.
            if errs \<noteq> [] then io_return (Exit 2)
            else if fl_check flags then io_return (Exit 0)
            else start_runner env version flags cfg))) w1 = (Done res, w')"
    using assms by (auto simp: agent_run_def logging_ok_def io_bind_Done_iff)
  note q1 = os_Read_cases(1) [OF rd] and load = load_cases [OF rd refl [of "?load content"]]
  show thesis
  proof (cases "\<exists>loaded cfg. ?load content = Inr loaded \<and> selectExposures loaded (fl_only flags) = Inr cfg")
    case False
    then have "res = Exit 2" "w' = w1" using rest by (auto split: sum.splits)
    moreover have "\<nexists>cfg. configured_run env flags (w_fs w) cfg" if "w_fate w = []"
      using False load(2) [OF that] by (auto simp: configured_run_def)
    ultimately show thesis using unusable q1 by simp
  next
    case True
    then obtain loaded cfg where l: "?load content = Inr loaded" "selectExposures loaded (fl_only flags) = Inr cfg" by blast
    obtain errs w2 where cr: "checkCredentials (a_Exposures cfg) [] w1 = (Done errs, w2)"
      and last: "(if errs \<noteq> [] then io_return (Exit 2) else if fl_check flags then io_return (Exit 0)
            else start_runner env version flags cfg) w2 = (Done res, w')"
      using rest l by (auto simp: io_bind_Done_iff)
    have q2: "frame {} w w2" using frame_trans1 [OF q1 checkCredentials_frame [OF cr]] .
    note ok = checkCredentials_cases [OF cr, unfolded frame_empty_fs [OF q1]]
    show thesis
    proof (cases "errs = []")
      case True
      then have "configured_run env flags (w_fs w) cfg"
        using load(1) [OF l(1)] l(2) ok by (auto simp: configured_run_def)
      with usable q2 last True show thesis by simp
    next
      case False
      have "\<not> configured_run env flags (w_fs w) cfg'" if "w_fate w = []" for cfg'
      proof
        assume c: "configured_run env flags (w_fs w) cfg'"
        then have "cfg' = cfg" using load(2) [OF that] l by (auto simp: configured_run_def)
        with c ok load(3) [OF that] False show False by (auto simp: configured_run_def)
      qed
      with False last q2 show thesis by (intro unusable) auto
    qed
  qed
qed

text \<open>
  C27: what the exit codes say of a run that is not cut off. A command line that cannot be used
  gives 2 and \<^verbatim>\<open>-version\<close> gives 0, before anything is read. Otherwise code 2 comes only before
  anything was done, that is, no file is changed and no command has run; and if no system call
  fails, it comes only when there is no usable configuration, read from the configuration file and
  narrowed by \<^verbatim>\<open>-exposure\<close>, with a non-empty password file for each of its exposures, or, without
  \<^verbatim>\<open>-check\<close>, when no runner can be made of it. In the other cases there is such a configuration. With
  \<^verbatim>\<open>-check\<close> the code is 0 and nothing is changed. With \<^verbatim>\<open>-once\<close> the runner has made one pass over
  the selected exposures, from the unchanged world to the final one, as \<open>once_report\<close> says, and
  the code is 0 exactly if there is nothing to report. In the continuous
  mode the runner is started, or code 1 says that the address for metrics cannot be used; up to there
  nothing is changed.
\<close>

theorem agent_run_exit:
  assumes "agent_run env version args w = (Done res, w')"
  shows "case env_parse env args of
      Some (flags, []) \<Rightarrow>
        if fl_version flags then res = Exit 0 \<and> w' = w
        else if \<not> logging_ok flags then res = Exit 2 \<and> w' = w
        else res = Exit 2 \<and> frame {} w w' \<and> (w_fate w = [] \<longrightarrow> (\<nexists>cfg. configured_run env flags (w_fs w) cfg
               \<and> (fl_check flags \<or> (\<exists>r. made_runner env version flags (w_fs w) cfg r))))
          \<or> (\<exists>cfg. configured_run env flags (w_fs w) cfg
               \<and> (if fl_check flags then res = Exit 0 \<and> frame {} w w'
                  else \<exists>r w1. made_runner env version flags (w_fs w) cfg r \<and> run_cfg r = cfg \<and> frame {} w w1
                    \<and> run_tells env flags r w1 res w'))
    | _ \<Rightarrow> res = Exit 2 \<and> w' = w"
proof (cases "\<exists>flags. env_parse env args = Some (flags, []) \<and> \<not> fl_version flags \<and> logging_ok flags")
  case False
  then consider "env_parse env args = None" | flags x xs where "env_parse env args = Some (flags, x # xs)"
    | flags where "env_parse env args = Some (flags, [])" "fl_version flags"
    | flags where "env_parse env args = Some (flags, [])" "\<not> fl_version flags" "\<not> logging_ok flags"
    by (metis neq_Nil_conv not_None_eq surj_pair)
  then show ?thesis
  proof cases
    case (4 flags)
    with assms show ?thesis by (simp add: agent_run_def logging_refused)
  qed (insert assms, simp_all add: agent_run_def)
next
  case True
  then obtain flags where fl: "env_parse env args = Some (flags, [])" "\<not> fl_version flags" "logging_ok flags" by blast
  from assms fl show ?thesis
  proof (cases rule: agent_run_cases)
    case unusable
    with fl show ?thesis by simp
  next
    case (usable cfg w1)
    show ?thesis
    proof (cases "fl_check flags")
      case True
      with usable fl show ?thesis by auto
    next
      case False
      then have "start_runner env version flags cfg w1 = (Done res, w')" using usable(3) by simp
      then show ?thesis
      proof (cases rule: start_runner_cases)
        case failed
        then have none: "\<nexists>r. made_runner env version flags (w_fs w) cfg r" using frame_empty_fs [OF usable(2)] by simp
        have "\<nexists>cfg'. configured_run env flags (w_fs w) cfg' \<and> (fl_check flags \<or> (\<exists>r. made_runner env version flags (w_fs w) cfg' r))"
          using configured_run_unique [OF usable(1)] none False by blast
        with failed(1,2) usable(2) fl False show ?thesis by simp
      next
        case (runs r)
        have "made_runner env version flags (w_fs w) cfg r" using runs(1) frame_empty_fs [OF usable(2)] by simp
        with runs(2,3) usable(1,2)
        have "\<exists>cfg. configured_run env flags (w_fs w) cfg \<and> (\<exists>r w1. made_runner env version flags (w_fs w) cfg r \<and> run_cfg r = cfg
            \<and> frame {} w w1 \<and> run_tells env flags r w1 res w')" by blast
        with fl False show ?thesis by simp
      qed
    qed
  qed
qed

section \<open>Examples\<close>

definition ex_flags :: agent_flags where
  "ex_flags = \<lparr>fl_config = ''/p'', fl_stateDir = ''/s'', fl_once = True, fl_only = [], fl_commandTimeout = 0, fl_logLevel = ''Info'',
     fl_logFormat = ''text'', fl_check = False, fl_version = False\<rparr>"

definition ex_env :: "unit agent_env" where
  "ex_env = \<lparr>env_parse = (\<lambda>_. Some (ex_flags, [])), env_first = (\<lambda>_. Decoded ex_document), env_second = (\<lambda>_. EndOfInput),
     env_certs = (\<lambda>_. None), env_transport = (\<lambda>_ _. ex_transport ''t''), env_mkdirAll = (\<lambda>_. True), env_register = (\<lambda>_. True),
     env_cancelled = (\<lambda>_. False), env_listen = (\<lambda>_. True)\<rparr>"

lemma ex_main_resolve: "agent_resolve ex_document = Inr (run_cfg ex_runner)"
  by (simp add: ex_agent_resolve ex_runner_def ex_e_def)

lemma ex_levels: "agent_parseLevel ''Info'' = Some slog_LevelInfo" "agent_newLogger slog_LevelInfo ''text'' = Some (TextHandler slog_LevelInfo)"
  by code_simp+

lemma ex_runs: "\<exists>w'. agent_run ex_env ''1'' [''-once''] (ex_world []) = (Done (Exit 0), w')"
proof -
  obtain w' where w': "Sync (ex_agent ''t'') ''/s'' ex_e (ex_world []) = (Done (True, None), w')" by (rule ex_sync)
  have c: "make_client ex_env ''1'' files (a_Gateway (run_cfg ex_runner)) = Some (ex_agent ''t'')" for files
    by (simp add: make_client_def ex_runner_def Client_New_def ex_env_def ex_agent_def)
  have "start_runner ex_env ''1'' ex_flags (run_cfg ex_runner) (ex_world []) = (Done (Exit 0), w')"
    unfolding start_runner_def c
    by (simp add: agent_Metrics_New_def list_all_iff ex_env_def ex_flags_def NewRunner_def Once_def w' io_return_def)
  then show ?thesis
    by (simp add: agent_run_def ex_env_def ex_flags_def ex_levels agent_Load_def agent_Parse_def ex_main_resolve
        selectExposures_def resolve_credentials_def Auth_Resolve_def)
qed

text \<open>The same with \<^verbatim>\<open>-check\<close>.\<close>

definition ex_check_env :: "unit agent_env" where
  "ex_check_env = ex_env\<lparr>env_parse := (\<lambda>_. Some (ex_flags\<lparr>fl_check := True\<rparr>, []))\<rparr>"

lemma ex_checks: "\<exists>w'. agent_run ex_check_env ''1'' [''-check''] (ex_world []) = (Done (Exit 0), w')"
  by (simp add: ex_check_env_def agent_run_def ex_env_def ex_flags_def ex_levels agent_Load_def agent_Parse_def ex_main_resolve
      selectExposures_def resolve_credentials_def Auth_Resolve_def)

theorem agent_run_exit_witness:
  "(\<exists>w' w1 r. agent_run ex_env ''1'' [''-once''] (ex_world []) = (Done (Exit 0), w')
     \<and> made_runner ex_env ''1'' ex_flags ex_files (run_cfg r) r \<and> once_report (\<lambda>_. False) r w1 [] w')
   \<and> (\<exists>w'. agent_run ex_check_env ''1'' [''-check''] (ex_world []) = (Done (Exit 0), w') \<and> frame {} (ex_world []) w')"
proof
  obtain w' where w': "agent_run ex_env ''1'' [''-once''] (ex_world []) = (Done (Exit 0), w')" using ex_runs by blast
  have fl: "env_parse ex_env [''-once''] = Some (ex_flags, [])" "\<not> fl_version ex_flags" "logging_ok ex_flags" "\<not> fl_check ex_flags"
     "fl_once ex_flags" "env_cancelled ex_env = (\<lambda>_. False)" "w_fs (ex_world []) = ex_files"
    using ex_levels by (simp_all add: ex_env_def ex_flags_def logging_ok_def ex_world_def)
  from agent_run_exit [OF w'] fl obtain r w1 where
    "made_runner ex_env ''1'' ex_flags ex_files (run_cfg r) r" "run_tells ex_env ex_flags r w1 (Exit 0) w'" by auto
  with w' fl show "\<exists>w' w1 r. agent_run ex_env ''1'' [''-once''] (ex_world []) = (Done (Exit 0), w')
     \<and> made_runner ex_env ''1'' ex_flags ex_files (run_cfg r) r \<and> once_report (\<lambda>_. False) r w1 [] w'"
    by (auto simp: run_tells_def split: if_splits)
next
  obtain w' where w': "agent_run ex_check_env ''1'' [''-check''] (ex_world []) = (Done (Exit 0), w')" using ex_checks by blast
  have fl: "env_parse ex_check_env [''-check''] = Some (ex_flags\<lparr>fl_check := True\<rparr>, [])"
    "\<not> fl_version ex_flags" "logging_ok (ex_flags\<lparr>fl_check := True\<rparr>)"
    using ex_levels by (simp_all add: ex_check_env_def ex_env_def ex_flags_def logging_ok_def)
  from agent_run_exit [OF w'] fl have "frame {} (ex_world []) w'" by auto
  with w' show "\<exists>w'. agent_run ex_check_env ''1'' [''-check''] (ex_world []) = (Done (Exit 0), w') \<and> frame {} (ex_world []) w'"
    by blast
qed

end
