(* ===== verification/Spec2Isabelle.thy ===== *)
theory Spec2Isabelle
  imports Gateway_Main Kubetest Delivery Gwtest Agent_Main
begin

text \<open>
  \<^bold>\<open>Verification of kube-secret-gateway.\<close> The program has two halves. The gateway
  (\<^verbatim>\<open>src/gateway\<close>) watches the Kubernetes Secrets its configuration mentions and serves configured
  keys of them over HTTP to allowed networks and the right credentials; the agent
  (\<^verbatim>\<open>src/agent\<close>) polls the gateway and installs the values as files. The model follows the code
  function by function, with the names of the code; a name that is taken in HOL or used on both sides
  has a prefix such as \<open>agent_\<close>, \<open>v_\<close>, \<open>gw_\<close>. A struct is a record, an error a value of a sum or
  option type, a map a partial function, a loop a recursive function. A Go string or byte slice is a list
  of characters read as bytes, so nothing assumes UTF-8; an \<^verbatim>\<open>int64\<close> duration is an integer with
  its wrap-around written out where it can overflow.

  \<^bold>\<open>Library.\<close> \<^theory_text>\<open>Prelude\<close> has the named collections, bytes, Go's integer division and lemmas on lists and
  sums. \<^theory_text>\<open>Go_Strings\<close>, \<^theory_text>\<open>Go_Base64\<close>, \<^theory_text>\<open>Go_Sha256\<close>, \<^theory_text>\<open>Go_Netip\<close>, \<^theory_text>\<open>Go_Http\<close>, \<^theory_text>\<open>Go_Parse\<close>,
  \<^theory_text>\<open>Go_Json\<close>, \<^theory_text>\<open>Go_Url\<close> and \<^theory_text>\<open>Go_Case\<close> model what the program uses of Go's standard library: strings and
  UTF-8, base64 with its round trip, SHA-256 and HMAC on 32-bit words, addresses and prefixes,
  requests and response writers, durations and host-port pairs, JSON, URLs, case mapping and log levels.

  \<^bold>\<open>Gateway.\<close>
  \<^item> \<^theory_text>\<open>Exposure\<close> (\<^verbatim>\<open>internal/exposure\<close>): Secret references and their order, exposures, allow-lists,
    prefixes. The locale \<open>k8s_names\<close> is the contract of the Kubernetes validators, a parameter of
    the model.
  \<^item> \<^theory_text>\<open>Auth\<close> (\<^verbatim>\<open>internal/auth\<close>): credentials and their verification.
  \<^item> \<^theory_text>\<open>Clientip\<close> (\<^verbatim>\<open>internal/clientip\<close>): the client address behind trusted proxies, equal to one
    walk over the flattened entries, and independent of what a client can forge.
  \<^item> \<^theory_text>\<open>Resources\<close> and \<^theory_text>\<open>Manager\<close> (\<^verbatim>\<open>internal/resources\<close>): the state of one Secret with list, watch,
    reconciliation, back-off and error texts; then all goroutines as a step relation whose inputs are
    the answers and panics of the API client, time and cancellation. The properties hold for every
    interleaving: a snapshot is the last valid observation, initialization is signalled exactly once
    and at the right time, a panic stays within its Secret, a cancelled goroutine exits.
  \<^item> \<^theory_text>\<open>Kube_Client\<close> (\<^verbatim>\<open>internal/kubernetes/client.go\<close>): the requests to the Kubernetes API.
  \<^item> \<^theory_text>\<open>Kubetest\<close> (\<^verbatim>\<open>internal/kubernetes/kubetest\<close>): the in-memory API of the gateway's tests, and the manager
    connected to it: as long as changes come one after the other, none is lost between list and watch.
  \<^item> \<^theory_text>\<open>Server\<close> and \<^theory_text>\<open>Metrics_Listener\<close> (\<^verbatim>\<open>internal/server\<close>): both HTTP handlers from the request to the
    written response, over the locale \<open>response_writer\<close>, with panics and \<^verbatim>\<open>recover\<close>. The locale
    \<open>secret_source\<close> is what the handler relies on in the manager. Who is served what, that
    nothing else influences a response, conditional requests, what is observed and logged.
  \<^item> \<^theory_text>\<open>Tls\<close> (\<^verbatim>\<open>internal/server/tls.go\<close>): the certificate reloader.
  \<^item> \<^theory_text>\<open>Gateway_Metrics\<close> (\<^verbatim>\<open>internal/metrics\<close>): request counter and state collector.
  \<^item> \<^theory_text>\<open>Gateway_Config\<close> (\<^verbatim>\<open>internal/config\<close>): validation with every problem, in order; what loads is
    sound and is what the document says.
  \<^item> \<^theory_text>\<open>Gateway_Main\<close> (\<^verbatim>\<open>cmd/kube-secret-gateway\<close>): the start with its exit codes, the wiring of the parts,
    and serving and shutdown as a step relation in which requests may be in flight.

  \<^bold>\<open>Agent.\<close>
  \<^item> \<^theory_text>\<open>Agent_Client\<close> (\<^verbatim>\<open>internal/gateway\<close>): one conditional request and its decoding.
  \<^item> \<^theory_text>\<open>Agent_Config\<close> (\<^verbatim>\<open>internal/config\<close>): validation of the agent's configuration.
  \<^item> \<^theory_text>\<open>Agent_Disk\<close>, \<^theory_text>\<open>Agent_Install\<close> and \<^theory_text>\<open>Agent_Fetch\<close> (\<^verbatim>\<open>internal/fetch\<close>): the file system with failing calls,
    crashes and loss of power at every moment; replacing files; one synchronization. Files are old or
    new but whole, the tag is recorded last, leftovers are private.
  \<^item> \<^theory_text>\<open>Agent_Runner\<close> (the rest of \<^verbatim>\<open>internal/fetch\<close>): the one-shot and the continuous mode, and the
    locale \<open>sync_observer\<close> for the observer it calls.
  \<^item> \<^theory_text>\<open>Agent_Metrics\<close> (\<^verbatim>\<open>internal/metrics\<close>): that observer.
  \<^item> \<^theory_text>\<open>Agent_Main\<close> (\<^verbatim>\<open>cmd/kube-secret-gateway-agent\<close>): the command with its exit codes.
  \<^item> \<^theory_text>\<open>Gwtest\<close> (\<^verbatim>\<open>internal/gwtest\<close>): the double of the gateway in the agent's tests, which answers like
    the gateway.

  \<^bold>\<open>Composition.\<close> \<^theory_text>\<open>Delivery\<close> connects the agent's client to the gateway's handler over HTTP. This theory
  composes everything: from the answers of the Kubernetes API through a started gateway to what an
  agent receives, and on to the bytes in its files after any crash.

  \<^bold>\<open>Bounds and fuel.\<close> The JSON decoder and the parser of durations have fuel, and \<open>jvalue_fuel\<close> and
  \<open>duration_terms_fuel\<close> show that what they are given is enough. Every other loop is a total function, or
  a step relation where the code runs until it is stopped. Bodies up to \<open>MaxExposureBytes\<close> are delivered;
  the properties of delivery say so. Retry delays are proved free of overflow for back-offs
  below \<open>2\<^sup>6\<^sup>2\<close> nanoseconds, and the gateway uses its defaults.

  \<^bold>\<open>Not modelled.\<close> Libraries outside the repository are parameters: the YAML decoder, the Kubernetes
  validators and client, certificates, the Prometheus registry, the flag package. Log lines are
  modelled only where they carry a guarantee (redaction and the attributes of a request).
  \<^verbatim>\<open>NewHTTPServer\<close>, \<^verbatim>\<open>TLSConfig\<close> and \<^verbatim>\<open>serve\<close> only configure and call \<^verbatim>\<open>net/http\<close>.
  \<^verbatim>\<open>internal/testcerts\<close> makes key pairs for tests.
\<close>

section \<open>From the gateway to the agent\<close>

lemma Fetch_exactly:
  assumes "gateway_client c" and "c_http c = gateway_transport V h remote" and "route_name name"
    and "gateway_tag etag" and "keys_nonempty h" and "deliverable h"
  shows "Fetch c name etag username password = Inr res \<longleftrightarrow>
    (\<exists>e s. admitted V h (agent_request remote (c_version c) name [] username password) e
       \<and> authorized (h_secrets h) e (agent_request remote (c_version c) name [] username password)
       \<and> available (h_secrets h) e s
       \<and> etag \<noteq> ETag (canonical_body s e) (sec_UID s)
       \<and> res = \<lparr>Values = (\<lambda>k. if k \<in> set (exp_Keys e) then sec_Data s k else None),
                result_ETag = ETag (canonical_body s e) (sec_UID s)\<rparr>)"
  (is "?fetched \<longleftrightarrow> (\<exists>e s. ?served e s \<and> ?authorized e \<and> ?available e s \<and> ?fresh e s \<and> res = ?result e s)")
proof -
  have result: "Fetch c name etag username password = (if ?fresh e s then Inr (?result e s) else Inl ErrNotModified)"
    if "?served e s" "?authorized e" "?available e s" for e s
    using Fetch_served [OF assms(1-5) that deliverableD [OF assms(6) that(1,3)]] by simp
  show ?thesis
  proof
    assume ?fetched
    then obtain e s where "?served e s" "?authorized e" "?available e s"
      using Fetch_Inr_served [OF assms(1-3,5)] by blast
    with result [OF this] \<open>?fetched\<close>
    show "\<exists>e s. ?served e s \<and> ?authorized e \<and> ?available e s \<and> ?fresh e s \<and> res = ?result e s"
      by (auto split: if_splits)
  next
    assume "\<exists>e s. ?served e s \<and> ?authorized e \<and> ?available e s \<and> ?fresh e s \<and> res = ?result e s"
    then show ?fetched using result by auto
  qed
qed

lemma json_plain_keys:
  assumes "k8s_names V" and "config_ok V cfg" and "e \<in> set (cfg_Exposures cfg)"
  shows "list_all (list_all json_plain) (exp_Keys e)"
  using valid_keys(2) [OF assms] key_char_visible key_char_plain by (fastforce simp: list_all_iff json_plain_def)

lemma gateway_deliverable:
  assumes "gateway_start env args = Inr g" and "k8s_names (ge_V env)" and "steps (gs_manager g) tr m"
    and "list_all (\<lambda>e. length (canonical_body (observed (exp_Source e) tr) e) \<le> MaxExposureBytes) (cfg_Exposures (gs_cfg g))"
  shows "deliverable (handler_of (gs_cfg g) m)"
  unfolding deliverable_def
proof (intro allI impI)
  fix name e s
  note ok = gateway_started(1) [OF assms(1)]
  assume "h_exposures (handler_of (gs_cfg g) m) name = Some e" and av: "available (h_secrets (handler_of (gs_cfg g) m)) e s"
  then have e: "e \<in> set (cfg_Exposures (gs_cfg g))" using handler_of_exposures [OF ok] by blast
  have "available (api_secrets tr) e s" using av gateway_secrets(2) [OF assms(1,3) e] by blast
  then have "s = observed (exp_Source e) tr" by (simp add: available_def api_secrets_def)
  with assms(4) e have "length (canonical_body s e) \<le> MaxExposureBytes" by (simp add: list_all_iff)
  with json_plain_keys [OF assms(2) ok e]
  show "list_all (list_all json_plain) (exp_Keys e) \<and> length (canonical_body s e) \<le> MaxExposureBytes" by simp
qed

text \<open>The client address as the gateway resolves it is in the allow-list.\<close>

definition lets_in :: "Config \<Rightarrow> Exposure \<Rightarrow> Request \<Rightarrow> bool" where
  "lets_in cfg e r \<longleftrightarrow> (case Resolve (NewResolver (srv_TrustedProxies (cfg_Server cfg))) r of
     (client, peer, err) \<Rightarrow> err = None \<and> AllowsClient e client)"

lemma gateway_admitted:
  assumes "config_ok V cfg" and "route_name name"
  shows "admitted V (handler_of cfg m) (agent_request remote version name etag username password) e
    \<longleftrightarrow> e \<in> set (cfg_Exposures cfg) \<and> exp_Name e = name
      \<and> lets_in cfg e (agent_request remote version name etag username password)"
proof -
  let ?r = "agent_request remote version name etag username password"
  have r: "req_Method ?r = ''GET''" "\<not> has_payload ?r" by (simp_all add: agent_request_def has_payload_def)
  have valid: "ValidateName V (exp_Name e) = None" if "e \<in> set (cfg_Exposures cfg)"
    using that assms(1) by (auto simp: config_ok_def exposure_ok_def list_all_iff)
  have route: "parseRoute V (EscapedPath (req_URL ?r)) = (if ValidateName V name = None then Some name else None)"
    using agent_parseRoute [OF assms(2), of V remote version etag username password] plain_route [OF assms(2)]
    by (auto simp: agent_request_def EscapedPath_plain parseRoute_def CutPrefix_def HasPrefix_def exposuresPrefix_def)
  show ?thesis
    unfolding admitted_def lets_in_def r route handler_of_exposures [OF assms(1)]
    using valid by (auto simp: handler_of_def r split: prod.splits)
qed

text \<open>Whatever tag was sent: the values of a response are those of the Secret.\<close>

lemma Fetch_values:
  assumes "gateway_client c" and "c_http c = gateway_transport V h remote" and "route_name name"
    and "keys_nonempty h" and "deliverable h" and "Fetch c name etag username password = Inr res"
  shows "\<exists>e s. admitted V h (agent_request remote (c_version c) name [] username password) e
    \<and> authorized (h_secrets h) e (agent_request remote (c_version c) name [] username password)
    \<and> available (h_secrets h) e s \<and> Values res = (\<lambda>k. if k \<in> set (exp_Keys e) then sec_Data s k else None)"
proof -
  let ?r = "agent_request remote (c_version c) name etag username password"
  obtain e s where served: "admitted V h (agent_request remote (c_version c) name [] username password) e"
      "authorized (h_secrets h) e (agent_request remote (c_version c) name [] username password)" "available (h_secrets h) e s"
    using Fetch_Inr_served [OF assms(1-4,6)] by blast
  have "response V h ?r = Some (body_response ?r (canonical_body s e) (sec_UID s))"
    using agent_admitted(1) [THEN iffD2, OF served(1)] agent_admitted(2) [THEN iffD2, OF served(2)] served(3) assms(4)
    by (rule response_served)
  then have out: "fetch_outcome name (Some (body_response ?r (canonical_body s e) (sec_UID s))) = Inr res"
    using assms(6) by (simp add: Fetch_gateway [OF assms(1-3)])
  have "\<not> conditional ?r (canonical_body s e) (sec_UID s)"
    using out by (auto simp: body_response_def fetch_outcome_def not_modified_response_def)
  moreover have "req_Method ?r = ''GET''" by (simp add: agent_request_def)
  ultimately have "Values res = (\<lambda>k. if k \<in> set (exp_Keys e) then Some (data_get (sec_Data s) k) else None)"
    using out fetch_outcome_body [OF deliverableD [OF assms(5) served(1,3)], of name "sec_UID s"] by (auto simp: body_response_def)
  with served available_get [OF served(3)] show ?thesis by (intro exI [of _ e] exI [of _ s]) (simp add: fun_eq_iff)
qed

lemma gateway_Fetch_values:
  assumes "gateway_start env args = Inr g" and "k8s_names (ge_V env)" and "steps (gs_manager g) tr m"
    and "secretsHandler (gs_cfg g) m = Inr h"
    and "list_all (\<lambda>e. length (canonical_body (observed (exp_Source e) tr) e) \<le> MaxExposureBytes) (cfg_Exposures (gs_cfg g))"
    and "gateway_client c" and "c_http c = gateway_transport (ge_V env) h remote" and "route_name name"
    and "Fetch c name etag username password = Inr res"
  shows "\<exists>e s. e \<in> set (cfg_Exposures (gs_cfg g)) \<and> exp_Name e = name
    \<and> lets_in (gs_cfg g) e (agent_request remote (c_version c) name [] username password)
    \<and> authorized (api_secrets tr) e (agent_request remote (c_version c) name [] username password)
    \<and> available (api_secrets tr) e s \<and> Values res = (\<lambda>k. if k \<in> set (exp_Keys e) then sec_Data s k else None)"
proof -
  note ok = gateway_started(1) [OF assms(1)]
  have h: "h = handler_of (gs_cfg g) m" using assms(4) secretsHandler_ok [OF ok] by simp
  from Fetch_values [OF assms(6,7,8) handler_keys [OF assms(2) ok, of m, folded h] gateway_deliverable [OF assms(1,2,3,5), folded h] assms(9)]
  show ?thesis
    unfolding h gateway_admitted [OF ok assms(8)] using gateway_secrets [OF assms(1,3)] by blast
qed

text \<open>Both for the files now and for what a loss of power may leave: a target that is different is new.\<close>

lemma Sync_changed_target:
  assumes "Sync c stateDir e w = (r, w')" and "separate (w_TempDir w) stateDir e" and "f \<in> set (e_Targets e)"
    and "x = w_fs w' (t_Path f) \<and> x \<noteq> w_fs w (t_Path f) \<or> survives w' (t_Path f) x \<and> \<not> survives w (t_Path f) x"
  shows "\<exists>result. fetched c e result \<and> Values result (t_Key f) \<noteq> None \<and> x = Some (new_file (Values result) f)"
  using assms(1,2)
proof (cases rule: Sync_cases)
  case stopped
  with assms(4) show ?thesis by (auto simp: frame_empty_fs survives_def frame_may)
next
  case (applied result X)
  have synced: "f_synced (new_file (Values result) f)" by (simp add: new_file_def)
  have "x = Some (new_file (Values result) f)"
    using assms(4) applied_target [OF applied(2) assms(2,3)]
      survives_mono [OF applied_target(2) [OF applied(2) assms(2,3)] synced] by blast
  moreover have "\<not> frame {} w w'" using assms(4) by (auto simp: frame_empty_fs survives_def frame_may)
  ultimately show ?thesis using applied(1,3) assms(3) by blast
qed

text \<open>
  C10: from the Kubernetes API to the file. Whatever call fails and whenever the process dies, a file
  that a synchronization puts in the place of a target, or that a loss of power may leave there,
  has the mode of the target and, byte for byte, the value of its key in the Secret that the
  gateway's configuration gives for the exposure, as the API last showed it; and it got there
  with an allowed client address and the credentials of that exposure.
\<close>

theorem secret_reaches_file:
  assumes "gateway_start env args = Inr g" and "k8s_names (ge_V env)" and "steps (gs_manager g) tr m"
    and "secretsHandler (gs_cfg g) m = Inr h"
    and "list_all (\<lambda>e. length (canonical_body (observed (exp_Source e) tr) e) \<le> MaxExposureBytes) (cfg_Exposures (gs_cfg g))"
    and "gateway_client c" and "c_http c = gateway_transport (ge_V env) h remote"
    and "route_name (e_Name ax)" and "separate (w_TempDir w) stateDir ax"
    and "Sync c stateDir ax w = (r, w')" and "f \<in> set (e_Targets ax)"
    and "x = w_fs w' (t_Path f) \<and> x \<noteq> w_fs w (t_Path f) \<or> survives w' (t_Path f) x \<and> \<not> survives w (t_Path f) x"
  shows "\<exists>e s v username password. e \<in> set (cfg_Exposures (gs_cfg g)) \<and> exp_Name e = e_Name ax
    \<and> lets_in (gs_cfg g) e (agent_request remote (c_version c) (e_Name ax) [] username password)
    \<and> authorized (api_secrets tr) e (agent_request remote (c_version c) (e_Name ax) [] username password)
    \<and> available (api_secrets tr) e s \<and> t_Key f \<in> set (exp_Keys e) \<and> sec_Data s (t_Key f) = Some v
    \<and> x = Some \<lparr>f_data = v, f_mode = t_Mode f, f_synced = True\<rparr>"
proof -
  obtain result where result: "fetched c ax result" "Values result (t_Key f) \<noteq> None" "x = Some (new_file (Values result) f)"
    using Sync_changed_target [OF assms(10,9,11,12)] by blast
  then obtain tag username password where "Fetch c (e_Name ax) tag username password = Inr result"
    by (auto simp: fetched_def)
  from gateway_Fetch_values [OF assms(1-8) this] obtain e s where
    e: "e \<in> set (cfg_Exposures (gs_cfg g))" "exp_Name e = e_Name ax"
      "lets_in (gs_cfg g) e (agent_request remote (c_version c) (e_Name ax) [] username password)"
      "authorized (api_secrets tr) e (agent_request remote (c_version c) (e_Name ax) [] username password)"
      "available (api_secrets tr) e s" and v: "Values result = (\<lambda>k. if k \<in> set (exp_Keys e) then sec_Data s k else None)"
    by blast
  with result(2) obtain y where "t_Key f \<in> set (exp_Keys e)" "sec_Data s (t_Key f) = Some y" by (auto split: if_splits)
  with e v result(3) show ?thesis
    by (intro exI [of _ e] exI [of _ s] exI [of _ y] exI [of _ username] exI [of _ password]) (simp add: new_file_def)
qed

text \<open>
  C12: delivery from end to end. An agent fetches an exposure from a gateway that was started with
  a configuration and has since talked to the Kubernetes API in whatever order. It gets a result
  exactly when the configuration has an exposure of that name, its allow-list has the resolved
  client address, the agent's credentials are those of the exposure's authentication Secret and the
  source Secret has every configured key, both as the API last showed them, and the tag it sent
  is not that of the current body. The result is then the values of the configured keys, each
  exactly as in the source Secret, and no others, with the current tag.
\<close>

theorem agent_receives_exactly:
  assumes "gateway_start env args = Inr g" and "k8s_names (ge_V env)" and "steps (gs_manager g) tr m"
    and "secretsHandler (gs_cfg g) m = Inr h"
    and "list_all (\<lambda>e. length (canonical_body (observed (exp_Source e) tr) e) \<le> MaxExposureBytes) (cfg_Exposures (gs_cfg g))"
    and "gateway_client c" and "c_http c = gateway_transport (ge_V env) h remote"
    and "route_name name" and "gateway_tag etag"
  shows "Fetch c name etag username password = Inr res \<longleftrightarrow>
    (\<exists>e s. e \<in> set (cfg_Exposures (gs_cfg g)) \<and> exp_Name e = name
       \<and> lets_in (gs_cfg g) e (agent_request remote (c_version c) name [] username password)
       \<and> authorized (api_secrets tr) e (agent_request remote (c_version c) name [] username password)
       \<and> available (api_secrets tr) e s
       \<and> etag \<noteq> ETag (canonical_body s e) (sec_UID s)
       \<and> res = \<lparr>Values = (\<lambda>k. if k \<in> set (exp_Keys e) then sec_Data s k else None),
                result_ETag = ETag (canonical_body s e) (sec_UID s)\<rparr>)"
proof -
  note ok = gateway_started(1) [OF assms(1)]
  have h: "h = handler_of (gs_cfg g) m" using assms(4) secretsHandler_ok [OF ok] by simp
  show ?thesis
    unfolding Fetch_exactly [OF assms(6,7,8,9) handler_keys [OF assms(2) ok, of m, folded h]
        gateway_deliverable [OF assms(1,2,3,5), folded h]] h gateway_admitted [OF ok assms(8)]
    using gateway_secrets [OF assms(1,3)] by blast
qed

text \<open>Both Secrets of the example are listed once.\<close>

definition ex_answers :: "(SecretRef \<times> input) list" where
  "ex_answers = [(SecretRef ''ns'' ''creds'', CtxCheck False), (SecretRef ''ns'' ''db'', CtxCheck False),
     (SecretRef ''ns'' ''db'', ListAnswer (Returns (Some \<lparr>l_Items = [\<lparr>s_Namespace = ''ns'', s_Name = ''db'', s_ResourceVersion = ''2'',
        s_UID = ''d'', s_Data = [''k'' \<mapsto> ''v'', ''other'' \<mapsto> ''x'']\<rparr>], l_ResourceVersion = ''3''\<rparr>)) False 5 6),
     (SecretRef ''ns'' ''creds'', ListAnswer (Returns (Some \<lparr>l_Items = [\<lparr>s_Namespace = ''ns'', s_Name = ''creds'', s_ResourceVersion = ''1'',
        s_UID = ''c'', s_Data = [''username'' \<mapsto> ''u'', ''password'' \<mapsto> ''p'']\<rparr>], l_ResourceVersion = ''3''\<rparr>)) False 7 8)]"

lemma ex_refs: "gateway_refs ex_config = [SecretRef ''ns'' ''creds'', SecretRef ''ns'' ''db'']"
  by (simp add: gateway_refs_def ex_config_def ReferencedSecrets_def ex_exposure_def add_ref_def) code_simp

lemma ex_answered: "\<exists>m. steps (gs_manager ex_gateway) ex_answers m"
proof -
  have opts: "manager_options ex_config = \<lparr>ReconcileInterval = 5 * minute, RequestTimeout = 0, WatchTimeout = 0,
      InitialBackoff = 0, MaxBackoff = 0, StableWatchDuration = 0\<rparr>"
    by (simp add: manager_options_def ex_config_def)
  have "run_trace ex_answers (gs_manager ex_gateway) \<noteq> None"
    by (simp add: ex_gateway_def ex_refs opts ex_answers_def run_eval Let_def)
  then show ?thesis using run_trace_steps by blast
qed

lemma ex_observed:
  "observed (SecretRef ''ns'' ''creds'') ex_answers = ex_creds" "observed (SecretRef ''ns'' ''db'') ex_answers = ex_source"
  by (simp_all add: ex_answers_def run_eval ex_creds_def ex_source_def)

lemma ex_config_simps:
  "gs_cfg ex_gateway = ex_config" "cfg_Exposures ex_config = [ex_exposure]" "ge_V ex_gateway_env = ex_names"
  "exp_Source ex_exposure = SecretRef ''ns'' ''db''" "exp_Auth ex_exposure = Auth (SecretRef ''ns'' ''creds'')"
  by (simp_all add: ex_gateway_def ex_config_def ex_gateway_env_def ex_exposure_def)

lemma ex_names_ok: "k8s_names (ge_V ex_gateway_env)"
  unfolding ex_config_simps by (rule ex_names.k8s_names_axioms)

lemma ex_small:
  "list_all (\<lambda>e. length (canonical_body (observed (exp_Source e) ex_answers) e) \<le> MaxExposureBytes) (cfg_Exposures (gs_cfg ex_gateway))"
  by (simp add: ex_config_simps ex_observed ex_body_length MaxExposureBytes_def)

lemma ex_handler_built: "secretsHandler (gs_cfg ex_gateway) m = Inr (handler_of ex_config m)"
  using secretsHandler_ok [OF ex_config_ok] by (simp add: ex_config_simps)

definition ex_fetcher :: "Manager \<Rightarrow> Client" where
  "ex_fetcher m = ex_client\<lparr>c_http := gateway_transport ex_names (handler_of ex_config m) ''10.0.0.1:1234''\<rparr>"

lemma ex_fetcher_ok:
  "gateway_client (ex_fetcher m)"
  "c_http (ex_fetcher m) = gateway_transport (ge_V ex_gateway_env) (handler_of ex_config m) ''10.0.0.1:1234''" "c_version (ex_fetcher m) = ''1''"
  using ex_gateway_client by (simp_all add: gateway_client_def ex_fetcher_def ex_config_simps) (simp add: ex_client_def)

lemma ex_let_in:
  "lets_in ex_config ex_exposure (agent_request ''10.0.0.1:1234'' ''1'' ''app'' [] ''u'' ''p'')"
  "authorized (api_secrets ex_answers) ex_exposure (agent_request ''10.0.0.1:1234'' ''1'' ''app'' [] ''u'' ''p'')"
  "available (api_secrets ex_answers) ex_exposure ex_source"
proof -
  show "lets_in ex_config ex_exposure (agent_request ''10.0.0.1:1234'' ''1'' ''app'' [] ''u'' ''p'')"
    using ex_agent_request(1) by (auto simp: admitted_def lets_in_def ex_config_def NewResolver_def ex_handler_def)
  show "authorized (api_secrets ex_answers) ex_exposure (agent_request ''10.0.0.1:1234'' ''1'' ''app'' [] ''u'' ''p'')"
    using ex_agent_request(2) by (simp add: authorized_def api_secrets_def ex_config_simps ex_observed ex_secrets_def)
  show "available (api_secrets ex_answers) ex_exposure ex_source"
    by (simp add: available_def api_secrets_def ex_config_simps ex_observed) (simp add: ex_source_def ex_exposure_def)
qed

definition ex_result :: Result where
  "ex_result = \<lparr>Values = (\<lambda>k. if k \<in> set (exp_Keys ex_exposure) then sec_Data ex_source k else None),
     result_ETag = ETag (canonical_body ex_source ex_exposure) (sec_UID ex_source)\<rparr>"

lemma ex_result_Values: "Values ex_result = [''k'' \<mapsto> ''v'']"
  by (auto simp: ex_result_def ex_exposure_def ex_source_def fun_eq_iff)

theorem agent_receives_exactly_witness:
  "\<exists>m h. gateway_start ex_gateway_env [] = Inr ex_gateway \<and> steps (gs_manager ex_gateway) ex_answers m
     \<and> secretsHandler (gs_cfg ex_gateway) m = Inr h \<and> c_http (ex_fetcher m) = gateway_transport ex_names h ''10.0.0.1:1234''
     \<and> Fetch (ex_fetcher m) ''app'' [] ''u'' ''p'' = Inr ex_result \<and> Values ex_result = [''k'' \<mapsto> ''v'']"
proof -
  obtain m where m: "steps (gs_manager ex_gateway) ex_answers m" using ex_answered by blast
  have "gateway_tag []" by (simp add: gateway_tag_def)
  note fetch = agent_receives_exactly [OF ex_starts ex_names_ok m ex_handler_built ex_small ex_fetcher_ok(1,2) ex_route_name this]
  have "Fetch (ex_fetcher m) ''app'' [] ''u'' ''p'' = Inr ex_result"
    by (rule iffD2 [OF fetch], intro exI [of _ ex_exposure] exI [of _ ex_source] conjI)
       (simp_all add: ex_config_simps ex_let_in ex_fetcher_ok(3) ex_result_def, simp add: ex_exposure_def)
  with m ex_starts ex_handler_built ex_result_Values ex_fetcher_ok(2) ex_config_simps(3) show ?thesis by auto
qed

text \<open>The same for a synchronization: the file of the agent's target gets the value.\<close>

definition ex_disk :: world where
  "ex_disk = (ex_world [])\<lparr>w_fs := ex_files(''/p'' \<mapsto> \<lparr>f_data = ''p'', f_mode = 0x180, f_synced = True\<rparr>)\<rparr>"

lemma ex_gateway_Fetch:
  assumes "steps (gs_manager ex_gateway) ex_answers m"
  shows "Fetch (ex_fetcher m) ''app'' [] ''u'' ''p'' = Inr ex_result"
proof -
  let ?h = "handler_of ex_config m" and ?r = "agent_request ''10.0.0.1:1234'' (c_version (ex_fetcher m)) ''app'' [] ''u'' ''p''"
  have e: "ex_exposure \<in> set (cfg_Exposures (gs_cfg ex_gateway))" by (simp add: ex_config_simps)
  have name: "exp_Name ex_exposure = ''app''" by (simp add: ex_exposure_def)
  have admitted: "admitted ex_names ?h ?r ex_exposure"
    unfolding gateway_admitted [OF ex_config_ok ex_route_name] using ex_let_in(1) name by (simp add: ex_config_simps ex_fetcher_ok(3))
  have auth: "authorized (h_secrets ?h) ex_exposure ?r" and avail: "available (h_secrets ?h) ex_exposure ex_source"
    using gateway_secrets [OF ex_starts assms e] ex_let_in(2,3) by (simp_all add: ex_config_simps ex_fetcher_ok(3))
  have deliver: "deliverable ?h"
    using gateway_deliverable [OF ex_starts ex_names_ok assms ex_small] by (simp add: ex_config_simps)
  have keys: "keys_nonempty ?h" using handler_keys [OF ex_names.k8s_names_axioms ex_config_ok] .
  have tag: "gateway_tag []" by (simp add: gateway_tag_def)
  have transport: "c_http (ex_fetcher m) = gateway_transport ex_names ?h ''10.0.0.1:1234''"
    using ex_fetcher_ok(2) by (simp add: ex_config_simps)
  from Fetch_served [OF ex_fetcher_ok(1) transport ex_route_name tag keys admitted auth avail deliverableD [OF deliver admitted avail]]
  show ?thesis by (simp add: ex_result_def)
qed

lemma ex_disk_synced:
  assumes "steps (gs_manager ex_gateway) ex_answers m"
  obtains w' where "Sync (ex_fetcher m) ''/s'' ex_e ex_disk = (Done (True, None), w')"
    "w_fs w' ''/b'' = Some \<lparr>f_data = ''v'', f_mode = 0x1A0, f_synced = True\<rparr>"
proof -
  have world: "w_fate ex_disk = []" "w_TempDir ex_disk = ''/tmp''" "w_rand ex_disk = [1, 2, 3]"
    "w_fs ex_disk = ex_files(''/p'' \<mapsto> \<lparr>f_data = ''p'', f_mode = 0x180, f_synced = True\<rparr>)"
    by (simp_all add: ex_disk_def ex_world_def)
  have free: "\<forall>p\<in>state_temps ''/tmp'' ''/s'' ex_e. w_fs ex_disk p = None"
    by (auto simp: world ex_paths state_temps_def temp_space_def temp_names_for ex_files_def)
  obtain w' where w': "apply_result ''/s'' ex_e ex_result ex_disk = (Done (True, None), w')"
    using apply_result_calm [of ex_disk "''/s''" ex_e ex_result] ex_separate free
    by (auto simp: ex_paths world ex_result_Values)
  have "stored_tag ''/s'' ex_e ex_disk = []" by (simp add: stored_tag_def ex_paths world)
  then have "Sync (ex_fetcher m) ''/s'' ex_e ex_disk = (Done (True, None), w')"
    using Sync_calm [of ex_disk ex_e "\<lparr>f_data = ''p'', f_mode = 0x180, f_synced = True\<rparr>" "ex_fetcher m" "''/s''"] w'
    by (simp add: world ex_gateway_Fetch [OF assms])
  moreover obtain X where "applied ''/s'' ex_e ex_result X (Done (True, None)) ex_disk w'"
    using apply_result_cases [OF w'] ex_separate world by auto
  then have "w_fs w' ''/b'' = Some \<lparr>f_data = ''v'', f_mode = 0x1A0, f_synced = True\<rparr>"
    unfolding applied_def by (simp add: complete_def new_file_def ex_result_Values)
  ultimately show thesis using that by blast
qed

theorem secret_reaches_file_witness:
  "\<exists>m w' v. steps (gs_manager ex_gateway) ex_answers m \<and> Sync (ex_fetcher m) ''/s'' ex_e ex_disk = (Done (True, None), w')
     \<and> sec_Data ex_source ''k'' = Some v \<and> w_fs w' ''/b'' = Some \<lparr>f_data = v, f_mode = 0x1A0, f_synced = True\<rparr>"
proof -
  obtain m where m: "steps (gs_manager ex_gateway) ex_answers m" using ex_answered by blast
  obtain w' where w': "Sync (ex_fetcher m) ''/s'' ex_e ex_disk = (Done (True, None), w')"
    "w_fs w' ''/b'' = Some \<lparr>f_data = ''v'', f_mode = 0x1A0, f_synced = True\<rparr>" by (rule ex_disk_synced [OF m])
  let ?f = "\<lparr>t_Key = ''k'', t_Path = ''/b'', t_Mode = 0x1A0\<rparr>"
  have sep: "separate (w_TempDir ex_disk) ''/s'' ex_e" using ex_separate by (simp add: ex_disk_def ex_world_def)
  have route: "route_name (e_Name ex_e)" using ex_route_name by simp
  have f: "?f \<in> set (e_Targets ex_e)" by simp
  have new: "w_fs w' ''/b'' = w_fs w' (t_Path ?f) \<and> w_fs w' ''/b'' \<noteq> w_fs ex_disk (t_Path ?f)
      \<or> survives w' (t_Path ?f) (w_fs w' ''/b'') \<and> \<not> survives ex_disk (t_Path ?f) (w_fs w' ''/b'')"
    using w'(2) by (simp add: ex_disk_def ex_files_def)
  obtain e s v where "e \<in> set (cfg_Exposures (gs_cfg ex_gateway))" "available (api_secrets ex_answers) e s"
      "sec_Data s ''k'' = Some v" "w_fs w' ''/b'' = Some \<lparr>f_data = v, f_mode = 0x1A0, f_synced = True\<rparr>"
    using secret_reaches_file [OF ex_starts ex_names_ok m ex_handler_built ex_small ex_fetcher_ok(1,2) route sep w'(1) f new] by auto
  then have "sec_Data ex_source ''k'' = Some v" by (simp add: ex_config_simps available_def api_secrets_def ex_observed)
  with m w'(1) \<open>w_fs w' ''/b'' = Some \<lparr>f_data = v, f_mode = 0x1A0, f_synced = True\<rparr>\<close> show ?thesis by blast
qed

end
